(* ===== verification/Prelude.thy ===== *)
theory Prelude
  imports Main "HOL-Library.Char_ord"
begin

text \<open>
  Shared vocabulary of the development.

  \<^item> \<open>rc\<close> is the return-code convention of the module: \<open>NGX_OK\<close> carries the value
    written through the out parameter, \<open>NGX_DECLINED\<close> the reason written through the
    error out parameter, \<open>NGX_ERROR\<close> nothing.
  \<^item> \<open>pool\<close> models \<open>ngx_pool_t\<close> (and \<open>ngx_slab_pool_t\<close>) as the sequence of outcomes
    of the allocations made from it: every call of an nginx allocator consumes one outcome,
    and a pool whose recorded outcomes are used up keeps succeeding.  The pool \<open>[]\<close> is thus
    the one that never fails, and each \<open>if (p == NULL) return NGX_ERROR\<close> of the source is a
    branch of the model.
  \<^item> \<open>bnd\<close>, \<open>ret\<close>, \<open>declined\<close>, \<open>palloc_with\<close> are the sequencing the code writes as
    \<open>rc = f(...); if (rc != NGX_OK) return rc;\<close>.
  \<^item> \<open>alloc_state\<close> is the interface of a state that contains a pool.  Its lemmas give, for
    every operation built from these combinators, that allocation failure can only turn the
    outcome into \<open>NGX_ERROR\<close> (\<open>transparent\<close>).
\<close>

section \<open>Return codes and pools\<close>

type_synonym bytes = string

type_synonym pool = "bool list"

datatype ('e, 'a) rc = NGX_OK 'a | NGX_DECLINED 'e | NGX_ERROR

type_synonym ('s, 'e, 'a) op = "'s \<Rightarrow> ('e, 'a) rc \<times> 's"

text \<open>Facts that evaluate one operation in the pool that never fails.\<close>
named_theorems run_simps

text \<open>Introduction rules for transparency of allocation failure.\<close>
named_theorems transp_intros

text \<open>Facts stating that a reader consumes input.\<close>
named_theorems consumes

fun palloc :: "pool \<Rightarrow> bool \<times> pool" where
  "palloc [] = (True, [])"
| "palloc (b # bs) = (b, bs)"

definition ret :: "'a \<Rightarrow> ('s, 'e, 'a) op" where
  "ret x s = (NGX_OK x, s)"

definition declined :: "'e \<Rightarrow> ('s, 'e, 'a) op" where
  "declined e s = (NGX_DECLINED e, s)"

definition bnd :: "('s, 'e, 'a) op \<Rightarrow> ('a \<Rightarrow> ('s, 'e, 'b) op) \<Rightarrow> ('s, 'e, 'b) op" where
  "bnd m f s = (case m s of
      (NGX_OK x, s') \<Rightarrow> f x s'
    | (NGX_DECLINED e, s') \<Rightarrow> (NGX_DECLINED e, s')
    | (NGX_ERROR, s') \<Rightarrow> (NGX_ERROR, s'))"

definition palloc_with :: "('s \<Rightarrow> pool) \<Rightarrow> (pool \<Rightarrow> 's \<Rightarrow> 's) \<Rightarrow> ('s, 'e, unit) op" where
  "palloc_with get upd s =
     (case palloc (get s) of (b, p') \<Rightarrow> (if b then NGX_OK () else NGX_ERROR, upd p' s))"

lemma bnd_cong [fundef_cong]:
  "m = m' \<Longrightarrow> s = s' \<Longrightarrow> (\<And>x t. m' s' = (NGX_OK x, t) \<Longrightarrow> f x t = f' x t) \<Longrightarrow> bnd m f s = bnd m' f' s'"
  by (auto simp: bnd_def split: prod.splits rc.splits)

lemma bnd_OK: "m s = (NGX_OK x, s') \<Longrightarrow> bnd m f s = f x s'"
  by (simp add: bnd_def)

lemma bnd_ret [simp]: "bnd (ret x) f = f x"
  by (simp add: fun_eq_iff bnd_def ret_def)

lemma bnd_declined [simp]: "bnd (declined e) f = declined e"
  by (simp add: fun_eq_iff bnd_def declined_def)

lemma bnd_eq_OK:
  "bnd m f s = (NGX_OK y, s') \<longleftrightarrow> (\<exists>x t. m s = (NGX_OK x, t) \<and> f x t = (NGX_OK y, s'))"
  by (auto simp: bnd_def split: prod.splits rc.splits)

lemma ret_eq_OK [simp]: "ret x s = (NGX_OK y, s') \<longleftrightarrow> y = x \<and> s' = s"
  by (auto simp: ret_def)

lemma declined_neq_OK [simp]: "declined e s \<noteq> (NGX_OK y, s')"
  by (simp add: declined_def)

lemma fst_ret [simp]: "fst (ret x s) = NGX_OK x" and snd_ret [simp]: "snd (ret x s) = s"
  by (simp_all add: ret_def)

lemma palloc_with_Nil [run_simps]: "get s = [] \<Longrightarrow> palloc_with get upd s = (NGX_OK (), upd [] s)"
  by (simp add: palloc_with_def)

section \<open>Allocation failure\<close>

text \<open>
  An operation is transparent for allocation failure when any outcome other than
  \<open>NGX_ERROR\<close> is the outcome it has in the pool that never fails.
\<close>

definition transparent_at :: "(pool \<Rightarrow> 's \<Rightarrow> 's) \<Rightarrow> ('s, 'e, 'a) op \<Rightarrow> 's \<Rightarrow> bool" where
  "transparent_at upd m s \<longleftrightarrow>
     (fst (m s) \<noteq> NGX_ERROR \<longrightarrow> m (upd [] s) = (fst (m s), upd [] (snd (m s))))"

abbreviation transparent :: "(pool \<Rightarrow> 's \<Rightarrow> 's) \<Rightarrow> ('s, 'e, 'a) op \<Rightarrow> bool" where
  "transparent upd m \<equiv> (\<forall>s. transparent_at upd m s)"

lemma transparentD:
  "transparent_at upd m s \<Longrightarrow> m s = (r, s') \<Longrightarrow> r \<noteq> NGX_ERROR \<Longrightarrow> m (upd [] s) = (r, upd [] s')"
  by (auto simp: transparent_at_def)

lemma transparentI:
  "(\<And>r s'. m s = (r, s') \<Longrightarrow> r \<noteq> NGX_ERROR \<Longrightarrow> m (upd [] s) = (r, upd [] s')) \<Longrightarrow> transparent_at upd m s"
  by (cases "m s") (auto simp: transparent_at_def)

lemma transparent_if [transp_intros]:
  "P (upd [] s) = P s \<Longrightarrow> (P s \<Longrightarrow> transparent_at upd m s) \<Longrightarrow> (\<not> P s \<Longrightarrow> transparent_at upd n s) \<Longrightarrow>
   transparent_at upd (\<lambda>s. if P s then m s else n s) s"
  by (simp add: transparent_at_def)

lemma transparent_comp:
  "g (upd [] s) = upd [] (g s) \<Longrightarrow> transparent_at upd m (g s) \<Longrightarrow> transparent_at upd (\<lambda>s. m (g s)) s"
  by (simp add: transparent_at_def)

locale alloc_state =
  fixes get :: "'s \<Rightarrow> pool" and upd :: "pool \<Rightarrow> 's \<Rightarrow> 's"
  assumes get_upd: "get (upd p s) = p"
    and upd_upd: "upd p (upd q s) = upd p s"
begin

lemma transparent_ret: "transparent_at upd (ret x) s"
  by (simp add: transparent_at_def ret_def)

lemma transparent_declined: "transparent_at upd (declined e) s"
  by (simp add: transparent_at_def declined_def)

lemma transparent_palloc: "transparent_at upd (palloc_with get upd) s"
  by (auto simp: transparent_at_def palloc_with_def get_upd upd_upd split: prod.splits)

lemma transparent_bnd:
  assumes m: "transparent_at upd m s"
    and f: "\<And>x t. m s = (NGX_OK x, t) \<Longrightarrow> transparent_at upd (f x) t"
  shows "transparent_at upd (bnd m f) s"
proof (rule transparentI)
  fix r s'
  assume b: "bnd m f s = (r, s')" and ne: "r \<noteq> NGX_ERROR"
  then obtain q t where ms: "m s = (q, t)" and q: "q \<noteq> NGX_ERROR"
    by (cases "m s") (auto simp: bnd_def split: rc.splits)
  have e: "m (upd [] s) = (q, upd [] t)" using m ms q by (rule transparentD)
  show "bnd m f (upd [] s) = (r, upd [] s')"
  proof (cases q)
    case (NGX_OK x)
    with b ms have "f x t = (r, s')" by (simp add: bnd_def)
    with f [of x t] ms NGX_OK ne have "f x (upd [] t) = (r, upd [] s')" by (blast dest: transparentD)
    with e NGX_OK show ?thesis by (simp add: bnd_def)
  next
    case (NGX_DECLINED d)
    with b ms e show ?thesis by (simp add: bnd_def)
  next
    case NGX_ERROR
    with q show ?thesis by simp
  qed
qed

lemmas transparent_rules = transparent_ret transparent_declined transparent_palloc transparent_bnd

end

text \<open>The pool itself is the simplest state with a pool.\<close>

interpretation pool_st: alloc_state "\<lambda>p. p" "\<lambda>p s. p"
  by unfold_locales simp_all

definition pool_alloc :: "(pool, 'e, unit) op" where
  "pool_alloc = palloc_with (\<lambda>p. p) (\<lambda>p s. p)"

lemma pool_alloc_Nil [run_simps]: "pool_alloc [] = (NGX_OK (), [])"
  by (simp add: pool_alloc_def palloc_with_def)

section \<open>Bytes and lists\<close>

text \<open>\<open>ngx_auth_httpsig_str_eq\<close>: equal length and equal bytes.\<close>

definition str_eq :: "bytes \<Rightarrow> bytes \<Rightarrow> bool" where
  "str_eq a b \<longleftrightarrow> length a = length b \<and> take (length a) a = take (length a) b"

lemma str_eq_iff [simp]: "str_eq a b \<longleftrightarrow> a = b"
  by (auto simp: str_eq_def)

abbreviation code_of :: "char \<Rightarrow> nat" where
  "code_of c \<equiv> of_char c"

lemma takeWhile_append_stop:
  "\<forall>x\<in>set xs. P x \<Longrightarrow> ys = [] \<or> \<not> P (hd ys) \<Longrightarrow> takeWhile P (xs @ ys) = xs"
  by (cases ys) auto

lemma dropWhile_append_stop:
  "\<forall>x\<in>set xs. P x \<Longrightarrow> ys = [] \<or> \<not> P (hd ys) \<Longrightarrow> dropWhile P (xs @ ys) = ys"
  by (cases ys) auto

lemma length_dropWhile_Suc [simp]: "length (dropWhile P xs) < Suc (length xs)"
  by (simp add: le_imp_less_Suc length_dropWhile_le)

end
