(* ===== verification/Ngx.thy ===== *)
theory Ngx
  imports Prelude
begin

text \<open>
  The nginx core primitives the module calls on byte strings, translated from the nginx shim the
  repository carries for its unit tests (\<open>tests/unit/ngx_compat/ngx_stub.c\<close>), which mirrors the
  production functions: ASCII case folding and comparison, and the two-length memory comparison the
  shared-memory trees are ordered by.  The lemmas give what the other components use: the
  case-insensitive comparison decides equality up to case, and \<open>ngx_memn2cmp\<close> is a linear order.
\<close>

unbundle bit_operations_syntax

section \<open>Case folding and comparison\<close>

definition ngx_tolower :: "char \<Rightarrow> char" where
  "ngx_tolower c = (if CHR ''A'' \<le> c \<and> c \<le> CHR ''Z'' then char_of (code_of c OR 0x20) else c)"

definition ngx_strlow :: "bytes \<Rightarrow> bytes" where
  "ngx_strlow s = map ngx_tolower s"

text \<open>
  \<open>ngx_strncasecmp\<close> reads \<open>n\<close> bytes of both arguments and stops at a common NUL.  A read past the
  end of a C literal finds its terminating NUL.
\<close>

fun ngx_strncasecmp :: "bytes \<Rightarrow> bytes \<Rightarrow> nat \<Rightarrow> int" where
  "ngx_strncasecmp s1 s2 0 = 0"
| "ngx_strncasecmp s1 s2 (Suc n) =
     (let c1 = (case s1 of [] \<Rightarrow> CHR 0x00 | c # _ \<Rightarrow> ngx_tolower c);
          c2 = (case s2 of [] \<Rightarrow> CHR 0x00 | c # _ \<Rightarrow> ngx_tolower c)
      in if c1 = c2 then (if c1 = CHR 0x00 then 0 else ngx_strncasecmp (tl s1) (tl s2) n)
         else int (code_of c1) - int (code_of c2))"

lemma code_of_eq [simp]: "code_of c = code_of d \<longleftrightarrow> c = d"
  by (metis char_of_char)

lemma or_32_upper: "65 \<le> (n::nat) \<Longrightarrow> n \<le> 90 \<Longrightarrow> n OR 32 = n + 32"
proof -
  assume "65 \<le> n" "n \<le> 90"
  then have "n \<in> set [65..<91]" unfolding set_upt atLeastLessThan_iff by linarith
  moreover have "\<forall>n \<in> set [65..<91]. n OR 32 = n + (32::nat)" by code_simp
  ultimately show ?thesis by blast
qed

lemma code_of_tolower:
  "code_of (ngx_tolower c) =
     (if 65 \<le> code_of c \<and> code_of c \<le> 90 then code_of c + 32 else code_of c)"
  by (simp add: ngx_tolower_def less_eq_char_def or_32_upper)

lemma ngx_tolower_NUL [simp]: "ngx_tolower c = CHR 0x00 \<longleftrightarrow> c = CHR 0x00"
  by (simp add: code_of_eq [symmetric] code_of_tolower del: code_of_eq)

lemma ngx_tolower_idem [simp]: "ngx_tolower (ngx_tolower c) = ngx_tolower c"
  by (simp add: code_of_eq [symmetric] code_of_tolower del: code_of_eq)

lemma ngx_strncasecmp_eq:
  "CHR 0x00 \<notin> set s2 \<Longrightarrow> length s1 = n \<Longrightarrow> length s2 = n \<Longrightarrow>
   ngx_strncasecmp s1 s2 n = 0 \<longleftrightarrow> map ngx_tolower s1 = map ngx_tolower s2"
proof (induction n arbitrary: s1 s2)
  case 0
  then show ?case by simp
next
  case (Suc n)
  then obtain c1 t1 c2 t2 where s: "s1 = c1 # t1" "s2 = c2 # t2"
    by (metis length_Suc_conv)
  with Suc show ?case by (auto simp: Let_def)
qed

lemma ngx_strlow_idem [simp]: "ngx_strlow (ngx_strlow s) = ngx_strlow s"
  by (simp add: ngx_strlow_def)

lemma length_ngx_strlow [simp]: "length (ngx_strlow s) = length s"
  by (simp add: ngx_strlow_def)

section \<open>Two-length memory comparison\<close>

text \<open>\<open>memcmp\<close> over the first \<open>n\<close> bytes, by its sign.\<close>

fun ngx_memcmp :: "bytes \<Rightarrow> bytes \<Rightarrow> nat \<Rightarrow> int" where
  "ngx_memcmp s1 s2 0 = 0"
| "ngx_memcmp [] s2 (Suc n) = 0"
| "ngx_memcmp s1 [] (Suc n) = 0"
| "ngx_memcmp (a # s1) (b # s2) (Suc n) =
     (if a = b then ngx_memcmp s1 s2 n else int (code_of a) - int (code_of b))"

definition ngx_memn2cmp :: "bytes \<Rightarrow> bytes \<Rightarrow> int" where
  "ngx_memn2cmp s1 s2 =
     (let n1 = length s1; n2 = length s2;
          n = (if n1 \<le> n2 then n1 else n2);
          z = (if n1 \<le> n2 then - 1 else 1);
          m = ngx_memcmp s1 s2 n
      in if m \<noteq> 0 \<or> n1 = n2 then m else z)"

lemma ngx_memn2cmp_simps [simp]:
  "ngx_memn2cmp [] [] = 0"
  "ngx_memn2cmp [] (b # bs) = - 1"
  "ngx_memn2cmp (a # as) [] = 1"
  "ngx_memn2cmp (a # as) (b # bs) =
     (if a = b then ngx_memn2cmp as bs else int (code_of a) - int (code_of b))"
  by (auto simp: ngx_memn2cmp_def Let_def)

lemma ngx_memn2cmp_eq [simp]: "ngx_memn2cmp a b = 0 \<longleftrightarrow> a = b"
proof (induction a arbitrary: b)
  case Nil
  then show ?case by (cases b) simp_all
next
  case (Cons x a)
  then show ?case by (cases b) auto
qed

lemma ngx_memn2cmp_anti: "ngx_memn2cmp a b < 0 \<longleftrightarrow> 0 < ngx_memn2cmp b a"
proof (induction a arbitrary: b)
  case Nil
  then show ?case by (cases b) simp_all
next
  case (Cons x a)
  then show ?case by (cases b) auto
qed

lemma ngx_memn2cmp_trans:
  "ngx_memn2cmp a b < 0 \<Longrightarrow> ngx_memn2cmp b c < 0 \<Longrightarrow> ngx_memn2cmp a c < 0"
proof (induction a arbitrary: b c)
  case Nil
  then show ?case by (cases b; cases c) simp_all
next
  case (Cons x a)
  then show ?case by (cases b; cases c) (auto split: if_splits)
qed

end
