(* ===== verification/Base64.thy ===== *)
theory Base64
  imports Ngx
begin

text \<open>
  Standard base64 as nginx core provides it (\<open>ngx_decode_base64\<close>, \<open>ngx_encode_base64\<close>), translated
  from the shim \<open>tests/unit/ngx_compat/ngx_stub.c\<close>.  The decoder stops at the first \<open>=\<close>; the
  encoder pads.  The main fact is that decoding inverts encoding.
\<close>

unbundle bit_operations_syntax

section \<open>Standard base64\<close>

definition b64_alphabet :: bytes where
  "b64_alphabet = ''ABCDEFGHIJKLMNOPQRSTUVWXYZabcdefghijklmnopqrstuvwxyz0123456789+/''"

definition b64_char :: "char \<Rightarrow> int" where
  "b64_char c =
     (if CHR ''A'' \<le> c \<and> c \<le> CHR ''Z'' then int (code_of c) - int (code_of CHR ''A'')
      else if CHR ''a'' \<le> c \<and> c \<le> CHR ''z'' then int (code_of c) - int (code_of CHR ''a'') + 26
      else if CHR ''0'' \<le> c \<and> c \<le> CHR ''9'' then int (code_of c) - int (code_of CHR ''0'') + 52
      else if c = CHR ''+'' then 62
      else if c = CHR ''/'' then 63
      else - 1)"

text \<open>The decoding loop: \<open>buf\<close> holds the low \<open>bits\<close> bits not yet written out.\<close>

fun b64_loop :: "nat \<Rightarrow> nat \<Rightarrow> bytes \<Rightarrow> bytes" where
  "b64_loop buf bits [] = []"
| "b64_loop buf bits (c # cs) =
     (let buf = push_bit 6 buf OR nat (b64_char c);
          bits = bits + 6
      in if 8 \<le> bits
         then char_of ((drop_bit (bits - 8) buf) AND 0xff)
              # b64_loop (buf AND (2 ^ (bits - 8) - 1)) (bits - 8) cs
         else b64_loop buf bits cs)"

definition ngx_decode_base64 :: "bytes \<Rightarrow> bytes option" where
  "ngx_decode_base64 src =
     (let pre = takeWhile (\<lambda>c. c \<noteq> CHR ''='') src
      in if \<exists>c\<in>set pre. b64_char c < 0 then None
         else if length pre mod 4 = 1 then None
         else Some (b64_loop 0 0 pre))"

definition b64_digit :: "nat \<Rightarrow> char" where
  "b64_digit i = b64_alphabet ! i"

fun ngx_encode_base64 :: "bytes \<Rightarrow> bytes" where
  "ngx_encode_base64 (s0 # s1 # s2 # s) =
     b64_digit (drop_bit 2 (code_of s0))
     # b64_digit (push_bit 4 (code_of s0 AND 0x03) OR drop_bit 4 (code_of s1))
     # b64_digit (push_bit 2 (code_of s1 AND 0x0f) OR drop_bit 6 (code_of s2))
     # b64_digit (code_of s2 AND 0x3f)
     # ngx_encode_base64 s"
| "ngx_encode_base64 [s0, s1] =
     [b64_digit (drop_bit 2 (code_of s0)),
      b64_digit (push_bit 4 (code_of s0 AND 0x03) OR drop_bit 4 (code_of s1)),
      b64_digit (push_bit 2 (code_of s1 AND 0x0f)), CHR ''='']"
| "ngx_encode_base64 [s0] =
     [b64_digit (drop_bit 2 (code_of s0)),
      b64_digit (push_bit 4 (code_of s0 AND 0x03)), CHR ''='', CHR ''='']"
| "ngx_encode_base64 [] = []"

section \<open>Decoding inverts encoding\<close>

lemma push_bit_OR: "b < 2 ^ k \<Longrightarrow> push_bit k a OR b = a * 2 ^ k + (b::nat)"
proof -
  assume "b < 2 ^ k"
  then have "take_bit k b = b" by (simp add: take_bit_nat_eq_self)
  then have "\<not> bit (push_bit k a) n \<or> \<not> bit b n" for n
    by (metis bit_push_bit_iff bit_take_bit_iff not_le)
  then have "push_bit k a + b = push_bit k a OR b" by (rule disjunctive_add)
  then show ?thesis by (simp add: push_bit_eq_mult)
qed

lemma AND_mask: "(n::nat) AND (2 ^ k - 1) = n mod 2 ^ k"
  by (metis take_bit_eq_mask take_bit_eq_mod mask_eq_exp_minus_1)

lemma AND_numerals:
  "(n::nat) AND 3 = n mod 4" "n AND 15 = n mod 16" "n AND 63 = n mod 64" "n AND 255 = n mod 256"
  using AND_mask [of n 2] AND_mask [of n 4] AND_mask [of n 6] AND_mask [of n 8] by simp_all

lemma b64_digit_table:
  "list_all (\<lambda>i. b64_char (b64_digit i) = int i \<and> b64_digit i \<noteq> CHR ''='' \<and> b64_digit i \<noteq> CHR '':'') [0..<64]"
  by code_simp

lemma b64_digit_props:
  assumes "i < 64"
  shows "b64_char (b64_digit i) = int i" and "b64_digit i \<noteq> CHR ''=''" and "b64_digit i \<noteq> CHR '':''"
  using b64_digit_table assms by (auto simp: list_all_iff)

lemma b64_loop_Cons:
  "i < 64 \<Longrightarrow> b64_loop buf bits (b64_digit i # cs) =
     (if 8 \<le> bits + 6
      then char_of ((buf * 64 + i) div 2 ^ (bits + 6 - 8) mod 256)
           # b64_loop ((buf * 64 + i) mod 2 ^ (bits + 6 - 8)) (bits + 6 - 8) cs
      else b64_loop (buf * 64 + i) (bits + 6) cs)"
  using push_bit_OR [of i 6 buf] AND_mask [of "buf * 64 + i" "bits + 6 - 8"]
  by (simp add: Let_def b64_digit_props drop_bit_eq_div AND_numerals)

declare b64_loop.simps(2) [simp del]

fun b64_body :: "bytes \<Rightarrow> nat list" where
  "b64_body (x # y # z # s) =
     [code_of x div 4, code_of x mod 4 * 16 + code_of y div 16,
      code_of y mod 16 * 4 + code_of z div 64, code_of z mod 64] @ b64_body s"
| "b64_body [x, y] =
     [code_of x div 4, code_of x mod 4 * 16 + code_of y div 16, code_of y mod 16 * 4]"
| "b64_body [x] = [code_of x div 4, code_of x mod 4 * 16]"
| "b64_body [] = []"

fun b64_pad :: "bytes \<Rightarrow> bytes" where
  "b64_pad (x # y # z # s) = b64_pad s"
| "b64_pad [x, y] = ''=''"
| "b64_pad [x] = ''==''"
| "b64_pad [] = []"

lemma code_of_quarter: "code_of y div 16 < 16" "code_of z div 64 < 4"
  by (simp_all add: less_mult_imp_div_less)

lemma encode_split: "ngx_encode_base64 s = map b64_digit (b64_body s) @ b64_pad s"
proof (induction s rule: ngx_encode_base64.induct)
  case (1 x y z s)
  have "push_bit 4 (code_of x mod 4) OR code_of y div 16 = code_of x mod 4 * 16 + code_of y div 16"
    using push_bit_OR [of "code_of y div 16" 4 "code_of x mod 4"] code_of_quarter by simp
  moreover have "push_bit 2 (code_of y mod 16) OR code_of z div 64 = code_of y mod 16 * 4 + code_of z div 64"
    using push_bit_OR [of "code_of z div 64" 2 "code_of y mod 16"] code_of_quarter by simp
  ultimately show ?case using 1 by (simp add: AND_numerals drop_bit_eq_div)
next
  case (2 x y)
  have "push_bit 4 (code_of x mod 4) OR code_of y div 16 = code_of x mod 4 * 16 + code_of y div 16"
    using push_bit_OR [of "code_of y div 16" 4 "code_of x mod 4"] code_of_quarter by simp
  then show ?case by (simp add: AND_numerals drop_bit_eq_div push_bit_eq_mult)
qed (simp_all add: AND_numerals drop_bit_eq_div push_bit_eq_mult)

lemma b64_body_less: "i \<in> set (b64_body s) \<Longrightarrow> i < 64"
proof (induction s rule: b64_body.induct)
  case (1 x y z s)
  have "code_of y div 16 < 16" "code_of z div 64 < 4" "code_of x div 4 < 64"
    by (simp_all add: less_mult_imp_div_less)
  moreover have "code_of x mod 4 < 4" "code_of y mod 16 < 16" "code_of z mod 64 < 64" by simp_all
  ultimately show ?case using 1 by auto
next
  case (2 x y)
  have "code_of y div 16 < 16" "code_of x div 4 < 64"
    by (simp_all add: less_mult_imp_div_less)
  moreover have "code_of x mod 4 < 4" "code_of y mod 16 < 16" by simp_all
  ultimately show ?case using 2 by auto
next
  case (3 x)
  have "code_of x div 4 < 64" by (simp add: less_mult_imp_div_less)
  moreover have "code_of x mod 4 < 4" by simp
  ultimately show ?case using 3 by auto
qed simp

lemma b64_join:
  "q < 16 \<Longrightarrow> (x div 4 * 64 + (x mod 4 * 16 + q)) div 16 = (x::nat)"
  "q < 16 \<Longrightarrow> (x div 4 * 64 + (x mod 4 * 16 + q)) mod 16 = q"
  "r < 4 \<Longrightarrow> (y div 16 * 64 + (y mod 16 * 4 + r)) div 4 = (y::nat)"
  "r < 4 \<Longrightarrow> (y div 16 * 64 + (y mod 16 * 4 + r)) mod 4 = r"
proof -
  have x: "x div 4 * 64 + (x mod 4 * 16 + q) = q + x * 16" using div_mult_mod_eq [of x 4] by linarith
  have y: "y div 16 * 64 + (y mod 16 * 4 + r) = r + y * 4" using div_mult_mod_eq [of y 16] by linarith
  show "q < 16 \<Longrightarrow> (x div 4 * 64 + (x mod 4 * 16 + q)) div 16 = x"
    and "q < 16 \<Longrightarrow> (x div 4 * 64 + (x mod 4 * 16 + q)) mod 16 = q" by (simp_all add: x)
  show "r < 4 \<Longrightarrow> (y div 16 * 64 + (y mod 16 * 4 + r)) div 4 = y"
    and "r < 4 \<Longrightarrow> (y div 16 * 64 + (y mod 16 * 4 + r)) mod 4 = r" by (simp_all add: y)
qed

lemma b64_join0:
  "(x div 4 * 64 + x mod 4 * 16) div 16 = (x::nat)"
  "(y div 16 * 64 + y mod 16 * 4) div 4 = (y::nat)"
  using b64_join(1) [of 0 x] b64_join(3) [of 0 y] by simp_all

lemma b64_loop_body: "b64_loop 0 0 (map b64_digit (b64_body s)) = s"
proof (induction s rule: b64_body.induct)
  case (1 x y z s)
  have lt: "code_of x div 4 < 64" "code_of x mod 4 * 16 + code_of y div 16 < 64"
    "code_of y mod 16 * 4 + code_of z div 64 < 64" "code_of z mod 64 < 64"
    by (rule b64_body_less [of _ "x # y # z # s"], simp)+
  show ?case using 1 lt
    by (simp add: b64_loop_Cons b64_join code_of_quarter)
next
  case (2 x y)
  have lt: "code_of x div 4 < 64" "code_of x mod 4 * 16 + code_of y div 16 < 64" "code_of y mod 16 * 4 < 64"
    by (rule b64_body_less [of _ "[x, y]"], simp)+
  show ?case using lt by (simp add: b64_loop_Cons b64_join b64_join0 code_of_quarter)
next
  case (3 x)
  have lt: "code_of x div 4 < 64" "code_of x mod 4 * 16 < 64"
    by (rule b64_body_less [of _ "[x]"], simp)+
  then show ?case by (simp add: b64_loop_Cons b64_join0)
qed simp

lemma length_b64_body: "length (b64_body s) mod 4 \<noteq> 1"
  by (induction s rule: b64_body.induct) simp_all

lemma b64_pad_cases: "b64_pad s = [] \<or> b64_pad s = ''='' \<or> b64_pad s = ''==''"
  by (induction s rule: b64_pad.induct) simp_all

theorem decode_encode_base64: "ngx_decode_base64 (ngx_encode_base64 s) = Some s"
proof -
  let ?b = "map b64_digit (b64_body s)"
  have "takeWhile (\<lambda>c. c \<noteq> CHR ''='') (?b @ b64_pad s) = ?b"
    using b64_pad_cases [of s] b64_body_less [of _ s]
    by (intro takeWhile_append_stop) (auto simp: b64_digit_props)
  moreover have "\<not> (\<exists>c\<in>set ?b. b64_char c < 0)"
    using b64_body_less [of _ s] by (auto simp: b64_digit_props)
  ultimately show ?thesis
    using length_b64_body [of s] by (simp add: ngx_decode_base64_def encode_split b64_loop_body)
qed

lemma encode_no_colon: "CHR '':'' \<notin> set (ngx_encode_base64 s)"
  using b64_pad_cases [of s] b64_body_less [of _ s] by (auto simp: encode_split b64_digit_props(3) [symmetric])

end
