(* ===== verification/Sfv.thy ===== *)
theory Sfv
  imports Base64
begin

text \<open>
  Structured Field Values (\<open>src/ngx_auth_httpsig_sfv.h\<close> and the parsing half of
  \<open>src/ngx_auth_httpsig_sfv.c\<close>).

  The parse context keeps the whole input (\<open>c_start\<close>) and the bytes from \<open>ctx->pos\<close> to
  \<open>ctx->last\<close> (\<open>c_rest\<close>); advancing the pointer drops the head of \<open>c_rest\<close>, and the offset
  reported by \<open>ngx_auth_httpsig_sfv_fail\<close> is the difference of the two lengths.  A bare item is a
  tagged union in the source (type, value, integer) and a datatype here; a Decimal is kept scaled
  by 1000 as in the source.  Every loop of the parser is a recursive function with the guard of the
  C loop; the loops that call other readers terminate because a key or a bare item consumes input.
\<close>

section \<open>Data\<close>

datatype sfv_bare =
    SFV_INTEGER int
  | SFV_DECIMAL int
  | SFV_STRING bytes
  | SFV_TOKEN bytes
  | SFV_BYTE_SEQUENCE bytes
  | SFV_BOOLEAN bool

record sfv_param =
  p_key :: bytes
  p_value :: sfv_bare

record sfv_item =
  it_bare :: sfv_bare
  it_params :: "sfv_param list"

record sfv_inner_list =
  il_items :: "sfv_item list"
  il_params :: "sfv_param list"

datatype sfv_value =
    MEMBER_ITEM sfv_item
  | MEMBER_INNER_LIST sfv_inner_list

record sfv_dict_entry =
  e_key :: bytes
  e_value :: sfv_value

record sfv_dictionary =
  d_entries :: "sfv_dict_entry list"
  d_duplicate_keys :: bool

record sfv_list =
  l_members :: "sfv_value list"

record sfv_error =
  err_offset :: nat
  err_reason :: string

record sfv_ctx =
  c_start :: bytes
  c_rest :: bytes
  c_depth :: nat
  c_pool :: pool

definition MAX_SFV_LENGTH :: nat where "MAX_SFV_LENGTH = 8192"
definition MAX_SFV_ITEMS :: nat where "MAX_SFV_ITEMS = 64"
definition MAX_SFV_DEPTH :: nat where "MAX_SFV_DEPTH = 4"
definition MAX_SFV_PARAMS :: nat where "MAX_SFV_PARAMS = 16"

lemmas sfv_limits = MAX_SFV_LENGTH_def MAX_SFV_ITEMS_def MAX_SFV_DEPTH_def MAX_SFV_PARAMS_def

type_synonym 'a reader = "(sfv_ctx, sfv_error, 'a) op"

section \<open>The parse context\<close>

definition sfv_fail :: "string \<Rightarrow> 'a reader" where
  "sfv_fail reason ctx =
     (NGX_DECLINED \<lparr>err_offset = length (c_start ctx) - length (c_rest ctx), err_reason = reason\<rparr>, ctx)"

definition eof :: "sfv_ctx \<Rightarrow> bool" where
  "eof ctx \<longleftrightarrow> c_rest ctx = []"

definition at_char :: "char \<Rightarrow> sfv_ctx \<Rightarrow> bool" where
  "at_char c ctx = (case c_rest ctx of [] \<Rightarrow> False | d # _ \<Rightarrow> d = c)"

definition advance :: "sfv_ctx \<Rightarrow> sfv_ctx" where
  "advance ctx = ctx\<lparr>c_rest := tl (c_rest ctx)\<rparr>"

definition set_pool :: "pool \<Rightarrow> sfv_ctx \<Rightarrow> sfv_ctx" where
  "set_pool p ctx = ctx\<lparr>c_pool := p\<rparr>"

definition ctx_palloc :: "unit reader" where
  "ctx_palloc = palloc_with c_pool set_pool"

definition skip_ows :: "sfv_ctx \<Rightarrow> sfv_ctx" where
  "skip_ows ctx = ctx\<lparr>c_rest := dropWhile (\<lambda>c. c = CHR '' '' \<or> c = CHR 0x09) (c_rest ctx)\<rparr>"

definition skip_sp :: "sfv_ctx \<Rightarrow> sfv_ctx" where
  "skip_sp ctx = ctx\<lparr>c_rest := dropWhile (\<lambda>c. c = CHR '' '') (c_rest ctx)\<rparr>"

section \<open>Character classes\<close>

definition is_lcalpha :: "char \<Rightarrow> bool" where
  "is_lcalpha c \<longleftrightarrow> CHR ''a'' \<le> c \<and> c \<le> CHR ''z''"

definition is_digit :: "char \<Rightarrow> bool" where
  "is_digit c \<longleftrightarrow> CHR ''0'' \<le> c \<and> c \<le> CHR ''9''"

definition is_alpha :: "char \<Rightarrow> bool" where
  "is_alpha c \<longleftrightarrow> (CHR ''a'' \<le> c \<and> c \<le> CHR ''z'') \<or> (CHR ''A'' \<le> c \<and> c \<le> CHR ''Z'')"

definition is_key_char :: "char \<Rightarrow> bool" where
  "is_key_char c \<longleftrightarrow> is_lcalpha c \<or> is_digit c
     \<or> c = CHR ''_'' \<or> c = CHR ''-'' \<or> c = CHR ''.'' \<or> c = CHR ''*''"

definition is_tchar :: "char \<Rightarrow> bool" where
  "is_tchar c \<longleftrightarrow> is_alpha c \<or> is_digit c
     \<or> c = CHR ''!'' \<or> c = CHR ''#'' \<or> c = CHR ''$'' \<or> c = CHR ''%'' \<or> c = CHR ''&''
     \<or> c = CHR 0x27 \<or> c = CHR ''*'' \<or> c = CHR ''+'' \<or> c = CHR ''-'' \<or> c = CHR ''.''
     \<or> c = CHR ''^'' \<or> c = CHR ''_'' \<or> c = CHR 0x60 \<or> c = CHR ''|'' \<or> c = CHR ''~''"

definition is_token_char :: "char \<Rightarrow> bool" where
  "is_token_char c \<longleftrightarrow> is_tchar c \<or> c = CHR '':'' \<or> c = CHR ''/''"

section \<open>Bare items\<close>

definition read_key :: "bytes reader" where
  "read_key ctx =
     (case c_rest ctx of
        [] \<Rightarrow> sfv_fail ''invalid key'' ctx
      | c # cs \<Rightarrow>
          if \<not> (is_lcalpha c \<or> c = CHR ''*'') then sfv_fail ''invalid key'' ctx
          else (NGX_OK (c # takeWhile is_key_char cs),
                ctx\<lparr>c_rest := dropWhile is_key_char cs\<rparr>))"

text \<open>
  The scanning loop of \<open>read_string\<close>: \<open>raw\<close> are the bytes passed so far, reversed.  \<open>Inl\<close> is a
  failure with the position it is reported at, \<open>Inr\<close> the raw content, the number of escapes and
  the bytes from the closing quote on.
\<close>

fun string_scan :: "bytes \<Rightarrow> bytes \<Rightarrow> nat \<Rightarrow> (string \<times> bytes) + (bytes \<times> nat \<times> bytes)" where
  "string_scan [] raw escapes = Inl (''unterminated string'', [])"
| "string_scan (c # cs) raw escapes =
     (if c = CHR 0x22 then Inr (rev raw, escapes, c # cs)
      else if c = CHR 0x5C then
        (case cs of
           [] \<Rightarrow> Inl (''invalid string escape'', cs)
         | d # ds \<Rightarrow>
             if d \<noteq> CHR 0x22 \<and> d \<noteq> CHR 0x5C then Inl (''invalid string escape'', cs)
             else string_scan ds (d # c # raw) (escapes + 1))
      else if c < CHR 0x20 \<or> CHR 0x7E < c then Inl (''invalid string character'', c # cs)
      else string_scan cs (c # raw) escapes)"

fun unescape :: "bytes \<Rightarrow> bytes" where
  "unescape [] = []"
| "unescape (c # cs) =
     (if c = CHR 0x5C then (case cs of [] \<Rightarrow> [] | d # ds \<Rightarrow> d # unescape ds)
      else c # unescape cs)"

definition read_string :: "bytes reader" where
  "read_string ctx =
     (if \<not> at_char CHR 0x22 ctx then sfv_fail ''invalid string'' ctx
      else let ctx = advance ctx in
        case string_scan (c_rest ctx) [] 0 of
          Inl (reason, rest) \<Rightarrow> sfv_fail reason (ctx\<lparr>c_rest := rest\<rparr>)
        | Inr (raw, escapes, rest) \<Rightarrow>
            if escapes = 0 then (NGX_OK raw, advance (ctx\<lparr>c_rest := rest\<rparr>))
            else bnd ctx_palloc (\<lambda>_ ctx. (NGX_OK (unescape raw), advance ctx))
                   (ctx\<lparr>c_rest := rest\<rparr>))"

fun pad_scan :: "bytes \<Rightarrow> nat \<Rightarrow> nat option" where
  "pad_scan [] pad = Some pad"
| "pad_scan (c # cs) pad =
     (if c = CHR ''='' then pad_scan cs (pad + 1)
      else if 0 < pad then None
      else pad_scan cs pad)"

definition read_byte_sequence :: "bytes reader" where
  "read_byte_sequence ctx =
     (if \<not> at_char CHR '':'' ctx then sfv_fail ''invalid byte sequence'' ctx
      else
        let ctx = advance ctx;
            encoded = takeWhile (\<lambda>c. c \<noteq> CHR '':'') (c_rest ctx);
            ctx = ctx\<lparr>c_rest := dropWhile (\<lambda>c. c \<noteq> CHR '':'') (c_rest ctx)\<rparr>
        in if eof ctx then sfv_fail ''unterminated byte sequence'' ctx
           else let ctx = advance ctx in
             (case pad_scan encoded 0 of
                None \<Rightarrow> sfv_fail ''invalid byte sequence padding'' ctx
              | Some pad \<Rightarrow>
                  if 2 < pad then sfv_fail ''invalid byte sequence padding'' ctx
                  else bnd ctx_palloc
                    (\<lambda>_ ctx. case ngx_decode_base64 encoded of
                       None \<Rightarrow> sfv_fail ''invalid byte sequence encoding'' ctx
                     | Some out \<Rightarrow> (NGX_OK out, ctx)) ctx))"

definition read_boolean :: "sfv_bare reader" where
  "read_boolean ctx =
     (if \<not> at_char CHR ''?'' ctx then sfv_fail ''invalid boolean'' ctx
      else let ctx = advance ctx in
        if \<not> at_char CHR ''0'' ctx \<and> \<not> at_char CHR ''1'' ctx then sfv_fail ''invalid boolean'' ctx
        else (NGX_OK (SFV_BOOLEAN (at_char CHR ''1'' ctx)), advance ctx))"

definition read_token :: "bytes reader" where
  "read_token ctx =
     (case c_rest ctx of
        [] \<Rightarrow> sfv_fail ''invalid token'' ctx
      | c # cs \<Rightarrow>
          if \<not> (is_alpha c \<or> c = CHR ''*'') then sfv_fail ''invalid token'' ctx
          else (NGX_OK (c # takeWhile is_token_char cs),
                ctx\<lparr>c_rest := dropWhile is_token_char cs\<rparr>))"

definition digit_val :: "char \<Rightarrow> int" where
  "digit_val c = int (code_of c) - int (code_of CHR ''0'')"

text \<open>
  The digit loops of \<open>read_number\<close>: at most \<open>mx\<close> digits, \<open>Inl\<close> the position of the digit too many.
\<close>

fun read_digits :: "nat \<Rightarrow> int \<Rightarrow> nat \<Rightarrow> bytes \<Rightarrow> bytes + (int \<times> nat \<times> bytes)" where
  "read_digits mx part n [] = Inr (part, n, [])"
| "read_digits mx part n (c # cs) =
     (if \<not> is_digit c then Inr (part, n, c # cs)
      else if n = mx then Inl (c # cs)
      else read_digits mx (part * 10 + digit_val c) (n + 1) cs)"

function scale_frac :: "int \<Rightarrow> nat \<Rightarrow> int" where
  "scale_frac frac n = (if n < 3 then scale_frac (frac * 10) (n + 1) else frac)"
  by pat_completeness auto
termination by (relation "measure (\<lambda>(frac, n). 3 - n)") auto

declare scale_frac.simps [simp del]

definition at_digit :: "sfv_ctx \<Rightarrow> bool" where
  "at_digit ctx = (case c_rest ctx of [] \<Rightarrow> False | c # _ \<Rightarrow> is_digit c)"

definition read_number :: "sfv_bare reader" where
  "read_number ctx =
     (let negative = at_char CHR ''-'' ctx;
          ctx = (if negative then advance ctx else ctx)
      in if \<not> at_digit ctx then sfv_fail ''invalid number'' ctx
         else case read_digits 15 0 0 (c_rest ctx) of
           Inl rest \<Rightarrow> sfv_fail ''number too long'' (ctx\<lparr>c_rest := rest\<rparr>)
         | Inr (int_part, int_digits, rest) \<Rightarrow>
             let ctx = ctx\<lparr>c_rest := rest\<rparr> in
             if \<not> at_char CHR ''.'' ctx then
               (NGX_OK (SFV_INTEGER (if negative then - int_part else int_part)), ctx)
             else if 12 < int_digits then sfv_fail ''decimal integer part too long'' ctx
             else let ctx = advance ctx in
               if \<not> at_digit ctx then sfv_fail ''invalid decimal'' ctx
               else case read_digits 3 0 0 (c_rest ctx) of
                 Inl rest \<Rightarrow> sfv_fail ''decimal fraction too long'' (ctx\<lparr>c_rest := rest\<rparr>)
               | Inr (frac_part, frac_digits, rest) \<Rightarrow>
                   (NGX_OK (SFV_DECIMAL
                      ((if negative then - 1 else 1)
                       * (int_part * 1000 + scale_frac frac_part frac_digits))),
                    ctx\<lparr>c_rest := rest\<rparr>))"

definition read_bare_item :: "sfv_bare reader" where
  "read_bare_item ctx =
     (case c_rest ctx of
        [] \<Rightarrow> sfv_fail ''expected a bare item'' ctx
      | c # _ \<Rightarrow>
          if c = CHR ''-'' \<or> is_digit c then read_number ctx
          else if c = CHR 0x22 then bnd read_string (\<lambda>s. ret (SFV_STRING s)) ctx
          else if c = CHR '':'' then bnd read_byte_sequence (\<lambda>s. ret (SFV_BYTE_SEQUENCE s)) ctx
          else if c = CHR ''?'' then read_boolean ctx
          else if is_alpha c \<or> c = CHR ''*'' then bnd read_token (\<lambda>s. ret (SFV_TOKEN s)) ctx
          else sfv_fail ''unrecognized bare item'' ctx)"

section \<open>Readers consume input\<close>

text \<open>What the termination of the loops below rests on.\<close>

definition consuming :: "'a reader \<Rightarrow> bool" where
  "consuming m \<longleftrightarrow> (\<forall>s x t. m s = (NGX_OK x, t) \<longrightarrow> length (c_rest t) < length (c_rest s))"

definition nongrowing :: "'a reader \<Rightarrow> bool" where
  "nongrowing m \<longleftrightarrow> (\<forall>s x t. m s = (NGX_OK x, t) \<longrightarrow> length (c_rest t) \<le> length (c_rest s))"

lemma consumingD: "consuming m \<Longrightarrow> m s = (NGX_OK x, t) \<Longrightarrow> length (c_rest t) < length (c_rest s)"
  by (auto simp: consuming_def)

lemma nongrowingD: "nongrowing m \<Longrightarrow> m s = (NGX_OK x, t) \<Longrightarrow> length (c_rest t) \<le> length (c_rest s)"
  by (auto simp: nongrowing_def)

lemma consuming_nongrowing: "consuming m \<Longrightarrow> nongrowing m"
  by (auto simp: consuming_def nongrowing_def intro: less_imp_le)

lemma nongrowing_ret: "nongrowing (ret x)"
  by (simp add: nongrowing_def)

lemma nongrowing_fail: "nongrowing (sfv_fail r)"
  by (simp add: nongrowing_def sfv_fail_def)

lemma nongrowing_palloc: "nongrowing ctx_palloc"
  by (auto simp: nongrowing_def ctx_palloc_def palloc_with_def set_pool_def split: prod.splits if_splits)

lemma nongrowing_bnd: "nongrowing m \<Longrightarrow> (\<And>x. nongrowing (f x)) \<Longrightarrow> nongrowing (bnd m f)"
  unfolding nongrowing_def bnd_eq_OK by (meson order_trans)

lemma consuming_bnd: "consuming m \<Longrightarrow> (\<And>x. nongrowing (f x)) \<Longrightarrow> consuming (bnd m f)"
  unfolding nongrowing_def consuming_def bnd_eq_OK by (meson le_less_trans)

lemma sfv_fail_neq_OK [simp]: "sfv_fail r s \<noteq> (NGX_OK x, t)"
  by (simp add: sfv_fail_def)

lemma length_skip [simp]:
  "length (c_rest (skip_sp ctx)) \<le> length (c_rest ctx)"
  "length (c_rest (skip_ows ctx)) \<le> length (c_rest ctx)"
  "length (c_rest (advance ctx)) \<le> length (c_rest ctx)"
  by (simp_all add: skip_sp_def skip_ows_def advance_def length_dropWhile_le)

lemma length_advance: "at_char c ctx \<Longrightarrow> length (c_rest (advance ctx)) < length (c_rest ctx)"
  by (auto simp: at_char_def advance_def split: list.splits)

lemma consuming_read_key [consumes]: "consuming read_key"
  by (auto simp: consuming_def read_key_def split: list.splits if_splits)

lemma string_scan_rest:
  "string_scan cs raw n = Inr (r, e, rest) \<Longrightarrow> length rest \<le> length cs \<and> rest \<noteq> []"
proof (induction cs raw n rule: string_scan.induct)
  case (1 raw n)
  then show ?case by simp
next
  case (2 c cs raw n)
  consider "c = CHR 0x22" | "c = CHR 0x5C" | "c \<noteq> CHR 0x22" "c \<noteq> CHR 0x5C" by blast
  then show ?case
  proof cases
    case 1
    with 2 show ?thesis by auto
  next
    case c: 2
    with 2 show ?thesis by (cases cs) (auto split: if_split_asm)
  next
    case 3
    with 2 show ?thesis by (auto split: if_split_asm)
  qed
qed

lemma consuming_read_string [consumes]: "consuming read_string"
  unfolding consuming_def
proof (intro allI impI)
  fix s x t
  assume r: "read_string s = (NGX_OK x, t)"
  then have a: "at_char CHR 0x22 s" by (auto simp: read_string_def split: if_splits)
  with r obtain raw e rest where sc: "string_scan (c_rest (advance s)) [] 0 = Inr (raw, e, rest)"
    and t: "c_rest t = tl rest"
    by (auto simp: read_string_def Let_def bnd_eq_OK ctx_palloc_def palloc_with_def set_pool_def
        advance_def split: sum.splits if_splits prod.splits)
  from string_scan_rest [OF sc] length_advance [OF a] t
  show "length (c_rest t) < length (c_rest s)" by (cases rest) auto
qed

lemma consuming_read_byte_sequence [consumes]: "consuming read_byte_sequence"
  unfolding consuming_def
proof (intro allI impI)
  fix s x t
  assume r: "read_byte_sequence s = (NGX_OK x, t)"
  then have a: "at_char CHR '':'' s" by (auto simp: read_byte_sequence_def split: if_splits)
  with r have "c_rest t = tl (dropWhile (\<lambda>c. c \<noteq> CHR '':'') (c_rest (advance s)))"
    by (auto simp: read_byte_sequence_def Let_def bnd_eq_OK ctx_palloc_def palloc_with_def set_pool_def
        advance_def split: option.splits if_splits prod.splits)
  moreover have "length (tl (dropWhile (\<lambda>c. c \<noteq> CHR '':'') (c_rest (advance s)))) \<le> length (c_rest (advance s))"
    using length_dropWhile_le [of "\<lambda>c. c \<noteq> CHR '':''" "c_rest (advance s)"] by simp
  ultimately show "length (c_rest t) < length (c_rest s)" using length_advance [OF a] by simp
qed

lemma consuming_read_boolean [consumes]: "consuming read_boolean"
  by (auto simp: consuming_def read_boolean_def Let_def advance_def at_char_def
      split: list.splits if_splits)

lemma consuming_read_token [consumes]: "consuming read_token"
  by (auto simp: consuming_def read_token_def split: list.splits if_splits)

lemma read_digits_rest: "read_digits mx p n cs = Inr (q, k, rest) \<Longrightarrow> length rest \<le> length cs"
  by (induction mx p n cs rule: read_digits.induct) (auto split: if_splits)

lemma read_digits_progress:
  "read_digits mx p n (c # cs) = Inr (q, k, rest) \<Longrightarrow> is_digit c \<Longrightarrow> length rest \<le> length cs"
  by (auto split: if_splits dest: read_digits_rest)

lemma consuming_read_number [consumes]: "consuming read_number"
  unfolding consuming_def
proof (intro allI impI)
  fix s x t
  assume r: "read_number s = (NGX_OK x, t)"
  let ?s = "if at_char CHR ''-'' s then advance s else s"
  from r obtain c cs where cs: "c_rest ?s = c # cs" "is_digit c"
    by (auto simp: read_number_def Let_def at_digit_def split: list.splits if_splits)
  then obtain p k rest where d: "read_digits 15 0 0 (c_rest ?s) = Inr (p, k, rest)"
    using r by (cases "read_digits 15 0 0 (c_rest ?s)")
      (auto simp: read_number_def Let_def at_digit_def split: if_splits)
  have le: "length rest < length (c_rest ?s)" using d cs read_digits_progress [of 15 0 0 c cs] by auto
  have tl_le: "length (tl rest) \<le> length rest" by simp
  have "length (c_rest t) \<le> length rest"
  proof (cases "at_char CHR ''.'' (?s\<lparr>c_rest := rest\<rparr>)")
    case False
    with r d cs show ?thesis by (auto simp: read_number_def Let_def at_digit_def split: if_splits)
  next
    case True
    with r d cs obtain q m rest2 where "read_digits 3 0 0 (tl rest) = Inr (q, m, rest2)" "c_rest t = rest2"
      by (cases "read_digits 3 0 0 (tl rest)")
        (auto simp: read_number_def Let_def at_digit_def advance_def split: if_splits list.splits)
    with read_digits_rest [of 3 0 0 "tl rest"] tl_le show ?thesis by fastforce
  qed
  moreover have "length (c_rest ?s) \<le> length (c_rest s)" by simp
  ultimately show "length (c_rest t) < length (c_rest s)" using le by linarith
qed

lemma consuming_read_bare_item [consumes]: "consuming read_bare_item"
  unfolding consuming_def
proof (intro allI impI)
  fix s x t
  assume "read_bare_item s = (NGX_OK x, t)"
  then show "length (c_rest t) < length (c_rest s)"
    by (auto simp: read_bare_item_def bnd_eq_OK split: list.splits if_splits
        dest!: consumes [THEN consumingD])
qed

section \<open>Parameters and items\<close>

text \<open>
  \<open>existing\<close> is looked up before the value is read; a new key is pushed (one allocation) and its
  value written once read.  \<open>param_set\<close> is that write: in place for a known key, at the end for the
  one just pushed.
\<close>

fun param_set :: "sfv_param list \<Rightarrow> bytes \<Rightarrow> sfv_bare \<Rightarrow> sfv_param list" where
  "param_set [] k v = [\<lparr>p_key = k, p_value = v\<rparr>]"
| "param_set (p # ps) k v =
     (if str_eq (p_key p) k then p\<lparr>p_value := v\<rparr> # ps else p # param_set ps k v)"

definition param_slot :: "sfv_param list \<Rightarrow> bytes \<Rightarrow> unit reader" where
  "param_slot params key ctx =
     (if (\<exists>p\<in>set params. str_eq (p_key p) key) then ret () ctx
      else if MAX_SFV_PARAMS \<le> length params then sfv_fail ''too many parameters'' ctx
      else ctx_palloc ctx)"

lemma nongrowing_param_slot: "nongrowing (param_slot ps k)"
  using nongrowing_palloc by (auto simp: nongrowing_def param_slot_def split: if_splits)

function read_params_loop :: "sfv_param list \<Rightarrow> sfv_param list reader" where
  "read_params_loop params ctx =
     (if \<not> at_char CHR '';'' ctx then ret params ctx
      else bnd read_key (\<lambda>key ctx.
        bnd (param_slot params key) (\<lambda>_ ctx.
          if at_char CHR ''='' ctx then
            bnd read_bare_item (\<lambda>v ctx. read_params_loop (param_set params key v) ctx) (advance ctx)
          else read_params_loop (param_set params key (SFV_BOOLEAN True)) ctx) ctx)
        (skip_sp (advance ctx)))"
  by pat_completeness auto
termination
proof (relation "measure (\<lambda>(params, ctx). length (c_rest ctx))", goal_cases)
  case 1
  show ?case by simp
next
  case (2 params ctx key ctx1 _ ctx2 v ctx3)
  with consumingD [OF consuming_read_bare_item 2(5)] nongrowingD [OF nongrowing_param_slot 2(3)]
    consumingD [OF consuming_read_key 2(2)]
    length_skip(1) [of "advance ctx"] length_skip(3) [of ctx] length_skip(3) [of ctx2]
  show ?case by (simp del: length_skip)
next
  case (3 params ctx key ctx1 _ ctx2)
  with nongrowingD [OF nongrowing_param_slot 3(3)] consumingD [OF consuming_read_key 3(2)]
    length_skip(1) [of "advance ctx"] length_skip(3) [of ctx]
  show ?case by (simp del: length_skip)
qed

declare read_params_loop.simps [simp del]

definition read_parameters :: "sfv_param list reader" where
  "read_parameters = bnd ctx_palloc (\<lambda>_. read_params_loop [])"

definition read_item :: "sfv_item reader" where
  "read_item = bnd read_bare_item (\<lambda>b. bnd read_parameters (\<lambda>ps. ret \<lparr>it_bare = b, it_params = ps\<rparr>))"

lemma nongrowing_read_params_loop: "nongrowing (read_params_loop ps)"
  unfolding nongrowing_def
proof (intro allI impI)
  fix s x t
  show "read_params_loop ps s = (NGX_OK x, t) \<Longrightarrow> length (c_rest t) \<le> length (c_rest s)"
  proof (induction ps s rule: read_params_loop.induct)
    case (1 params ctx)
    show ?case
    proof (cases "at_char CHR '';'' ctx")
      case False
      with 1(3) show ?thesis by (simp add: read_params_loop.simps)
    next
      case True
      with 1(3) obtain key c1 c2 where k: "read_key (skip_sp (advance ctx)) = (NGX_OK key, c1)"
        and p: "param_slot params key c1 = (NGX_OK (), c2)"
        and e: "(if at_char CHR ''='' c2 then
            bnd read_bare_item (\<lambda>v ctx. read_params_loop (param_set params key v) ctx) (advance c2)
          else read_params_loop (param_set params key (SFV_BOOLEAN True)) c2) = (NGX_OK x, t)"
        by (subst (asm) read_params_loop.simps) (auto simp: bnd_eq_OK)
      have c2: "length (c_rest c2) \<le> length (c_rest ctx)"
        using nongrowingD [OF nongrowing_param_slot p] consumingD [OF consuming_read_key k]
          length_skip(1) [of "advance ctx"] length_skip(3) [of ctx] by linarith
      show ?thesis
      proof (cases "at_char CHR ''='' c2")
        case eq: True
        with e obtain v c3 where v: "read_bare_item (advance c2) = (NGX_OK v, c3)"
          and l: "read_params_loop (param_set params key v) c3 = (NGX_OK x, t)"
          by (auto simp: bnd_eq_OK)
        from 1(1) [OF _ k p eq v l] True c2 consumingD [OF consuming_read_bare_item v]
          length_skip(3) [of c2] show ?thesis by (simp del: length_skip)
      next
        case False
        with 1(2) [OF _ k p False] True c2 e show ?thesis by simp
      qed
    qed
  qed
qed

lemma consuming_read_item [consumes]: "consuming read_item"
  unfolding read_item_def read_parameters_def
  by (intro consuming_bnd consuming_read_bare_item nongrowing_bnd nongrowing_palloc
      nongrowing_read_params_loop nongrowing_ret)

section \<open>Inner lists and members\<close>

function read_items_loop :: "sfv_item list \<Rightarrow> sfv_item list reader" where
  "read_items_loop items ctx =
     (if eof ctx \<or> at_char CHR '')'' ctx then ret items ctx
      else if MAX_SFV_ITEMS \<le> length items then sfv_fail ''too many inner list items'' ctx
      else bnd ctx_palloc (\<lambda>_ ctx. bnd read_item (\<lambda>item ctx.
        if at_char CHR '')'' ctx then ret (items @ [item]) ctx
        else if \<not> at_char CHR '' '' ctx then sfv_fail ''expected a space in inner list'' ctx
        else read_items_loop (items @ [item]) (skip_sp ctx)) ctx) ctx)"
  by pat_completeness auto
termination
proof (relation "measure (\<lambda>(items, ctx). length (c_rest ctx))", goal_cases)
  case 1
  show ?case by simp
next
  case (2 items ctx _ ctx1 item ctx2)
  with consumingD [OF consuming_read_item 2(4)] nongrowingD [OF nongrowing_palloc 2(3)]
    length_skip(1) [of ctx2]
  show ?case by (simp del: length_skip)
qed

declare read_items_loop.simps [simp del]

definition read_inner_list :: "sfv_inner_list reader" where
  "read_inner_list ctx =
     bnd ctx_palloc (\<lambda>_ ctx.
       bnd (read_items_loop []) (\<lambda>items ctx.
         if eof ctx then sfv_fail ''unterminated inner list'' ctx
         else bnd read_parameters (\<lambda>ps. ret \<lparr>il_items = items, il_params = ps\<rparr>) (advance ctx))
       (skip_sp ctx)) (advance ctx)"

definition depth_down :: "'a reader \<Rightarrow> 'a reader" where
  "depth_down m ctx = (case m ctx of (r, ctx') \<Rightarrow> (r, ctx'\<lparr>c_depth := c_depth ctx' - 1\<rparr>))"

definition read_member :: "sfv_value reader" where
  "read_member ctx =
     (if MAX_SFV_DEPTH \<le> c_depth ctx then sfv_fail ''nested too deeply'' ctx
      else depth_down
        (\<lambda>ctx. if at_char CHR ''('' ctx then bnd read_inner_list (\<lambda>l. ret (MEMBER_INNER_LIST l)) ctx
               else bnd read_item (\<lambda>i. ret (MEMBER_ITEM i)) ctx)
        (ctx\<lparr>c_depth := c_depth ctx + 1\<rparr>))"

lemma nongrowing_read_parameters: "nongrowing read_parameters"
  unfolding read_parameters_def
  by (intro nongrowing_bnd nongrowing_palloc nongrowing_read_params_loop)

lemma nongrowing_read_items_loop: "nongrowing (read_items_loop items)"
  unfolding nongrowing_def
proof (intro allI impI)
  fix s x t
  show "read_items_loop items s = (NGX_OK x, t) \<Longrightarrow> length (c_rest t) \<le> length (c_rest s)"
  proof (induction items s rule: read_items_loop.induct)
    case (1 items ctx)
    show ?case
    proof (cases "eof ctx \<or> at_char CHR '')'' ctx")
      case True
      with 1(2) show ?thesis by (simp add: read_items_loop.simps)
    next
      case False
      with 1(2) have few: "\<not> MAX_SFV_ITEMS \<le> length items"
        by (subst (asm) read_items_loop.simps) auto
      with 1(2) False obtain c1 i c2 where p: "ctx_palloc ctx = (NGX_OK (), c1)"
        and i: "read_item c1 = (NGX_OK i, c2)"
        and e: "(if at_char CHR '')'' c2 then ret (items @ [i]) c2
          else if \<not> at_char CHR '' '' c2 then sfv_fail ''expected a space in inner list'' c2
          else read_items_loop (items @ [i]) (skip_sp c2)) = (NGX_OK x, t)"
        by (subst (asm) read_items_loop.simps) (auto simp: bnd_eq_OK)
      have c2: "length (c_rest c2) \<le> length (c_rest ctx)"
        using nongrowingD [OF nongrowing_palloc p] consumingD [OF consuming_read_item i] by linarith
      show ?thesis
      proof (cases "at_char CHR '')'' c2 \<or> \<not> at_char CHR '' '' c2")
        case True
        with e c2 show ?thesis by (auto split: if_splits)
      next
        case stop: False
        with e have "read_items_loop (items @ [i]) (skip_sp c2) = (NGX_OK x, t)" by auto
        with 1(1) [OF _ few p i] False stop have "length (c_rest t) \<le> length (c_rest (skip_sp c2))"
          by auto
        with c2 length_skip(1) [of c2] show ?thesis by linarith
      qed
    qed
  qed
qed

lemma nongrowing_advance: "nongrowing m \<Longrightarrow> nongrowing (\<lambda>ctx. m (advance ctx))"
  unfolding nongrowing_def by (meson length_skip(3) order_trans)

lemma nongrowing_skip_sp: "nongrowing m \<Longrightarrow> nongrowing (\<lambda>ctx. m (skip_sp ctx))"
  unfolding nongrowing_def by (meson length_skip(1) order_trans)

lemma nongrowing_if: "nongrowing m \<Longrightarrow> nongrowing n \<Longrightarrow> nongrowing (\<lambda>s. if P s then m s else n s)"
  by (auto simp: nongrowing_def)

lemma nongrowing_read_inner_list: "nongrowing read_inner_list"
  unfolding read_inner_list_def
  by (intro nongrowing_advance nongrowing_bnd nongrowing_palloc nongrowing_skip_sp nongrowing_if
      nongrowing_fail nongrowing_ret nongrowing_read_items_loop nongrowing_read_parameters)

lemma nongrowing_read_member: "nongrowing read_member"
proof -
  have inner: "nongrowing (\<lambda>ctx. if at_char CHR ''('' ctx
      then bnd read_inner_list (\<lambda>l. ret (MEMBER_INNER_LIST l)) ctx
      else bnd read_item (\<lambda>i. ret (MEMBER_ITEM i)) ctx)" (is "nongrowing ?m")
    by (intro nongrowing_if nongrowing_bnd nongrowing_read_inner_list nongrowing_ret
        consuming_nongrowing [OF consuming_read_item])
  show ?thesis
    unfolding nongrowing_def
  proof (intro allI impI)
    fix s x t
    assume "read_member s = (NGX_OK x, t)"
    then obtain t' where "?m (s\<lparr>c_depth := c_depth s + 1\<rparr>) = (NGX_OK x, t')" "c_rest t = c_rest t'"
      by (auto simp: read_member_def depth_down_def split: if_splits prod.splits)
    then show "length (c_rest t) \<le> length (c_rest s)" using nongrowingD [OF inner] by fastforce
  qed
qed

section \<open>Dictionaries and lists\<close>

fun entry_set :: "sfv_dict_entry list \<Rightarrow> bytes \<Rightarrow> sfv_value \<Rightarrow> sfv_dict_entry list" where
  "entry_set [] k v = [\<lparr>e_key = k, e_value = v\<rparr>]"
| "entry_set (e # es) k v =
     (if str_eq (e_key e) k then e\<lparr>e_value := v\<rparr> # es else e # entry_set es k v)"

definition entry_exists :: "sfv_dict_entry list \<Rightarrow> bytes \<Rightarrow> bool" where
  "entry_exists entries key \<longleftrightarrow> (\<exists>e\<in>set entries. str_eq (e_key e) key)"

definition entry_slot :: "sfv_dict_entry list \<Rightarrow> bytes \<Rightarrow> unit reader" where
  "entry_slot entries key ctx =
     (if entry_exists entries key then ret () ctx
      else if MAX_SFV_ITEMS \<le> length entries then sfv_fail ''too many dictionary entries'' ctx
      else ctx_palloc ctx)"

definition read_entry_value :: "sfv_value reader" where
  "read_entry_value ctx =
     (if at_char CHR ''='' ctx then read_member (advance ctx)
      else bnd read_parameters
        (\<lambda>ps. ret (MEMBER_ITEM \<lparr>it_bare = SFV_BOOLEAN True, it_params = ps\<rparr>)) ctx)"

text \<open>The end of one round of the list loops: \<open>Some\<close> when another member follows.\<close>

definition read_comma :: "bool reader" where
  "read_comma ctx =
     (let ctx = skip_ows ctx in
      if eof ctx then ret False ctx
      else if \<not> at_char CHR '','' ctx then sfv_fail ''expected a comma'' ctx
      else let ctx = skip_ows (advance ctx) in
        if eof ctx then sfv_fail ''trailing comma'' ctx else ret True ctx)"

lemma nongrowing_entry_slot: "nongrowing (entry_slot es k)"
  using nongrowing_palloc by (auto simp: nongrowing_def entry_slot_def split: if_splits)

lemma nongrowing_read_entry_value: "nongrowing read_entry_value"
  unfolding read_entry_value_def
  by (intro nongrowing_if nongrowing_advance nongrowing_bnd nongrowing_read_member
      nongrowing_read_parameters nongrowing_ret)

lemma read_comma_more:
  assumes "read_comma s = (NGX_OK True, t)"
  shows "length (c_rest t) < length (c_rest s)"
proof -
  from assms have "at_char CHR '','' (skip_ows s)" "t = skip_ows (advance (skip_ows s))"
    by (auto simp: read_comma_def Let_def split: if_splits)
  with length_advance [of "CHR '',''" "skip_ows s"] length_skip(2) [of s]
    length_skip(2) [of "advance (skip_ows s)"] show ?thesis by (simp del: length_skip)
qed

lemma read_comma_end: "read_comma s = (NGX_OK False, t) \<Longrightarrow> c_rest t = []"
  by (auto simp: read_comma_def Let_def eof_def split: if_splits)

function read_dict_loop :: "sfv_dict_entry list \<Rightarrow> bool \<Rightarrow> sfv_dictionary reader" where
  "read_dict_loop entries dup ctx =
     (if eof ctx then ret \<lparr>d_entries = entries, d_duplicate_keys = dup\<rparr> ctx
      else bnd read_key (\<lambda>key ctx.
        bnd (entry_slot entries key) (\<lambda>_ ctx.
          bnd read_entry_value (\<lambda>v ctx.
            bnd read_comma (\<lambda>more ctx.
              if more then read_dict_loop (entry_set entries key v) (dup \<or> entry_exists entries key) ctx
              else ret \<lparr>d_entries = entry_set entries key v,
                        d_duplicate_keys = dup \<or> entry_exists entries key\<rparr> ctx) ctx) ctx) ctx) ctx)"
  by pat_completeness auto
termination
proof (relation "measure (\<lambda>(entries, dup, ctx). length (c_rest ctx))", goal_cases)
  case 1
  show ?case by simp
next
  case (2 entries dup ctx key c1 _ c2 v c3 more c4)
  with consumingD [OF consuming_read_key 2(2)] nongrowingD [OF nongrowing_entry_slot 2(3)]
    nongrowingD [OF nongrowing_read_entry_value 2(4)] read_comma_more [of c3 c4]
  show ?case by simp
qed

declare read_dict_loop.simps [simp del]

definition read_dictionary :: "sfv_dictionary reader" where
  "read_dictionary = bnd ctx_palloc (\<lambda>_. read_dict_loop [] False)"

function read_list_loop :: "sfv_value list \<Rightarrow> sfv_list reader" where
  "read_list_loop members ctx =
     (if eof ctx then ret \<lparr>l_members = members\<rparr> ctx
      else if MAX_SFV_ITEMS \<le> length members then sfv_fail ''too many list members'' ctx
      else bnd ctx_palloc (\<lambda>_ ctx.
        bnd read_member (\<lambda>m ctx.
          bnd read_comma (\<lambda>more ctx.
            if more then read_list_loop (members @ [m]) ctx
            else ret \<lparr>l_members = members @ [m]\<rparr> ctx) ctx) ctx) ctx)"
  by pat_completeness auto
termination
proof (relation "measure (\<lambda>(members, ctx). length (c_rest ctx))", goal_cases)
  case 1
  show ?case by simp
next
  case (2 members ctx _ c1 m c2 more c3)
  with nongrowingD [OF nongrowing_palloc 2(3)] nongrowingD [OF nongrowing_read_member 2(4)]
    read_comma_more [of c2 c3]
  show ?case by simp
qed

declare read_list_loop.simps [simp del]

definition read_list :: "sfv_list reader" where
  "read_list = bnd ctx_palloc (\<lambda>_. read_list_loop [])"

section \<open>Entry points\<close>

text \<open>
  Each entry point works on its own context; the caller's pool is threaded through it.  The result
  object itself is one allocation, made after the length check.
\<close>

definition parse_begin :: "bytes \<Rightarrow> pool \<Rightarrow> sfv_error + sfv_ctx" where
  "parse_begin input pool =
     (if MAX_SFV_LENGTH < length input then Inl \<lparr>err_offset = 0, err_reason = ''input too long''\<rparr>
      else Inr (skip_sp \<lparr>c_start = input, c_rest = input, c_depth = 0, c_pool = pool\<rparr>))"

definition parse_end :: "unit reader" where
  "parse_end ctx =
     (let ctx = skip_sp ctx in
      if \<not> eof ctx then sfv_fail ''trailing data'' ctx else ret () ctx)"

definition parse_with :: "'a reader \<Rightarrow> bytes \<Rightarrow> (pool, sfv_error, 'a) op" where
  "parse_with m input pool =
     (case parse_begin input pool of
        Inl err \<Rightarrow> (NGX_DECLINED err, pool)
      | Inr ctx \<Rightarrow>
          (case bnd ctx_palloc (\<lambda>_. bnd m (\<lambda>x. bnd parse_end (\<lambda>_. ret x))) ctx of
             (r, ctx') \<Rightarrow> (r, c_pool ctx')))"

definition parse_dictionary :: "bytes \<Rightarrow> (pool, sfv_error, sfv_dictionary) op" where
  "parse_dictionary = parse_with read_dictionary"

definition parse_list :: "bytes \<Rightarrow> (pool, sfv_error, sfv_list) op" where
  "parse_list = parse_with read_list"

definition parse_item :: "bytes \<Rightarrow> (pool, sfv_error, sfv_item) op" where
  "parse_item = parse_with read_item"

section \<open>Lookups\<close>

definition dict_get :: "sfv_dictionary \<Rightarrow> bytes \<Rightarrow> sfv_value option" where
  "dict_get dict key = map_option e_value (find (\<lambda>e. str_eq (e_key e) key) (d_entries dict))"

definition param_get :: "sfv_param list \<Rightarrow> string \<Rightarrow> sfv_bare option" where
  "param_get params key = map_option p_value (find (\<lambda>p. str_eq (p_key p) key) params)"

end
