(* ===== verification/Sfv_Write.thy ===== *)
theory Sfv_Write
  imports Sfv
begin

text \<open>
  The serializing half of \<open>src/ngx_auth_httpsig_sfv.c\<close>: the write buffer, the writers, and the three
  \<open>serialize_*\<close> entry points, with the pure serialization \<open>ser_*\<close> they are proved to produce.

  The write buffer is the bytes pushed so far and the pool its array grows in; each
  \<open>ngx_array_push\<close> may fail.  \<open>writes m xs\<close> is the contract of a writer: it appends exactly \<open>xs\<close>,
  or fails with \<open>NGX_ERROR\<close> because an allocation did; it never declines.
\<close>

section \<open>The write buffer\<close>

record sfv_wbuf =
  w_buf :: bytes
  w_pool :: pool

type_synonym writer = "(sfv_wbuf, unit, unit) op"

definition set_wpool :: "pool \<Rightarrow> sfv_wbuf \<Rightarrow> sfv_wbuf" where
  "set_wpool p w = w\<lparr>w_pool := p\<rparr>"

definition wbuf_palloc :: writer where
  "wbuf_palloc = palloc_with w_pool set_wpool"

definition wbuf_init :: "pool \<Rightarrow> (unit, sfv_wbuf) rc \<times> pool" where
  "wbuf_init pool =
     (case palloc pool of
        (True, p') \<Rightarrow> (NGX_OK \<lparr>w_buf = [], w_pool = p'\<rparr>, p')
      | (False, p') \<Rightarrow> (NGX_ERROR, p'))"

definition wbuf_put :: "bytes \<Rightarrow> writer" where
  "wbuf_put d = bnd wbuf_palloc (\<lambda>_ w. (NGX_OK (), w\<lparr>w_buf := w_buf w @ d\<rparr>))"

definition wbuf_putc :: "char \<Rightarrow> writer" where
  "wbuf_putc c = bnd wbuf_palloc (\<lambda>_ w. (NGX_OK (), w\<lparr>w_buf := w_buf w @ [c]\<rparr>))"

section \<open>Writers\<close>

text \<open>The \<open>do ... while\<close> that fills \<open>digits[20]\<close> from its end.\<close>

function digits_loop :: "nat \<Rightarrow> bytes \<Rightarrow> bytes" where
  "digits_loop abs_v p =
     (let p = char_of (48 + abs_v mod 10) # p in
      if abs_v div 10 = 0 then p else digits_loop (abs_v div 10) p)"
  by pat_completeness auto
termination by (relation "measure fst") auto

declare digits_loop.simps [simp del]

definition write_sign :: "int \<Rightarrow> writer" where
  "write_sign v = (if v < 0 then wbuf_putc CHR ''-'' else ret ())"

definition write_integer :: "int \<Rightarrow> writer" where
  "write_integer v = bnd (write_sign v) (\<lambda>_. wbuf_put (digits_loop (nat \<bar>v\<bar>) []))"

fun frac_last :: "nat list \<Rightarrow> nat \<Rightarrow> nat" where
  "frac_last digits 0 = 0"
| "frac_last digits (Suc n) = (if digits ! Suc n = 0 then frac_last digits n else Suc n)"

fun write_frac_digits :: "nat list \<Rightarrow> writer" where
  "write_frac_digits [] = ret ()"
| "write_frac_digits (d # ds) = bnd (wbuf_putc (char_of (48 + d))) (\<lambda>_. write_frac_digits ds)"

definition write_decimal :: "int \<Rightarrow> writer" where
  "write_decimal v =
     bnd (write_sign v) (\<lambda>_.
       let abs_v = nat \<bar>v\<bar>; int_part = abs_v div 1000; frac = abs_v mod 1000 in
       bnd (write_integer (int int_part)) (\<lambda>_.
         bnd (wbuf_putc CHR ''.'') (\<lambda>_.
           if frac = 0 then wbuf_putc CHR ''0''
           else let digits = [frac div 100, (frac div 10) mod 10, frac mod 10] in
             write_frac_digits (take (frac_last digits 2 + 1) digits))))"

fun write_string_body :: "bytes \<Rightarrow> writer" where
  "write_string_body [] = ret ()"
| "write_string_body (c # cs) =
     bnd (if c = CHR 0x22 \<or> c = CHR 0x5C then wbuf_putc CHR 0x5C else ret ()) (\<lambda>_.
       bnd (wbuf_putc c) (\<lambda>_. write_string_body cs))"

definition write_string :: "bytes \<Rightarrow> writer" where
  "write_string value =
     bnd (wbuf_putc CHR 0x22) (\<lambda>_.
       bnd (write_string_body value) (\<lambda>_. wbuf_putc CHR 0x22))"

definition write_byte_sequence :: "bytes \<Rightarrow> writer" where
  "write_byte_sequence value =
     bnd wbuf_palloc (\<lambda>_.
       bnd (wbuf_putc CHR '':'') (\<lambda>_.
         bnd (wbuf_put (ngx_encode_base64 value)) (\<lambda>_. wbuf_putc CHR '':'')))"

definition write_boolean :: "bool \<Rightarrow> writer" where
  "write_boolean v =
     bnd (wbuf_putc CHR ''?'') (\<lambda>_. wbuf_putc (if v then CHR ''1'' else CHR ''0''))"

fun write_bare_item :: "sfv_bare \<Rightarrow> writer" where
  "write_bare_item (SFV_INTEGER v) = write_integer v"
| "write_bare_item (SFV_DECIMAL v) = write_decimal v"
| "write_bare_item (SFV_STRING s) = write_string s"
| "write_bare_item (SFV_TOKEN s) = wbuf_put s"
| "write_bare_item (SFV_BYTE_SEQUENCE s) = write_byte_sequence s"
| "write_bare_item (SFV_BOOLEAN b) = write_boolean b"

fun write_params :: "sfv_param list \<Rightarrow> writer" where
  "write_params [] = ret ()"
| "write_params (p # ps) =
     bnd (wbuf_putc CHR '';'') (\<lambda>_.
       bnd (wbuf_put (p_key p)) (\<lambda>_.
         if p_value p = SFV_BOOLEAN True then write_params ps
         else bnd (wbuf_putc CHR ''='') (\<lambda>_.
           bnd (write_bare_item (p_value p)) (\<lambda>_. write_params ps))))"

definition write_item :: "sfv_item \<Rightarrow> writer" where
  "write_item item = bnd (write_bare_item (it_bare item)) (\<lambda>_. write_params (it_params item))"

fun write_items :: "nat \<Rightarrow> sfv_item list \<Rightarrow> writer" where
  "write_items i [] = ret ()"
| "write_items i (item # items) =
     bnd (if 0 < i then wbuf_putc CHR '' '' else ret ()) (\<lambda>_.
       bnd (write_item item) (\<lambda>_. write_items (i + 1) items))"

definition write_inner_list :: "sfv_inner_list \<Rightarrow> writer" where
  "write_inner_list l =
     bnd (wbuf_putc CHR ''('') (\<lambda>_.
       bnd (write_items 0 (il_items l)) (\<lambda>_.
         bnd (wbuf_putc CHR '')'') (\<lambda>_. write_params (il_params l))))"

section \<open>Entry points\<close>

definition serialize_with :: "writer \<Rightarrow> (pool, unit, bytes) op" where
  "serialize_with m pool =
     (case wbuf_init pool of
        (NGX_OK w, _) \<Rightarrow>
          (case m w of
             (NGX_OK _, w') \<Rightarrow> (NGX_OK (w_buf w'), w_pool w')
           | (_, w') \<Rightarrow> (NGX_ERROR, w_pool w'))
      | (_, p') \<Rightarrow> (NGX_ERROR, p'))"

definition serialize_item :: "sfv_item \<Rightarrow> (pool, unit, bytes) op" where
  "serialize_item item = serialize_with (write_item item)"

definition serialize_inner_list :: "sfv_inner_list \<Rightarrow> (pool, unit, bytes) op" where
  "serialize_inner_list l = serialize_with (write_inner_list l)"

definition serialize_params :: "sfv_param list \<Rightarrow> (pool, unit, bytes) op" where
  "serialize_params ps = serialize_with (write_params ps)"

section \<open>The serialization as a function\<close>

definition ser_integer :: "int \<Rightarrow> bytes" where
  "ser_integer v = (if v < 0 then ''-'' else []) @ digits_loop (nat \<bar>v\<bar>) []"

definition ser_frac :: "nat \<Rightarrow> bytes" where
  "ser_frac f =
     (if f = 0 then ''0''
      else let digits = [f div 100, (f div 10) mod 10, f mod 10] in
        map (\<lambda>d. char_of (48 + d)) (take (frac_last digits 2 + 1) digits))"

definition ser_decimal :: "int \<Rightarrow> bytes" where
  "ser_decimal v =
     (if v < 0 then ''-'' else []) @ digits_loop (nat \<bar>v\<bar> div 1000) [] @ ''.''
       @ ser_frac (nat \<bar>v\<bar> mod 1000)"

definition escape :: "bytes \<Rightarrow> bytes" where
  "escape s = concat (map (\<lambda>c. if c = CHR 0x22 \<or> c = CHR 0x5C then [CHR 0x5C, c] else [c]) s)"

fun ser_bare :: "sfv_bare \<Rightarrow> bytes" where
  "ser_bare (SFV_INTEGER v) = ser_integer v"
| "ser_bare (SFV_DECIMAL v) = ser_decimal v"
| "ser_bare (SFV_STRING s) = CHR 0x22 # escape s @ [CHR 0x22]"
| "ser_bare (SFV_TOKEN s) = s"
| "ser_bare (SFV_BYTE_SEQUENCE s) = CHR '':'' # ngx_encode_base64 s @ '':''"
| "ser_bare (SFV_BOOLEAN b) = (if b then ''?1'' else ''?0'')"

definition ser_param :: "sfv_param \<Rightarrow> bytes" where
  "ser_param p = CHR '';'' # p_key p @
     (if p_value p = SFV_BOOLEAN True then [] else CHR ''='' # ser_bare (p_value p))"

definition ser_params :: "sfv_param list \<Rightarrow> bytes" where
  "ser_params ps = concat (map ser_param ps)"

definition ser_item :: "sfv_item \<Rightarrow> bytes" where
  "ser_item i = ser_bare (it_bare i) @ ser_params (it_params i)"

fun ser_items :: "sfv_item list \<Rightarrow> bytes" where
  "ser_items [] = []"
| "ser_items (i # xs) = ser_item i @ concat (map (\<lambda>j. CHR '' '' # ser_item j) xs)"

definition ser_inner_list :: "sfv_inner_list \<Rightarrow> bytes" where
  "ser_inner_list l = CHR ''('' # ser_items (il_items l) @ CHR '')'' # ser_params (il_params l)"

section \<open>The writers produce the serialization\<close>

definition writes :: "writer \<Rightarrow> bytes \<Rightarrow> bool" where
  "writes m xs \<longleftrightarrow>
     (\<forall>w. (w_pool w = [] \<longrightarrow> m w = (NGX_OK (), w\<lparr>w_buf := w_buf w @ xs\<rparr>)) \<and>
          (case m w of
             (NGX_OK _, w') \<Rightarrow> w_buf w' = w_buf w @ xs
           | (NGX_DECLINED _, _) \<Rightarrow> False
           | (NGX_ERROR, _) \<Rightarrow> True))"

lemma writesD: "writes m xs \<Longrightarrow> w_pool w = [] \<Longrightarrow> m w = (NGX_OK (), w\<lparr>w_buf := w_buf w @ xs\<rparr>)"
  by (simp add: writes_def)

lemma writes_OK: "writes m xs \<Longrightarrow> m w = (NGX_OK u, w') \<Longrightarrow> w_buf w' = w_buf w @ xs"
  unfolding writes_def by (drule spec [where x = w]) simp

lemma writes_not_declined: "writes m xs \<Longrightarrow> m w \<noteq> (NGX_DECLINED e, w')"
  unfolding writes_def by (rule notI, drule spec [where x = w]) simp

lemma writes_ret: "writes (ret ()) []"
  by (simp add: writes_def ret_def)

lemma writes_palloc: "writes wbuf_palloc []"
  by (auto simp: writes_def wbuf_palloc_def palloc_with_def set_wpool_def split: prod.splits)

lemma writes_put: "writes (wbuf_put d) d"
  by (auto simp: writes_def wbuf_put_def wbuf_palloc_def palloc_with_def set_wpool_def bnd_def
      split: prod.splits)

lemma writes_putc: "writes (wbuf_putc c) [c]"
  by (auto simp: writes_def wbuf_putc_def wbuf_palloc_def palloc_with_def set_wpool_def bnd_def
      split: prod.splits)

lemma writes_bnd:
  assumes m: "writes m xs" and n: "writes n ys" and zs: "zs = xs @ ys"
  shows "writes (bnd m (\<lambda>_. n)) zs"
  unfolding writes_def
proof (intro allI conjI impI)
  fix w :: sfv_wbuf
  assume "w_pool w = []"
  then show "bnd m (\<lambda>_. n) w = (NGX_OK (), w\<lparr>w_buf := w_buf w @ zs\<rparr>)"
    using writesD [OF m, of w] writesD [OF n, of "w\<lparr>w_buf := w_buf w @ xs\<rparr>"] zs by (simp add: bnd_def)
next
  fix w :: sfv_wbuf
  obtain r w1 where mw: "m w = (r, w1)" by fastforce
  show "case bnd m (\<lambda>_. n) w of
      (NGX_OK _, w') \<Rightarrow> w_buf w' = w_buf w @ zs | (NGX_DECLINED _, _) \<Rightarrow> False | (NGX_ERROR, _) \<Rightarrow> True"
  proof (cases r)
    case (NGX_OK u)
    obtain q w2 where nw: "n w1 = (q, w2)" by fastforce
    have w1: "w_buf w1 = w_buf w @ xs" using writes_OK [OF m] mw NGX_OK by simp
    show ?thesis
    proof (cases q)
      case q: (NGX_OK u')
      have "w_buf w2 = w_buf w1 @ ys" using writes_OK [OF n] nw q by simp
      with w1 mw nw NGX_OK q zs show ?thesis by (simp add: bnd_def)
    next
      case (NGX_DECLINED e)
      with writes_not_declined [OF n] nw show ?thesis by simp
    next
      case NGX_ERROR
      with mw nw \<open>r = NGX_OK u\<close> show ?thesis by (simp add: bnd_def)
    qed
  next
    case (NGX_DECLINED e)
    with writes_not_declined [OF m] mw show ?thesis by simp
  next
    case NGX_ERROR
    with mw show ?thesis by (simp add: bnd_def)
  qed
qed

lemma writes_if:
  "writes m xs \<Longrightarrow> writes n ys \<Longrightarrow> writes (if b then m else n) (if b then xs else ys)"
  by simp

lemma writes_sign: "writes (write_sign v) (if v < 0 then ''-'' else [])"
  unfolding write_sign_def by (rule writes_if [OF writes_putc writes_ret])

lemma writes_integer: "writes (write_integer v) (ser_integer v)"
  unfolding write_integer_def
  by (rule writes_bnd [OF writes_sign writes_put]) (simp add: ser_integer_def)

lemma writes_frac_digits: "writes (write_frac_digits ds) (map (\<lambda>d. char_of (48 + d)) ds)"
proof (induction ds)
  case Nil
  show ?case by (simp add: writes_ret)
next
  case (Cons d ds)
  then show ?case by (simp add: writes_bnd [OF writes_putc])
qed

lemma writes_decimal: "writes (write_decimal v) (ser_decimal v)"
proof -
  have frac: "writes (if f = 0 then wbuf_putc CHR ''0''
      else let digits = [f div 100, (f div 10) mod 10, f mod 10] in
        write_frac_digits (take (frac_last digits 2 + 1) digits)) (ser_frac f)" for f
    unfolding ser_frac_def Let_def by (rule writes_if [OF writes_putc writes_frac_digits])
  show ?thesis
    unfolding write_decimal_def Let_def
    by (rule writes_bnd [OF writes_sign writes_bnd [OF writes_integer
          writes_bnd [OF writes_putc frac [unfolded Let_def] refl] refl]])
      (simp add: ser_decimal_def ser_integer_def)
qed

lemma writes_string_body: "writes (write_string_body s) (escape s)"
proof (induction s)
  case Nil
  show ?case by (simp add: writes_ret escape_def)
next
  case (Cons c cs)
  then show ?case
    unfolding write_string_body.simps
    by (rule writes_bnd [OF writes_if [OF writes_putc writes_ret] writes_bnd [OF writes_putc]])
      (auto simp: escape_def)
qed

lemma writes_bare_item: "writes (write_bare_item b) (ser_bare b)"
proof (cases b)
  case (SFV_STRING s)
  have "writes (write_string s) (CHR 0x22 # escape s @ [CHR 0x22])"
    unfolding write_string_def
    by (rule writes_bnd [OF writes_putc writes_bnd [OF writes_string_body writes_putc refl]]) simp
  with SFV_STRING show ?thesis by simp
next
  case (SFV_BYTE_SEQUENCE s)
  have "writes (write_byte_sequence s) (CHR '':'' # ngx_encode_base64 s @ '':'')"
    unfolding write_byte_sequence_def
    by (rule writes_bnd [OF writes_palloc writes_bnd [OF writes_putc
          writes_bnd [OF writes_put writes_putc refl] refl]]) simp
  with SFV_BYTE_SEQUENCE show ?thesis by simp
next
  case (SFV_BOOLEAN v)
  have "writes (write_boolean v) (if v then ''?1'' else ''?0'')"
    unfolding write_boolean_def by (rule writes_bnd [OF writes_putc writes_putc]) simp
  with SFV_BOOLEAN show ?thesis by simp
qed (simp_all add: writes_integer writes_decimal writes_put)

lemma writes_params: "writes (write_params ps) (ser_params ps)"
proof (induction ps)
  case Nil
  show ?case by (simp add: writes_ret ser_params_def)
next
  case (Cons p ps)
  show ?case
  proof (cases "p_value p = SFV_BOOLEAN True")
    case True
    then show ?thesis
      by (simp, intro writes_bnd [OF writes_putc writes_bnd [OF writes_put Cons refl]])
        (simp add: ser_params_def ser_param_def)
  next
    case False
    then show ?thesis
      by (simp, intro writes_bnd [OF writes_putc writes_bnd [OF writes_put
            writes_bnd [OF writes_putc writes_bnd [OF writes_bare_item Cons refl] refl] refl]])
        (simp add: ser_params_def ser_param_def)
  qed
qed

lemma writes_item: "writes (write_item i) (ser_item i)"
  unfolding write_item_def by (rule writes_bnd [OF writes_bare_item writes_params]) (simp add: ser_item_def)

lemma writes_items_more:
  "0 < n \<Longrightarrow> writes (write_items n xs) (concat (map (\<lambda>j. CHR '' '' # ser_item j) xs))"
proof (induction xs arbitrary: n)
  case Nil
  show ?case by (simp add: writes_ret)
next
  case (Cons i xs)
  from Cons(1) [of "n + 1"] Cons(2) show ?case
    by (simp, intro writes_bnd [OF writes_putc writes_bnd [OF writes_item _ refl]]) auto
qed

lemma writes_items: "writes (write_items 0 xs) (ser_items xs)"
proof (cases xs)
  case (Cons i js)
  then show ?thesis
    using writes_bnd [OF writes_item writes_items_more [of 1 js] refl, of i] by simp
qed (simp add: writes_ret)

lemma writes_inner_list: "writes (write_inner_list l) (ser_inner_list l)"
  unfolding write_inner_list_def
  by (rule writes_bnd [OF writes_putc writes_bnd [OF writes_items
        writes_bnd [OF writes_putc writes_params refl] refl]]) (simp add: ser_inner_list_def)

lemma serialize_with_Nil: "writes m xs \<Longrightarrow> serialize_with m [] = (NGX_OK xs, [])"
  by (simp add: serialize_with_def wbuf_init_def writesD)

lemma serialize_with_cases: "writes m xs \<Longrightarrow> fst (serialize_with m p) \<in> {NGX_OK xs, NGX_ERROR}"
  by (auto simp: serialize_with_def wbuf_init_def split: prod.splits bool.splits rc.splits dest: writes_OK)

lemmas serialize_simps [run_simps] =
  serialize_with_Nil [OF writes_item, folded serialize_item_def]
  serialize_with_Nil [OF writes_inner_list, folded serialize_inner_list_def]
  serialize_with_Nil [OF writes_params, folded serialize_params_def]

end
