(* ===== verification/Sfv_Roundtrip.thy ===== *)
theory Sfv_Roundtrip
  imports Sfv_Write
begin

text \<open>
  What the Structured Field parser and serializer guarantee together.

  \<^item> \<open>wf_*\<close>: the well-formedness the parser establishes (character classes, digit limits, item and
    parameter limits, distinct keys).  \<open>produces m P\<close>: every value a reader accepts satisfies \<open>P\<close>.
  \<^item> \<open>delim_codec\<close>: the interface of a serialization that a reader inverts whatever follows it, as
    long as that starts with a stop byte.  It is interpreted for keys, bare items, parameters,
    items and inner lists; injectivity and the whole-input round trip are proved once in it.
\<close>

section \<open>Well-formed values\<close>

definition wf_key :: "bytes \<Rightarrow> bool" where
  "wf_key k \<longleftrightarrow> k \<noteq> [] \<and> (is_lcalpha (hd k) \<or> hd k = CHR ''*'') \<and> (\<forall>c\<in>set (tl k). is_key_char c)"

definition wf_token :: "bytes \<Rightarrow> bool" where
  "wf_token k \<longleftrightarrow> k \<noteq> [] \<and> (is_alpha (hd k) \<or> hd k = CHR ''*'') \<and> (\<forall>c\<in>set (tl k). is_token_char c)"

definition string_char :: "char \<Rightarrow> bool" where
  "string_char c \<longleftrightarrow> CHR 0x20 \<le> c \<and> c \<le> CHR 0x7E"

fun wf_bare :: "sfv_bare \<Rightarrow> bool" where
  "wf_bare (SFV_INTEGER v) = (\<bar>v\<bar> < 10 ^ 15)"
| "wf_bare (SFV_DECIMAL v) = (\<bar>v\<bar> < 10 ^ 15)"
| "wf_bare (SFV_STRING s) = (\<forall>c\<in>set s. string_char c)"
| "wf_bare (SFV_TOKEN s) = wf_token s"
| "wf_bare (SFV_BYTE_SEQUENCE s) = True"
| "wf_bare (SFV_BOOLEAN b) = True"

definition wf_params :: "sfv_param list \<Rightarrow> bool" where
  "wf_params ps \<longleftrightarrow> length ps \<le> MAX_SFV_PARAMS \<and> distinct (map p_key ps)
     \<and> (\<forall>p\<in>set ps. wf_key (p_key p) \<and> wf_bare (p_value p))"

definition wf_item :: "sfv_item \<Rightarrow> bool" where
  "wf_item i \<longleftrightarrow> wf_bare (it_bare i) \<and> wf_params (it_params i)"

definition wf_inner_list :: "sfv_inner_list \<Rightarrow> bool" where
  "wf_inner_list l \<longleftrightarrow>
     length (il_items l) \<le> MAX_SFV_ITEMS \<and> (\<forall>i\<in>set (il_items l). wf_item i) \<and> wf_params (il_params l)"

fun wf_value :: "sfv_value \<Rightarrow> bool" where
  "wf_value (MEMBER_ITEM i) = wf_item i"
| "wf_value (MEMBER_INNER_LIST l) = wf_inner_list l"

definition wf_dictionary :: "sfv_dictionary \<Rightarrow> bool" where
  "wf_dictionary d \<longleftrightarrow>
     length (d_entries d) \<le> MAX_SFV_ITEMS \<and> distinct (map e_key (d_entries d))
     \<and> (\<forall>e\<in>set (d_entries d). wf_key (e_key e) \<and> wf_value (e_value e))"

definition wf_list :: "sfv_list \<Rightarrow> bool" where
  "wf_list l \<longleftrightarrow> length (l_members l) \<le> MAX_SFV_ITEMS \<and> (\<forall>m\<in>set (l_members l). wf_value m)"

section \<open>The parser produces well-formed values\<close>

definition produces :: "'a reader \<Rightarrow> ('a \<Rightarrow> bool) \<Rightarrow> bool" where
  "produces m P \<longleftrightarrow> (\<forall>s x t. m s = (NGX_OK x, t) \<longrightarrow> P x)"

lemma producesD: "produces m P \<Longrightarrow> m s = (NGX_OK x, t) \<Longrightarrow> P x"
  by (auto simp: produces_def)

lemma producesI: "(\<And>s x t. m s = (NGX_OK x, t) \<Longrightarrow> P x) \<Longrightarrow> produces m P"
  by (auto simp: produces_def)

lemma produces_ret: "P x \<Longrightarrow> produces (ret x) P"
  by (simp add: produces_def)

lemma produces_bnd: "produces m P \<Longrightarrow> (\<And>x. P x \<Longrightarrow> produces (f x) Q) \<Longrightarrow> produces (bnd m f) Q"
  unfolding produces_def bnd_eq_OK by blast

lemma produces_any: "produces m (\<lambda>_. True)"
  by (simp add: produces_def)

lemma produces_read_key: "produces read_key wf_key"
  by (auto simp: produces_def read_key_def wf_key_def split: list.splits if_splits dest: set_takeWhileD)

lemma produces_read_token: "produces read_token wf_token"
  by (auto simp: produces_def read_token_def wf_token_def split: list.splits if_splits
      dest: set_takeWhileD)

lemma string_char_special: "string_char CHR 0x22" "string_char CHR 0x5C"
  by (simp_all add: string_char_def less_eq_char_def)

lemma string_scan_chars:
  "string_scan cs raw n = Inr (r, e, rest) \<Longrightarrow> \<forall>c\<in>set raw. string_char c \<Longrightarrow> \<forall>c\<in>set r. string_char c"
proof (induction cs raw n rule: string_scan.induct)
  case (1 raw n)
  then show ?case by simp
next
  case (2 c cs raw n)
  consider "c = CHR 0x22" | "c = CHR 0x5C" | "c \<noteq> CHR 0x22" "c \<noteq> CHR 0x5C" by blast
  then show ?case
  proof cases
    case 1
    with 2(3,4) show ?thesis by auto
  next
    case c: 2
    show ?thesis
    proof (cases cs)
      case Nil
      with 2(3) c show ?thesis by simp
    next
      case (Cons d ds)
      with 2(3) c have d: "d = CHR 0x22 \<or> d = CHR 0x5C"
        and s: "string_scan ds (d # c # raw) (n + 1) = Inr (r, e, rest)"
        by (auto split: if_split_asm)
      have "\<forall>x\<in>set (d # c # raw). string_char x" using d c 2(4) string_char_special by auto
      moreover have "\<not> (d \<noteq> CHR 0x22 \<and> d \<noteq> CHR 0x5C)" using d by blast
      ultimately show ?thesis using 2(1) [OF _ c Cons _ s] c by blast
    qed
  next
    case 3
    with 2(3) have ok: "\<not> (c < CHR 0x20 \<or> CHR 0x7E < c)"
      and s: "string_scan cs (c # raw) n = Inr (r, e, rest)"
      by (auto split: if_split_asm)
    have "string_char c" using ok by (simp add: string_char_def not_less)
    with 2(2) [OF 3 ok s] 2(4) show ?thesis by simp
  qed
qed

lemma set_unescape: "set (unescape s) \<subseteq> set s"
  by (induction s rule: unescape.induct) (auto split: list.splits)

lemma produces_read_string: "produces read_string (\<lambda>s. \<forall>c\<in>set s. string_char c)"
proof (rule producesI)
  fix s x t
  assume r: "read_string s = (NGX_OK x, t)"
  then obtain raw e rest where sc: "string_scan (c_rest (advance s)) [] 0 = Inr (raw, e, rest)"
    and x: "x = raw \<or> x = unescape raw"
    by (auto simp: read_string_def Let_def bnd_eq_OK split: sum.splits if_splits prod.splits)
  from string_scan_chars [OF sc] x set_unescape [of raw] show "\<forall>c\<in>set x. string_char c" by auto
qed

lemma digit_val_bounds: "is_digit c \<Longrightarrow> 0 \<le> digit_val c \<and> digit_val c \<le> 9"
  by (auto simp: is_digit_def digit_val_def less_eq_char_def)

lemma read_digits_bound:
  "read_digits mx p n cs = Inr (q, k, rest) \<Longrightarrow> 0 \<le> p \<Longrightarrow> p < 10 ^ n \<Longrightarrow> n \<le> mx \<Longrightarrow>
   0 \<le> q \<and> q < 10 ^ k \<and> k \<le> mx"
proof (induction mx p n cs rule: read_digits.induct)
  case (1 mx part n)
  then show ?case by simp
next
  case (2 mx part n c cs)
  show ?case
  proof (cases "is_digit c \<and> n \<noteq> mx")
    case True
    with digit_val_bounds [of c] 2(3,4) have "0 \<le> part * 10 + digit_val c" "part * 10 + digit_val c < 10 ^ (n + 1)"
      by simp_all
    with 2 True show ?thesis by simp
  next
    case False
    with 2 show ?thesis by (auto split: if_splits)
  qed
qed

lemma scale_frac_simps:
  "scale_frac f 0 = f * 1000" "scale_frac f (Suc 0) = f * 100" "scale_frac f 2 = f * 10" "scale_frac f 3 = f"
  by (simp_all add: scale_frac.simps)

lemma scale_frac_bound: "0 \<le> f \<Longrightarrow> f < 10 ^ n \<Longrightarrow> n \<le> 3 \<Longrightarrow> 0 \<le> scale_frac f n \<and> scale_frac f n < 1000"
proof -
  assume a: "0 \<le> f" "f < 10 ^ n" "n \<le> 3"
  from a(3) consider "n = 0" | "n = 1" | "n = 2" | "n = 3" by linarith
  then show ?thesis using a by cases (simp_all add: scale_frac_simps)
qed

lemma produces_read_number: "produces read_number wf_bare"
proof (rule producesI)
  fix s x t
  assume r: "read_number s = (NGX_OK x, t)"
  let ?s = "if at_char CHR ''-'' s then advance s else s"
  from r obtain p k rest where d: "read_digits 15 0 0 (c_rest ?s) = Inr (p, k, rest)"
    by (cases "read_digits 15 0 0 (c_rest ?s)") (auto simp: read_number_def Let_def split: if_splits)
  from read_digits_bound [OF d] have p: "0 \<le> p" "p < 10 ^ k" "k \<le> 15" by simp_all
  from p(2,3) have p15: "p < 10 ^ 15" by (meson less_le_trans one_le_numeral power_increasing)
  show "wf_bare x"
  proof (cases "at_char CHR ''.'' (?s\<lparr>c_rest := rest\<rparr>)")
    case False
    with r d p p15 show ?thesis by (auto simp: read_number_def Let_def split: if_splits)
  next
    case True
    from True r d have k: "k \<le> 12" by (auto simp: read_number_def Let_def split: if_splits)
    from True r d obtain q m rest2 where d2: "read_digits 3 0 0 (tl rest) = Inr (q, m, rest2)"
      and x: "x = SFV_DECIMAL ((if at_char CHR ''-'' s then - 1 else 1) * (p * 1000 + scale_frac q m))"
      by (cases "read_digits 3 0 0 (tl rest)")
        (auto simp: read_number_def Let_def advance_def split: if_splits)
    from read_digits_bound [OF d2] scale_frac_bound [of q m]
    have "0 \<le> scale_frac q m" "scale_frac q m < 1000" by simp_all
    moreover from p(2) k have "p < 10 ^ 12" by (meson less_le_trans one_le_numeral power_increasing)
    ultimately show ?thesis using p(1) x by (auto simp: abs_if)
  qed
qed

lemma produces_read_boolean: "produces read_boolean wf_bare"
  by (auto simp: produces_def read_boolean_def Let_def split: if_splits)

lemma produces_read_bare_item: "produces read_bare_item wf_bare"
  by (rule producesI)
    (auto simp: read_bare_item_def bnd_eq_OK split: list.splits if_splits
      dest!: producesD [OF produces_read_number] producesD [OF produces_read_string]
        producesD [OF produces_read_boolean] producesD [OF produces_read_token])

lemma keys_param_set:
  "map p_key (param_set ps k v) =
     (if k \<in> p_key ` set ps then map p_key ps else map p_key ps @ [k])"
  by (induction ps) auto

lemma param_set_values: "q \<in> set (param_set ps k v) \<Longrightarrow> q \<in> set ps \<or> p_key q = k \<and> p_value q = v"
  by (induction ps) (auto split: if_splits)

lemma wf_param_set:
  assumes "wf_params ps" and "wf_key k" and "wf_bare v"
    and "k \<in> p_key ` set ps \<or> length ps < MAX_SFV_PARAMS"
  shows "wf_params (param_set ps k v)"
proof -
  have "length (param_set ps k v) = length (map p_key (param_set ps k v))" by simp
  also have "\<dots> \<le> MAX_SFV_PARAMS"
    unfolding keys_param_set using assms(1,4) by (auto simp: wf_params_def)
  finally have "length (param_set ps k v) \<le> MAX_SFV_PARAMS" .
  moreover have "distinct (map p_key (param_set ps k v))"
    unfolding keys_param_set using assms(1) by (auto simp: wf_params_def)
  ultimately show ?thesis
    using assms(1-3) by (auto simp: wf_params_def dest!: param_set_values)
qed

lemma param_slot_ok:
  "param_slot ps k s = (NGX_OK u, t) \<Longrightarrow> k \<in> p_key ` set ps \<or> length ps < MAX_SFV_PARAMS"
  by (auto simp: param_slot_def split: if_splits)

lemma read_params_loop_wf:
  "read_params_loop ps s = (NGX_OK x, t) \<Longrightarrow> wf_params ps \<Longrightarrow> wf_params x"
proof (induction ps s rule: read_params_loop.induct)
  case (1 params ctx)
  show ?case
  proof (cases "at_char CHR '';'' ctx")
    case False
    with 1 show ?thesis by (simp add: read_params_loop.simps)
  next
    case True
    with 1(3) obtain key c1 c2 where k: "read_key (skip_sp (advance ctx)) = (NGX_OK key, c1)"
      and p: "param_slot params key c1 = (NGX_OK (), c2)"
      and e: "(if at_char CHR ''='' c2 then
          bnd read_bare_item (\<lambda>v ctx. read_params_loop (param_set params key v) ctx) (advance c2)
        else read_params_loop (param_set params key (SFV_BOOLEAN True)) c2) = (NGX_OK x, t)"
      by (subst (asm) read_params_loop.simps) (auto simp: bnd_eq_OK)
    note wf = wf_param_set [OF 1(4) producesD [OF produces_read_key k] _ param_slot_ok [OF p]]
    show ?thesis
    proof (cases "at_char CHR ''='' c2")
      case eq: True
      with e obtain v c3 where v: "read_bare_item (advance c2) = (NGX_OK v, c3)"
        and l: "read_params_loop (param_set params key v) c3 = (NGX_OK x, t)"
        by (auto simp: bnd_eq_OK)
      from 1(1) [OF _ k p eq v l wf [OF producesD [OF produces_read_bare_item v]]] True
      show ?thesis by simp
    next
      case False
      with 1(2) [OF _ k p False _ wf] True e show ?thesis by simp
    qed
  qed
qed

lemma produces_read_parameters: "produces read_parameters wf_params"
proof (rule producesI)
  fix s x t
  assume "read_parameters s = (NGX_OK x, t)"
  then obtain s1 where "read_params_loop [] s1 = (NGX_OK x, t)"
    by (auto simp: read_parameters_def bnd_eq_OK)
  from read_params_loop_wf [OF this] show "wf_params x" by (simp add: wf_params_def)
qed

lemma produces_read_item: "produces read_item wf_item"
  unfolding read_item_def
  by (intro produces_bnd [OF produces_read_bare_item] produces_bnd [OF produces_read_parameters]
      produces_ret) (simp add: wf_item_def)

lemma read_items_loop_wf:
  "read_items_loop items s = (NGX_OK x, t) \<Longrightarrow> length items \<le> MAX_SFV_ITEMS \<Longrightarrow> \<forall>i\<in>set items. wf_item i \<Longrightarrow>
   length x \<le> MAX_SFV_ITEMS \<and> (\<forall>i\<in>set x. wf_item i)"
proof (induction items s rule: read_items_loop.induct)
  case (1 items ctx)
  show ?case
  proof (cases "eof ctx \<or> at_char CHR '')'' ctx")
    case True
    with 1 show ?thesis by (simp add: read_items_loop.simps)
  next
    case False
    with 1(2) have few: "\<not> MAX_SFV_ITEMS \<le> length items"
      by (subst (asm) read_items_loop.simps) auto
    with 1(2) False obtain c1 i c2 where p: "ctx_palloc ctx = (NGX_OK (), c1)"
      and i: "read_item c1 = (NGX_OK i, c2)"
      and e: "(if at_char CHR '')'' c2 then ret (items @ [i]) c2
        else if \<not> at_char CHR '' '' c2 then sfv_fail ''expected a space in inner list'' c2
        else read_items_loop (items @ [i]) (skip_sp c2)) = (NGX_OK x, t)"
      by (subst (asm) read_items_loop.simps) (auto simp: bnd_eq_OK)
    have wf: "\<forall>j\<in>set (items @ [i]). wf_item j" "length (items @ [i]) \<le> MAX_SFV_ITEMS"
      using 1(4) few producesD [OF produces_read_item i] by auto
    show ?thesis
    proof (cases "at_char CHR '')'' c2 \<or> \<not> at_char CHR '' '' c2")
      case True
      with e wf show ?thesis by (auto split: if_splits)
    next
      case stop: False
      with e have "read_items_loop (items @ [i]) (skip_sp c2) = (NGX_OK x, t)" by auto
      with 1(1) [OF _ few p i] False stop wf show ?thesis by auto
    qed
  qed
qed

lemma produces_read_inner_list: "produces read_inner_list wf_inner_list"
proof (rule producesI)
  fix s x t
  assume "read_inner_list s = (NGX_OK x, t)"
  then obtain items s1 s2 ps s3 where i: "read_items_loop [] s1 = (NGX_OK items, s2)"
    and p: "read_parameters s3 = (NGX_OK ps, t)" and x: "x = \<lparr>il_items = items, il_params = ps\<rparr>"
    by (auto simp: read_inner_list_def bnd_eq_OK split: if_splits)
  from read_items_loop_wf [OF i] producesD [OF produces_read_parameters p] x
  show "wf_inner_list x" by (simp add: wf_inner_list_def)
qed

lemma produces_read_member: "produces read_member wf_value"
  by (rule producesI)
    (auto simp: read_member_def depth_down_def bnd_eq_OK split: if_splits prod.splits
      dest!: producesD [OF produces_read_inner_list] producesD [OF produces_read_item])

lemma produces_read_entry_value: "produces read_entry_value wf_value"
  by (rule producesI)
    (auto simp: read_entry_value_def bnd_eq_OK wf_item_def split: if_splits
      dest!: producesD [OF produces_read_member] producesD [OF produces_read_parameters])

lemma keys_entry_set:
  "map e_key (entry_set es k v) = (if k \<in> e_key ` set es then map e_key es else map e_key es @ [k])"
  by (induction es) auto

lemma entry_set_values: "q \<in> set (entry_set es k v) \<Longrightarrow> q \<in> set es \<or> e_key q = k \<and> e_value q = v"
  by (induction es) (auto split: if_splits)

lemma entry_exists_iff: "entry_exists es k \<longleftrightarrow> k \<in> e_key ` set es"
  by (auto simp: entry_exists_def)

lemma entry_slot_ok: "entry_slot es k s = (NGX_OK u, t) \<Longrightarrow> k \<in> e_key ` set es \<or> length es < MAX_SFV_ITEMS"
  by (auto simp: entry_slot_def entry_exists_iff split: if_splits)

lemma wf_entry_set:
  assumes "wf_dictionary \<lparr>d_entries = es, d_duplicate_keys = d\<rparr>" and "wf_key k" and "wf_value v"
    and "k \<in> e_key ` set es \<or> length es < MAX_SFV_ITEMS"
  shows "wf_dictionary \<lparr>d_entries = entry_set es k v, d_duplicate_keys = d'\<rparr>"
proof -
  have "length (entry_set es k v) = length (map e_key (entry_set es k v))" by simp
  also have "\<dots> \<le> MAX_SFV_ITEMS"
    unfolding keys_entry_set using assms(1,4) by (auto simp: wf_dictionary_def)
  finally have "length (entry_set es k v) \<le> MAX_SFV_ITEMS" .
  moreover have "distinct (map e_key (entry_set es k v))"
    unfolding keys_entry_set using assms(1) by (auto simp: wf_dictionary_def)
  ultimately show ?thesis
    using assms(1-3) by (auto simp: wf_dictionary_def dest!: entry_set_values)
qed

lemma read_dict_loop_wf:
  "read_dict_loop es d s = (NGX_OK x, t) \<Longrightarrow> wf_dictionary \<lparr>d_entries = es, d_duplicate_keys = d\<rparr> \<Longrightarrow>
   wf_dictionary x"
proof (induction es d s rule: read_dict_loop.induct)
  case (1 es d ctx)
  show ?case
  proof (cases "eof ctx")
    case True
    with 1 show ?thesis by (simp add: read_dict_loop.simps)
  next
    case False
    with 1(2) obtain key c1 c2 v c3 more c4 where k: "read_key ctx = (NGX_OK key, c1)"
      and p: "entry_slot es key c1 = (NGX_OK (), c2)"
      and v: "read_entry_value c2 = (NGX_OK v, c3)" and m: "read_comma c3 = (NGX_OK more, c4)"
      and e: "(if more then read_dict_loop (entry_set es key v) (d \<or> entry_exists es key) c4
        else ret \<lparr>d_entries = entry_set es key v, d_duplicate_keys = d \<or> entry_exists es key\<rparr> c4)
        = (NGX_OK x, t)"
      by (subst (asm) read_dict_loop.simps) (auto simp: bnd_eq_OK)
    note wf = wf_entry_set [OF 1(3) producesD [OF produces_read_key k]
        producesD [OF produces_read_entry_value v] entry_slot_ok [OF p]]
    show ?thesis
    proof (cases more)
      case True
      with 1(1) [OF False k p v m True _ wf] e show ?thesis by simp
    next
      case False
      with e wf show ?thesis by simp
    qed
  qed
qed

lemma produces_read_dictionary: "produces read_dictionary wf_dictionary"
proof (rule producesI)
  fix s x t
  assume "read_dictionary s = (NGX_OK x, t)"
  then obtain s1 where "read_dict_loop [] False s1 = (NGX_OK x, t)"
    by (auto simp: read_dictionary_def bnd_eq_OK)
  from read_dict_loop_wf [OF this] show "wf_dictionary x" by (simp add: wf_dictionary_def)
qed

lemma read_list_loop_wf:
  "read_list_loop ms s = (NGX_OK x, t) \<Longrightarrow> wf_list \<lparr>l_members = ms\<rparr> \<Longrightarrow> wf_list x"
proof (induction ms s rule: read_list_loop.induct)
  case (1 ms ctx)
  show ?case
  proof (cases "eof ctx")
    case True
    with 1 show ?thesis by (simp add: read_list_loop.simps)
  next
    case False
    with 1(2) have few: "\<not> MAX_SFV_ITEMS \<le> length ms"
      by (subst (asm) read_list_loop.simps) auto
    with False 1(2) obtain c1 m c2 more c3 where p: "ctx_palloc ctx = (NGX_OK (), c1)"
      and m: "read_member c1 = (NGX_OK m, c2)" and c: "read_comma c2 = (NGX_OK more, c3)"
      and e: "(if more then read_list_loop (ms @ [m]) c3 else ret \<lparr>l_members = ms @ [m]\<rparr> c3) = (NGX_OK x, t)"
      by (subst (asm) read_list_loop.simps) (auto simp: bnd_eq_OK)
    have wf: "wf_list \<lparr>l_members = ms @ [m]\<rparr>"
      using 1(3) few producesD [OF produces_read_member m] by (auto simp: wf_list_def)
    show ?thesis
    proof (cases more)
      case True
      with 1(1) [OF False few p m c True _ wf] e show ?thesis by simp
    next
      case False
      with e wf show ?thesis by simp
    qed
  qed
qed

lemma produces_read_list: "produces read_list wf_list"
proof (rule producesI)
  fix s x t
  assume "read_list s = (NGX_OK x, t)"
  then obtain s1 where "read_list_loop [] s1 = (NGX_OK x, t)"
    by (auto simp: read_list_def bnd_eq_OK)
  from read_list_loop_wf [OF this] show "wf_list x" by (simp add: wf_list_def)
qed

lemma parse_with_OK:
  assumes "fst (parse_with m input p) = NGX_OK x"
  obtains s t where "m s = (NGX_OK x, t)"
proof -
  from assms obtain ctx where "fst (bnd ctx_palloc (\<lambda>_. bnd m (\<lambda>x. bnd parse_end (\<lambda>_. ret x))) ctx) = NGX_OK x"
    by (cases "parse_begin input p") (simp_all add: parse_with_def split_beta)
  then obtain t where "bnd ctx_palloc (\<lambda>_. bnd m (\<lambda>x. bnd parse_end (\<lambda>_. ret x))) ctx = (NGX_OK x, t)"
    by (metis prod.collapse)
  then show thesis using that by (auto simp: bnd_eq_OK)
qed

lemma parse_with_produces: "produces m P \<Longrightarrow> fst (parse_with m input p) = NGX_OK x \<Longrightarrow> P x"
  by (erule parse_with_OK) (rule producesD)

section \<open>The codec interface\<close>

locale delim_codec =
  fixes rd :: "'a reader" and ser :: "'a \<Rightarrow> bytes" and wf :: "'a \<Rightarrow> bool" and stop :: "bytes \<Rightarrow> bool"
  assumes read_back: "wf x \<Longrightarrow> stop tail \<Longrightarrow> c_pool c = [] \<Longrightarrow> c_rest c = ser x @ tail \<Longrightarrow>
      rd c = (NGX_OK x, c\<lparr>c_rest := tail\<rparr>)"
    and stop_end: "stop []"
begin

lemma ser_append_inj:
  assumes "wf x" "wf y" "stop t" "stop u" "ser x @ t = ser y @ u"
  shows "x = y \<and> t = u"
proof -
  define c where "c = \<lparr>c_start = [], c_rest = ser x @ t, c_depth = 0, c_pool = []\<rparr>"
  have "rd c = (NGX_OK x, c\<lparr>c_rest := t\<rparr>)" by (rule read_back) (simp_all add: c_def assms)
  moreover have "rd c = (NGX_OK y, c\<lparr>c_rest := u\<rparr>)" by (rule read_back) (simp_all add: c_def assms)
  ultimately show ?thesis by (simp add: c_def)
qed

lemma ser_inj: "wf x \<Longrightarrow> wf y \<Longrightarrow> ser x = ser y \<Longrightarrow> x = y"
  using ser_append_inj [of x y "[]" "[]"] stop_end by simp

lemma parse_ser:
  assumes "wf x" and "length (ser x) \<le> MAX_SFV_LENGTH" and "ser x = [] \<or> hd (ser x) \<noteq> CHR '' ''"
  shows "parse_with rd (ser x) [] = (NGX_OK x, [])"
proof -
  let ?c = "\<lparr>c_start = ser x, c_rest = ser x, c_depth = 0, c_pool = []\<rparr>"
  have "skip_sp ?c = ?c" using assms(3) by (cases "ser x") (auto simp: skip_sp_def)
  then have b: "parse_begin (ser x) [] = Inr ?c" using assms(2) by (simp add: parse_begin_def)
  have r: "rd ?c = (NGX_OK x, ?c\<lparr>c_rest := []\<rparr>)"
    by (rule read_back) (simp_all add: assms stop_end)
  show ?thesis
    by (simp add: parse_with_def b bnd_def ctx_palloc_def palloc_with_def set_pool_def r parse_end_def
        skip_sp_def eof_def Let_def ret_def)
qed

end

section \<open>Reading back a serialization\<close>

definition stops :: "(char \<Rightarrow> bool) \<Rightarrow> bytes \<Rightarrow> bool" where
  "stops P tail \<longleftrightarrow> tail = [] \<or> P (hd tail)"

lemma stops_Nil [simp]: "stops P []" and stops_Cons [simp]: "stops P (c # cs) = P c"
  by (simp_all add: stops_def)

abbreviation key_stop :: "bytes \<Rightarrow> bool" where
  "key_stop \<equiv> stops (\<lambda>c. \<not> is_key_char c)"

definition bare_stop :: "bytes \<Rightarrow> bool" where
  "bare_stop = stops (\<lambda>c. c \<in> set '';,) '')"

definition params_stop :: "bytes \<Rightarrow> bool" where
  "params_stop = stops (\<lambda>c. c \<in> set '',) '')"

lemma ctx_palloc_ok [simp]: "c_pool c = [] \<Longrightarrow> ctx_palloc c = (NGX_OK (), c)"
  by (simp add: ctx_palloc_def palloc_with_def set_pool_def)

lemma bnd_palloc_ok [simp]: "c_pool c = [] \<Longrightarrow> bnd ctx_palloc f c = f () c"
  by (simp add: bnd_def)

interpretation key: delim_codec read_key "\<lambda>k. k" wf_key key_stop
proof unfold_locales
  fix k tail and c :: sfv_ctx
  assume "wf_key k" and "key_stop tail" and r: "c_rest c = k @ tail"
  then show "read_key c = (NGX_OK k, c\<lparr>c_rest := tail\<rparr>)"
    by (cases k; cases tail)
      (auto simp: read_key_def wf_key_def takeWhile_append_stop dropWhile_append_stop)
qed simp

lemma bare_stop_not: "bare_stop (c # cs) \<Longrightarrow> c \<noteq> CHR ''.'' \<and> \<not> is_digit c \<and> \<not> is_token_char c"
  by (auto simp: bare_stop_def is_digit_def is_token_char_def is_tchar_def is_alpha_def less_eq_char_def)

lemma read_token_ser:
  "wf_token s \<Longrightarrow> bare_stop tail \<Longrightarrow> c_rest c = s @ tail \<Longrightarrow> read_token c = (NGX_OK s, c\<lparr>c_rest := tail\<rparr>)"
  by (cases s; cases tail)
    (auto simp: read_token_def wf_token_def takeWhile_append_stop dropWhile_append_stop
      dest: bare_stop_not)

lemma string_scan_escape:
  "\<forall>c\<in>set s. string_char c \<Longrightarrow>
   string_scan (escape s @ CHR 0x22 # tail) raw n =
     Inr (rev raw @ escape s, n + length (filter (\<lambda>c. c = CHR 0x22 \<or> c = CHR 0x5C) s), CHR 0x22 # tail)"
proof (induction s arbitrary: raw n)
  case Nil
  show ?case by (simp add: escape_def)
next
  case (Cons c s)
  then have ok: "\<not> (c < CHR 0x20 \<or> CHR 0x7E < c)" by (simp add: string_char_def not_less)
  from Cons have IH: "string_scan (escape s @ CHR 0x22 # tail) raw n =
     Inr (rev raw @ escape s, n + length (filter (\<lambda>c. c = CHR 0x22 \<or> c = CHR 0x5C) s), CHR 0x22 # tail)"
    for raw n by simp
  consider "c = CHR 0x22" | "c = CHR 0x5C" | "c \<noteq> CHR 0x22" "c \<noteq> CHR 0x5C" by blast
  then show ?case
    using ok IH by cases (simp_all add: escape_def)
qed

lemma unescape_escape: "unescape (escape s) = s"
proof (induction s)
  case (Cons c s)
  then show ?case
    by (cases "c = CHR 0x22"; cases "c = CHR 0x5C") (simp_all add: escape_def)
qed (simp add: escape_def)

lemma escape_plain: "filter (\<lambda>c. c = CHR 0x22 \<or> c = CHR 0x5C) s = [] \<Longrightarrow> escape s = s"
  by (induction s) (simp_all add: escape_def split: if_split_asm)

lemma read_string_ser:
  assumes "\<forall>c\<in>set s. string_char c" and "c_pool c = []" and "c_rest c = CHR 0x22 # escape s @ CHR 0x22 # tail"
  shows "read_string c = (NGX_OK s, c\<lparr>c_rest := tail\<rparr>)"
proof (cases "filter (\<lambda>c. c = CHR 0x22 \<or> c = CHR 0x5C) s = []")
  case True
  with assms string_scan_escape [OF assms(1), of tail "[]" 0] escape_plain [of s] show ?thesis
    by (simp add: read_string_def at_char_def advance_def Let_def)
next
  case False
  with assms string_scan_escape [OF assms(1), of tail "[]" 0] unescape_escape [of s] show ?thesis
    by (simp add: read_string_def at_char_def advance_def Let_def)
qed

lemma pad_scan_plain: "CHR ''='' \<notin> set xs \<Longrightarrow> pad_scan (xs @ ys) 0 = pad_scan ys 0"
  by (induction xs) auto

lemma pad_scan_encode: "\<exists>pad. pad_scan (ngx_encode_base64 s) 0 = Some pad \<and> pad \<le> 2"
proof -
  have "CHR ''='' \<notin> set (map b64_digit (b64_body s))"
    using b64_body_less [of _ s] by (auto simp: b64_digit_props(2) [symmetric])
  then have "pad_scan (ngx_encode_base64 s) 0 = pad_scan (b64_pad s) 0"
    by (simp add: encode_split pad_scan_plain)
  with b64_pad_cases [of s] show ?thesis by auto
qed

lemma read_byte_sequence_ser:
  assumes "c_pool c = []" and "c_rest c = CHR '':'' # ngx_encode_base64 s @ CHR '':'' # tail"
  shows "read_byte_sequence c = (NGX_OK s, c\<lparr>c_rest := tail\<rparr>)"
proof -
  have n: "\<forall>x\<in>set (ngx_encode_base64 s). x \<noteq> CHR '':''" using encode_no_colon [of s] by blast
  have t: "takeWhile (\<lambda>c. c \<noteq> CHR '':'') (ngx_encode_base64 s @ CHR '':'' # tail) = ngx_encode_base64 s"
    "dropWhile (\<lambda>c. c \<noteq> CHR '':'') (ngx_encode_base64 s @ CHR '':'' # tail) = CHR '':'' # tail"
    by (simp_all add: takeWhile_append_stop [OF n] dropWhile_append_stop [OF n])
  from pad_scan_encode obtain pad where "pad_scan (ngx_encode_base64 s) 0 = Some pad" "\<not> 2 < pad"
    by (meson not_less)
  with assms t show ?thesis
    by (simp add: read_byte_sequence_def at_char_def advance_def eof_def Let_def decode_encode_base64)
qed

subsection \<open>Numbers\<close>

definition dec_val :: "bytes \<Rightarrow> int" where
  "dec_val ds = foldl (\<lambda>p c. p * 10 + digit_val c) 0 ds"

abbreviation all_digits :: "bytes \<Rightarrow> bool" where
  "all_digits ds \<equiv> (\<forall>c\<in>set ds. is_digit c)"

lemma read_digits_all:
  "all_digits ds \<Longrightarrow> n + length ds \<le> mx \<Longrightarrow> stops (\<lambda>c. \<not> is_digit c) tail \<Longrightarrow>
   read_digits mx p n (ds @ tail) = Inr (foldl (\<lambda>p c. p * 10 + digit_val c) p ds, n + length ds, tail)"
proof (induction ds arbitrary: p n)
  case Nil
  then show ?case by (cases tail) simp_all
next
  case (Cons d ds)
  then show ?case by simp
qed

lemma digit_char: "d < 10 \<Longrightarrow> is_digit (char_of (48 + d)) \<and> digit_val (char_of (48 + d)) = int d"
  by (simp add: is_digit_def digit_val_def less_eq_char_def)

lemma digits_loop_acc: "digits_loop n acc = digits_loop n [] @ acc"
proof (induction n arbitrary: acc rule: less_induct)
  case (less n)
  show ?case
  proof (cases "n div 10 = 0")
    case True
    then show ?thesis by (simp add: digits_loop.simps [of n] Let_def)
  next
    case False
    then have "n div 10 < n" by simp
    from less [OF this, of "char_of (48 + n mod 10) # acc"] less [OF this, of "[char_of (48 + n mod 10)]"]
    show ?thesis using False by (simp add: digits_loop.simps [of n] Let_def)
  qed
qed

lemma digits_loop_step:
  "digits_loop n [] =
     (if n < 10 then [] else digits_loop (n div 10) []) @ [char_of (48 + n mod 10)]"
  using digits_loop_acc [of "n div 10" "[char_of (48 + n mod 10)]"]
  by (auto simp: digits_loop.simps [of n] Let_def div_eq_0_iff)

lemma digits_loop_digits: "all_digits (digits_loop n [])"
proof (induction n rule: less_induct)
  case (less n)
  show ?case
    using less [of "n div 10"] digit_char [of "n mod 10"] by (subst digits_loop_step) auto
qed

lemma digits_loop_nonempty: "digits_loop n [] \<noteq> []"
  by (subst digits_loop_step) simp

lemma digits_loop_val: "dec_val (digits_loop n []) = int n"
proof (induction n rule: less_induct)
  case (less n)
  have "int (n div 10) * 10 + int (n mod 10) = int n" by presburger
  then show ?case
    using less [of "n div 10"] digit_char [of "n mod 10"]
    by (subst digits_loop_step) (auto simp: dec_val_def)
qed

lemma digits_loop_length: "n < 10 ^ Suc k \<Longrightarrow> length (digits_loop n []) \<le> Suc k"
proof (induction k arbitrary: n)
  case 0
  then show ?case by (subst digits_loop_step) simp
next
  case (Suc k)
  then have "n div 10 < 10 ^ Suc k" by (simp add: div_less_iff_less_mult)
  with Suc.IH [of "n div 10"] show ?case by (subst digits_loop_step) simp
qed

lemma ser_frac_props:
  assumes "f < 1000"
  shows "all_digits (ser_frac f)" and "ser_frac f \<noteq> []" and "length (ser_frac f) \<le> 3"
    and "scale_frac (dec_val (ser_frac f)) (length (ser_frac f)) = int f"
proof -
  define a b c where abc: "a = f div 100" "b = f div 10 mod 10" "c = f mod 10"
  have lt: "a < 10" "b < 10" "c < 10" using assms by (simp_all add: abc div_less_iff_less_mult)
  have "f div 100 = f div 10 div 10" by (simp add: div_mult2_eq [symmetric])
  then have "f div 10 = 10 * a + b" unfolding abc using mult_div_mod_eq [of 10 "f div 10"] by simp
  then have f: "f = 100 * a + 10 * b + c" unfolding abc using mult_div_mod_eq [of 10 f] by linarith
  note d = digit_char [OF lt(1)] digit_char [OF lt(2)] digit_char [OF lt(3)]
  have z: "is_digit CHR ''0''" "digit_val CHR ''0'' = 0" by (simp_all add: is_digit_def digit_val_def)
  consider "f = 0" | "f \<noteq> 0" "c \<noteq> 0" | "f \<noteq> 0" "c = 0" "b \<noteq> 0" | "f \<noteq> 0" "c = 0" "b = 0" by blast
  then have "all_digits (ser_frac f) \<and> ser_frac f \<noteq> [] \<and> length (ser_frac f) \<le> 3
    \<and> scale_frac (dec_val (ser_frac f)) (length (ser_frac f)) = int f"
  proof cases
    case 1
    then show ?thesis using z by (simp add: ser_frac_def dec_val_def scale_frac_simps)
  next
    case 2
    then have "ser_frac f = [char_of (48 + a), char_of (48 + b), char_of (48 + c)]"
      by (simp add: ser_frac_def Let_def abc [symmetric] numeral_2_eq_2)
    then show ?thesis using d f by (simp add: dec_val_def scale_frac_simps numeral_3_eq_3 [symmetric])
  next
    case 3
    then have "ser_frac f = [char_of (48 + a), char_of (48 + b)]"
      by (simp add: ser_frac_def Let_def abc [symmetric] numeral_2_eq_2)
    then show ?thesis using d f 3 by (simp add: dec_val_def scale_frac_simps numeral_2_eq_2 [symmetric])
  next
    case 4
    then have "ser_frac f = [char_of (48 + a)]"
      by (simp add: ser_frac_def Let_def abc [symmetric] numeral_2_eq_2)
    then show ?thesis using d f 4 by (simp add: dec_val_def scale_frac_simps)
  qed
  then show "all_digits (ser_frac f)" "ser_frac f \<noteq> []" "length (ser_frac f) \<le> 3"
    "scale_frac (dec_val (ser_frac f)) (length (ser_frac f)) = int f" by blast+
qed

lemma bare_stop_digit: "bare_stop tail \<Longrightarrow> stops (\<lambda>c. \<not> is_digit c) tail \<and> (tail = [] \<or> hd tail \<noteq> CHR ''.'')"
  by (cases tail) (auto dest: bare_stop_not)

lemma digits_no_minus: "all_digits ds \<Longrightarrow> ds \<noteq> [] \<Longrightarrow> hd ds \<noteq> CHR ''-''"
  by (cases ds) (auto simp: is_digit_def less_eq_char_def)

definition sign_part :: "int \<Rightarrow> bytes" where
  "sign_part v = (if v < 0 then ''-'' else [])"

lemma read_number_sign:
  assumes "c_rest c = sign_part v @ ds @ tail" and "all_digits ds" and "ds \<noteq> []"
  shows "at_char CHR ''-'' c \<longleftrightarrow> v < 0"
    and "(if at_char CHR ''-'' c then advance c else c) = c\<lparr>c_rest := ds @ tail\<rparr>"
    and "at_digit (c\<lparr>c_rest := ds @ tail\<rparr>)"
  using assms digits_no_minus [OF assms(2,3)]
  by (cases ds; cases c; auto simp: sign_part_def at_char_def advance_def at_digit_def split: if_splits)+

lemma abs_lt_nat: "\<bar>v\<bar> < 10 ^ k \<Longrightarrow> nat \<bar>v\<bar> < 10 ^ k"
  by (metis abs_ge_zero nat_less_iff of_nat_numeral of_nat_power)

lemma read_integer_ser:
  assumes "\<bar>v\<bar> < 10 ^ 15" and "bare_stop tail" and "c_rest c = ser_integer v @ tail"
  shows "read_number c = (NGX_OK (SFV_INTEGER v), c\<lparr>c_rest := tail\<rparr>)"
proof -
  let ?ds = "digits_loop (nat \<bar>v\<bar>) []"
  have r: "c_rest c = sign_part v @ ?ds @ tail" using assms(3) by (simp add: ser_integer_def sign_part_def)
  note sg = read_number_sign [OF r digits_loop_digits digits_loop_nonempty]
  have len: "length ?ds \<le> 15" using digits_loop_length [of "nat \<bar>v\<bar>" 14] abs_lt_nat [OF assms(1)] by simp
  have d: "read_digits 15 0 0 (?ds @ tail) = Inr (int (nat \<bar>v\<bar>), length ?ds, tail)"
    using read_digits_all [OF digits_loop_digits, of 0 "nat \<bar>v\<bar>" 15 tail 0] len bare_stop_digit [OF assms(2)]
      digits_loop_val [of "nat \<bar>v\<bar>"] by (simp add: dec_val_def)
  have nodot: "\<not> at_char CHR ''.'' (c\<lparr>c_rest := tail\<rparr>)"
    using bare_stop_digit [OF assms(2)] by (cases tail) (auto simp: at_char_def)
  show ?thesis
    unfolding read_number_def Let_def sg(2) using sg(1,3) d nodot by auto
qed

lemma read_decimal_ser:
  assumes "\<bar>v\<bar> < 10 ^ 15" and "bare_stop tail" and "c_rest c = ser_decimal v @ tail"
  shows "read_number c = (NGX_OK (SFV_DECIMAL v), c\<lparr>c_rest := tail\<rparr>)"
proof -
  let ?i = "nat \<bar>v\<bar> div 1000" and ?f = "nat \<bar>v\<bar> mod 1000"
  let ?ds = "digits_loop ?i []" and ?fs = "ser_frac ?f"
  have r: "c_rest c = sign_part v @ ?ds @ (CHR ''.'' # ?fs @ tail)"
    using assms(3) by (simp add: ser_decimal_def sign_part_def)
  note sg = read_number_sign [OF r digits_loop_digits digits_loop_nonempty]
  have "nat \<bar>v\<bar> < 10 ^ 12 * 1000" using abs_lt_nat [OF assms(1)] by simp
  then have "?i < 10 ^ 12" by (simp only: div_less_iff_less_mult)
  then have len: "length ?ds \<le> 12" using digits_loop_length [of ?i 11] by simp
  have d: "read_digits 15 0 0 (?ds @ CHR ''.'' # ?fs @ tail) = Inr (int ?i, length ?ds, CHR ''.'' # ?fs @ tail)"
    using read_digits_all [OF digits_loop_digits, of 0 ?i 15 "CHR ''.'' # ?fs @ tail" 0] len
      digits_loop_val [of ?i] by (simp add: dec_val_def is_digit_def)
  note fp = ser_frac_props [of ?f, simplified]
  have d2: "read_digits 3 0 0 (?fs @ tail) = Inr (dec_val ?fs, length ?fs, tail)"
    using read_digits_all [OF fp(1), of 0 3 tail 0] fp(3) bare_stop_digit [OF assms(2)]
    by (simp add: dec_val_def)
  have dot: "at_char CHR ''.'' (c\<lparr>c_rest := CHR ''.'' # ?fs @ tail\<rparr>)" by (simp add: at_char_def)
  have adv: "advance (c\<lparr>c_rest := CHR ''.'' # ?fs @ tail\<rparr>) = c\<lparr>c_rest := ?fs @ tail\<rparr>" by (simp add: advance_def)
  have fd: "at_digit (c\<lparr>c_rest := ?fs @ tail\<rparr>)" using fp(1,2) by (cases ?fs) (auto simp: at_digit_def)
  have "int ?i * 1000 + int ?f = \<bar>v\<bar>"
    using div_mult_mod_eq [of "nat \<bar>v\<bar>" 1000] by (metis abs_ge_zero nat_0_le of_nat_add of_nat_mult of_nat_numeral)
  then have val: "(if v < 0 then - 1 else 1) * (int ?i * 1000 + int ?f) = v" by simp
  have "read_number c =
      (NGX_OK (SFV_DECIMAL ((if v < 0 then - 1 else 1) * (int ?i * 1000 + scale_frac (dec_val ?fs) (length ?fs)))),
       c\<lparr>c_rest := tail\<rparr>)"
    unfolding read_number_def Let_def sg(2) using sg(1,3) d d2 dot adv fd len by simp
  then show ?thesis unfolding fp(4) val .
qed

subsection \<open>Bare items, parameters, items, inner lists\<close>

lemma ser_integer_head: "\<exists>d ds. ser_integer v = d # ds \<and> (d = CHR ''-'' \<or> is_digit d)"
  using digits_loop_nonempty [of "nat \<bar>v\<bar>"] digits_loop_digits [of "nat \<bar>v\<bar>"]
  by (cases "digits_loop (nat \<bar>v\<bar>) []") (auto simp: ser_integer_def)

lemma ser_decimal_head: "\<exists>d ds. ser_decimal v = d # ds \<and> (d = CHR ''-'' \<or> is_digit d)"
  using digits_loop_nonempty [of "nat \<bar>v\<bar> div 1000"] digits_loop_digits [of "nat \<bar>v\<bar> div 1000"]
  by (cases "digits_loop (nat \<bar>v\<bar> div 1000) []") (auto simp: ser_decimal_def)

lemma alpha_class: "is_alpha c \<or> c = CHR ''*'' \<Longrightarrow>
    c \<noteq> CHR ''-'' \<and> \<not> is_digit c \<and> c \<noteq> CHR 0x22 \<and> c \<noteq> CHR '':'' \<and> c \<noteq> CHR ''?''"
  by (auto simp: is_alpha_def is_digit_def less_eq_char_def)

lemma special_not_digit: "\<not> is_digit CHR 0x22" "\<not> is_digit CHR '':''" "\<not> is_digit CHR ''?''"
  by (simp_all add: is_digit_def less_eq_char_def)

interpretation bare: delim_codec read_bare_item ser_bare wf_bare bare_stop
proof unfold_locales
  fix b tail and c :: sfv_ctx
  assume wf: "wf_bare b" and st: "bare_stop tail" and p: "c_pool c = []" and r: "c_rest c = ser_bare b @ tail"
  show "read_bare_item c = (NGX_OK b, c\<lparr>c_rest := tail\<rparr>)"
  proof (cases b)
    case (SFV_INTEGER v)
    with ser_integer_head [of v] r read_integer_ser [of v tail c] wf st show ?thesis
      by (auto simp: read_bare_item_def)
  next
    case (SFV_DECIMAL v)
    with ser_decimal_head [of v] r read_decimal_ser [of v tail c] wf st show ?thesis
      by (auto simp: read_bare_item_def)
  next
    case (SFV_STRING s)
    with r read_string_ser [of s c tail] wf p show ?thesis
      by (simp add: read_bare_item_def special_not_digit bnd_def ret_def)
  next
    case (SFV_TOKEN s)
    then have t: "wf_token s" using wf by simp
    then obtain a as where s: "s = a # as" "is_alpha a \<or> a = CHR ''*''"
      by (cases s) (auto simp: wf_token_def)
    with SFV_TOKEN r read_token_ser [OF t st] alpha_class [OF s(2)] show ?thesis
      by (simp add: read_bare_item_def bnd_def ret_def)
  next
    case (SFV_BYTE_SEQUENCE s)
    with r read_byte_sequence_ser [of c s tail] wf p show ?thesis
      by (simp add: read_bare_item_def special_not_digit bnd_def ret_def)
  next
    case (SFV_BOOLEAN v)
    with r show ?thesis
      by (cases v) (simp_all add: read_bare_item_def special_not_digit read_boolean_def at_char_def
          advance_def Let_def)
  qed
qed (simp add: bare_stop_def)

lemma params_stop_not: "params_stop (c # cs) \<Longrightarrow> c \<noteq> CHR '';'' \<and> c \<noteq> CHR ''='' \<and> \<not> is_key_char c"
  by (auto simp: params_stop_def is_key_char_def is_lcalpha_def is_digit_def less_eq_char_def)

lemma ser_params_stop: "params_stop tail \<Longrightarrow> bare_stop (ser_params ps @ tail)"
  by (cases ps; cases tail) (auto simp: ser_params_def ser_param_def bare_stop_def params_stop_def)

lemma ser_params_key_stop: "params_stop tail \<Longrightarrow> key_stop (ser_params ps @ tail)"
  by (cases ps; cases tail)
    (auto simp: ser_params_def ser_param_def is_key_char_def is_lcalpha_def is_digit_def less_eq_char_def
      dest: params_stop_not)

lemma ser_params_no_eq: "params_stop tail \<Longrightarrow> \<not> at_char CHR ''='' (c\<lparr>c_rest := ser_params ps @ tail\<rparr>)"
  by (cases ps; cases tail) (auto simp: ser_params_def ser_param_def at_char_def dest: params_stop_not)

lemma param_set_new: "k \<notin> p_key ` set ps \<Longrightarrow> param_set ps k v = ps @ [\<lparr>p_key = k, p_value = v\<rparr>]"
  by (induction ps) auto

lemma key_no_space: "wf_key k \<Longrightarrow> skip_sp (c\<lparr>c_rest := k @ t\<rparr>) = c\<lparr>c_rest := k @ t\<rparr>"
  by (cases k) (auto simp: wf_key_def skip_sp_def is_lcalpha_def less_eq_char_def)

lemma read_params_loop_ser:
  "wf_params (ps @ qs) \<Longrightarrow> params_stop tail \<Longrightarrow> c_pool c = [] \<Longrightarrow> c_rest c = ser_params qs @ tail \<Longrightarrow>
   read_params_loop ps c = (NGX_OK (ps @ qs), c\<lparr>c_rest := tail\<rparr>)"
proof (induction qs arbitrary: ps c)
  case Nil
  then have "\<not> at_char CHR '';'' c" by (cases tail) (auto simp: at_char_def ser_params_def dest: params_stop_not)
  with Nil show ?case by (simp add: read_params_loop.simps ser_params_def ret_def)
next
  case (Cons q qs)
  let ?rest = "(if p_value q = SFV_BOOLEAN True then [] else CHR ''='' # ser_bare (p_value q))
    @ ser_params qs @ tail"
  have r: "c_rest c = CHR '';'' # p_key q @ ?rest" using Cons(5) by (simp add: ser_params_def ser_param_def)
  have wfq: "wf_key (p_key q)" "wf_bare (p_value q)" and new: "p_key q \<notin> p_key ` set ps"
    and few: "\<not> MAX_SFV_PARAMS \<le> length ps"
    using Cons(2) by (auto simp: wf_params_def)
  have wf: "wf_params ((ps @ [q]) @ qs)" using Cons(2) by simp
  have semi: "at_char CHR '';'' c" using r by (simp add: at_char_def)
  have sp: "skip_sp (advance c) = c\<lparr>c_rest := p_key q @ ?rest\<rparr>"
    using key_no_space [OF wfq(1), of ?rest c] r by (simp add: advance_def)
  have "key_stop ?rest"
    using ser_params_key_stop [OF Cons(3), of qs] by (simp add: is_key_char_def is_lcalpha_def is_digit_def less_eq_char_def)
  then have k: "read_key (c\<lparr>c_rest := p_key q @ ?rest\<rparr>) = (NGX_OK (p_key q), c\<lparr>c_rest := ?rest\<rparr>)"
    using key.read_back [OF wfq(1), of ?rest "c\<lparr>c_rest := p_key q @ ?rest\<rparr>"] Cons(4) by simp
  have slot: "param_slot ps (p_key q) (c\<lparr>c_rest := ?rest\<rparr>) = (NGX_OK (), c\<lparr>c_rest := ?rest\<rparr>)"
    using new few Cons(4) by (auto simp: param_slot_def)
  have set: "param_set ps (p_key q) (p_value q) = ps @ [q]" using param_set_new [OF new] by simp
  have IH: "read_params_loop (ps @ [q]) (c\<lparr>c_rest := ser_params qs @ tail\<rparr>) = (NGX_OK (ps @ q # qs), c\<lparr>c_rest := tail\<rparr>)"
    using Cons.IH [OF wf Cons(3), of "c\<lparr>c_rest := ser_params qs @ tail\<rparr>"] Cons(4) by simp
  show ?case
  proof (cases "p_value q = SFV_BOOLEAN True")
    case True
    show ?thesis
      apply (subst read_params_loop.simps)
      using semi sp k slot set IH True ser_params_no_eq [OF Cons(3), of qs c] by (simp add: bnd_def)
  next
    case False
    have v: "read_bare_item (c\<lparr>c_rest := ser_bare (p_value q) @ ser_params qs @ tail\<rparr>)
        = (NGX_OK (p_value q), c\<lparr>c_rest := ser_params qs @ tail\<rparr>)"
      using bare.read_back [OF wfq(2) ser_params_stop [OF Cons(3), of qs],
          of "c\<lparr>c_rest := ser_bare (p_value q) @ ser_params qs @ tail\<rparr>"] Cons(4) by simp
    show ?thesis
      apply (subst read_params_loop.simps)
      using semi sp k slot set IH False v by (simp add: bnd_def at_char_def advance_def)
  qed
qed

interpretation params: delim_codec read_parameters ser_params wf_params params_stop
proof unfold_locales
  fix ps tail and c :: sfv_ctx
  assume "wf_params ps" "params_stop tail" "c_pool c = []" "c_rest c = ser_params ps @ tail"
  then show "read_parameters c = (NGX_OK ps, c\<lparr>c_rest := tail\<rparr>)"
    using read_params_loop_ser [of "[]" ps tail c] by (simp add: read_parameters_def)
qed (simp add: params_stop_def)

interpretation item: delim_codec read_item ser_item wf_item params_stop
proof unfold_locales
  fix i tail and c :: sfv_ctx
  assume wf: "wf_item i" and st: "params_stop tail" and p: "c_pool c = []" and r: "c_rest c = ser_item i @ tail"
  let ?c = "c\<lparr>c_rest := ser_params (it_params i) @ tail\<rparr>"
  have "read_bare_item c = (NGX_OK (it_bare i), ?c)"
    using bare.read_back [of "it_bare i" "ser_params (it_params i) @ tail" c] wf r p ser_params_stop [OF st]
    by (simp add: wf_item_def ser_item_def)
  moreover have "read_parameters ?c = (NGX_OK (it_params i), c\<lparr>c_rest := tail\<rparr>)"
    using params.read_back [of "it_params i" tail ?c] wf p st by (simp add: wf_item_def)
  ultimately show "read_item c = (NGX_OK i, c\<lparr>c_rest := tail\<rparr>)"
    by (simp add: read_item_def bnd_def ret_def)
qed (simp add: params_stop_def)

definition ser_items_tail :: "sfv_item list \<Rightarrow> bytes" where
  "ser_items_tail xs = concat (map (\<lambda>j. CHR '' '' # ser_item j) xs)"

lemma ser_bare_head:
  assumes "wf_bare b"
  shows "ser_bare b \<noteq> [] \<and> hd (ser_bare b) \<noteq> CHR '' '' \<and> hd (ser_bare b) \<noteq> CHR '')'' \<and> hd (ser_bare b) \<noteq> CHR ''(''"
proof (cases b)
  case (SFV_INTEGER v)
  with ser_integer_head [of v] show ?thesis by (auto simp: is_digit_def less_eq_char_def)
next
  case (SFV_DECIMAL v)
  with ser_decimal_head [of v] show ?thesis by (auto simp: is_digit_def less_eq_char_def)
next
  case (SFV_TOKEN s)
  with assms show ?thesis by (cases s) (auto simp: wf_token_def is_alpha_def less_eq_char_def)
qed auto

lemma ser_item_head:
  assumes "wf_item i"
  obtains d ds where "ser_item i = d # ds" "d \<noteq> CHR '' ''" "d \<noteq> CHR '')''" "d \<noteq> CHR ''(''"
  using ser_bare_head [of "it_bare i"] assms that
  by (cases "ser_bare (it_bare i)") (auto simp: wf_item_def ser_item_def)

lemma read_items_loop_ser:
  "wf_item i \<Longrightarrow> (\<forall>j\<in>set js. wf_item j) \<Longrightarrow> length is0 + length (i # js) \<le> MAX_SFV_ITEMS \<Longrightarrow> c_pool c = [] \<Longrightarrow>
   c_rest c = ser_item i @ ser_items_tail js @ CHR '')'' # tail \<Longrightarrow>
   read_items_loop is0 c = (NGX_OK (is0 @ i # js), c\<lparr>c_rest := CHR '')'' # tail\<rparr>)"
proof (induction js arbitrary: is0 i c)
  case Nil
  from Nil(1) obtain d ds where d: "ser_item i = d # ds" "d \<noteq> CHR '')''" by (rule ser_item_head)
  have st: "params_stop (CHR '')'' # tail)" by (simp add: params_stop_def)
  have rd: "read_item c = (NGX_OK i, c\<lparr>c_rest := CHR '')'' # tail\<rparr>)"
    using item.read_back [OF Nil(1) st, of c] Nil(4,5) by (simp add: ser_items_tail_def)
  have "\<not> eof c" "\<not> at_char CHR '')'' c" using d Nil(5) by (auto simp: eof_def at_char_def)
  with rd Nil(3,4) show ?case
    by (subst read_items_loop.simps) (simp add: bnd_def at_char_def ret_def)
next
  case (Cons j js)
  from Cons(2) obtain d ds where d: "ser_item i = d # ds" "d \<noteq> CHR '')''" by (rule ser_item_head)
  have wj: "wf_item j" using Cons(3) by simp
  from wj obtain e es where e: "ser_item j = e # es" "e \<noteq> CHR '' ''" by (rule ser_item_head)
  let ?t = "ser_item j @ ser_items_tail js @ CHR '')'' # tail"
  have st: "params_stop (CHR '' '' # ?t)" by (simp add: params_stop_def)
  have rd: "read_item c = (NGX_OK i, c\<lparr>c_rest := CHR '' '' # ?t\<rparr>)"
    using item.read_back [OF Cons(2) st, of c] Cons(5,6) by (simp add: ser_items_tail_def)
  have sp: "skip_sp (c\<lparr>c_rest := CHR '' '' # ?t\<rparr>) = c\<lparr>c_rest := ?t\<rparr>"
    using e by (simp add: skip_sp_def)
  have IH: "read_items_loop (is0 @ [i]) (c\<lparr>c_rest := ?t\<rparr>) = (NGX_OK (is0 @ i # j # js), c\<lparr>c_rest := CHR '')'' # tail\<rparr>)"
    using Cons.IH [OF wj, of "is0 @ [i]" "c\<lparr>c_rest := ?t\<rparr>"] Cons(3-5) by simp
  have "\<not> eof c" "\<not> at_char CHR '')'' c" using d Cons(6) by (auto simp: eof_def at_char_def)
  with rd sp IH Cons(4,5) show ?case
    by (subst read_items_loop.simps) (simp add: bnd_def at_char_def)
qed

lemma read_items_ser:
  assumes "\<forall>j\<in>set xs. wf_item j" and "length xs \<le> MAX_SFV_ITEMS" and "c_pool c = []"
    and "c_rest c = ser_items xs @ CHR '')'' # tail"
  shows "read_items_loop [] (skip_sp c) = (NGX_OK xs, c\<lparr>c_rest := CHR '')'' # tail\<rparr>)"
proof (cases xs)
  case Nil
  with assms(4) show ?thesis
    by (cases c) (simp add: skip_sp_def read_items_loop.simps at_char_def ret_def)
next
  case (Cons i js)
  from assms(1) Cons have "wf_item i" by simp
  then obtain d ds where "ser_item i = d # ds" "d \<noteq> CHR '' ''" by (rule ser_item_head)
  with assms(4) Cons have "skip_sp c = c" by (cases c) (simp add: skip_sp_def)
  moreover have "c_rest c = ser_item i @ ser_items_tail js @ CHR '')'' # tail"
    using assms(4) Cons by (simp add: ser_items_tail_def)
  ultimately show ?thesis
    using read_items_loop_ser [of i js "[]" c tail] assms Cons by simp
qed

interpretation inner_list: delim_codec read_inner_list ser_inner_list wf_inner_list params_stop
proof unfold_locales
  fix l tail and c :: sfv_ctx
  assume wf: "wf_inner_list l" and st: "params_stop tail" and p: "c_pool c = []"
    and r: "c_rest c = ser_inner_list l @ tail"
  let ?c = "c\<lparr>c_rest := ser_items (il_items l) @ CHR '')'' # ser_params (il_params l) @ tail\<rparr>"
  let ?d = "c\<lparr>c_rest := ser_params (il_params l) @ tail\<rparr>"
  have adv: "advance c = ?c" using r by (simp add: advance_def ser_inner_list_def)
  have i: "read_items_loop [] (skip_sp ?c) = (NGX_OK (il_items l), c\<lparr>c_rest := CHR '')'' # ser_params (il_params l) @ tail\<rparr>)"
    using read_items_ser [of "il_items l" ?c "ser_params (il_params l) @ tail"] wf p
    by (simp add: wf_inner_list_def)
  have ps: "read_parameters ?d = (NGX_OK (il_params l), c\<lparr>c_rest := tail\<rparr>)"
    using params.read_back [of "il_params l" tail ?d] wf st p by (simp add: wf_inner_list_def)
  show "read_inner_list c = (NGX_OK l, c\<lparr>c_rest := tail\<rparr>)"
    unfolding read_inner_list_def adv using i ps p
    by (simp add: bnd_def ret_def eof_def advance_def)
qed (simp add: params_stop_def)

section \<open>Decoded values fit the buffers allocated for them\<close>

text \<open>
  \<open>ngx_base64_decoded_length\<close> and the length \<open>read_string\<close> passes to \<open>ngx_palloc\<close>.
\<close>

definition ngx_base64_decoded_length :: "nat \<Rightarrow> nat" where
  "ngx_base64_decoded_length len = ((len + 3) div 4) * 3"

lemma length_b64_loop: "bits < 8 \<Longrightarrow> length (b64_loop buf bits cs) = (bits + 6 * length cs) div 8"
proof (induction buf bits cs rule: b64_loop.induct)
  case (1 buf bits)
  then show ?case by simp
next
  case (2 buf bits c cs)
  show ?case
  proof (cases "8 \<le> bits + 6")
    case True
    from 2(1) [OF refl refl True] 2(3) True
    have "length (b64_loop buf bits (c # cs)) = Suc ((bits + 6 - 8 + 6 * length cs) div 8)"
      by (simp add: b64_loop.simps Let_def)
    also have "\<dots> = (8 + (bits + 6 - 8 + 6 * length cs)) div 8" by simp
    also have "8 + (bits + 6 - 8 + 6 * length cs) = bits + 6 * length (c # cs)" using True by simp
    finally show ?thesis .
  next
    case False
    from 2(2) [OF refl refl False] False show ?thesis by (simp add: b64_loop.simps Let_def ac_simps)
  qed
qed

lemma string_scan_escapes:
  "string_scan cs raw n = Inr (r, e, rest) \<Longrightarrow>
   \<exists>w k. r = rev raw @ w \<and> e = n + k \<and> length (unescape w) + k = length w"
proof (induction cs raw n rule: string_scan.induct)
  case (1 raw n)
  then show ?case by simp
next
  case (2 c cs raw n)
  consider "c = CHR 0x22" | "c = CHR 0x5C" | "c \<noteq> CHR 0x22" "c \<noteq> CHR 0x5C" by blast
  then show ?case
  proof cases
    case 1
    with 2(3) have "r = rev raw @ [] \<and> e = n + 0 \<and> length (unescape []) + 0 = length ([]::bytes)" by simp
    then show ?thesis by blast
  next
    case c: 2
    show ?thesis
    proof (cases cs)
      case Nil
      with 2(3) c show ?thesis by simp
    next
      case (Cons d ds)
      with 2(3) c have d: "\<not> (d \<noteq> CHR 0x22 \<and> d \<noteq> CHR 0x5C)"
        and s: "string_scan ds (d # c # raw) (n + 1) = Inr (r, e, rest)"
        by (auto split: if_split_asm)
      from c have "c \<noteq> CHR 0x22" by simp
      from 2(1) [OF this c Cons d s] obtain w k
        where "r = rev (d # c # raw) @ w" "e = n + 1 + k" "length (unescape w) + k = length w" by blast
      then have "r = rev raw @ (c # d # w) \<and> e = n + (k + 1) \<and>
          length (unescape (c # d # w)) + (k + 1) = length (c # d # w)"
        using c by simp
      then show ?thesis by blast
    qed
  next
    case 3
    with 2(3) have ok: "\<not> (c < CHR 0x20 \<or> CHR 0x7E < c)"
      and s: "string_scan cs (c # raw) n = Inr (r, e, rest)"
      by (auto split: if_split_asm)
    from 2(2) [OF 3 ok s] obtain w k
      where "r = rev (c # raw) @ w" "e = n + k" "length (unescape w) + k = length w" by blast
    then have "r = rev raw @ (c # w) \<and> e = n + k \<and> length (unescape (c # w)) + k = length (c # w)"
      using 3 by simp
    then show ?thesis by blast
  qed
qed

section \<open>Properties\<close>

lemma dict_get_wf: "wf_dictionary d \<Longrightarrow> dict_get d k = Some v \<Longrightarrow> wf_key k \<and> wf_value v"
  by (auto simp: dict_get_def wf_dictionary_def find_Some_iff)

lemma ser_item_plain: "wf_item i \<Longrightarrow> ser_item i = [] \<or> hd (ser_item i) \<noteq> CHR '' ''"
  by (erule ser_item_head) simp

lemma parse_dictionary_single:
  assumes wf: "wf_key k" "wf_inner_list l" and len: "length (k @ ''='' @ ser_inner_list l) \<le> MAX_SFV_LENGTH"
  shows "parse_dictionary (k @ ''='' @ ser_inner_list l) [] =
    (NGX_OK \<lparr>d_entries = [\<lparr>e_key = k, e_value = MEMBER_INNER_LIST l\<rparr>], d_duplicate_keys = False\<rparr>, [])"
proof -
  let ?in = "k @ ''='' @ ser_inner_list l"
  let ?c = "\<lambda>r. \<lparr>c_start = ?in, c_rest = r, c_depth = 0, c_pool = []\<rparr>"
  have sp: "skip_sp (?c ?in) = ?c ?in" using key_no_space [OF wf(1), of "''='' @ ser_inner_list l" "?c ?in"] by simp
  have b: "parse_begin ?in [] = Inr (?c ?in)" using len sp by (simp add: parse_begin_def)
  have k: "read_key (?c ?in) = (NGX_OK k, ?c (CHR ''='' # ser_inner_list l))"
    using key.read_back [OF wf(1), of "CHR ''='' # ser_inner_list l" "?c ?in"]
    by (simp add: is_key_char_def is_lcalpha_def is_digit_def less_eq_char_def)
  have il: "read_inner_list (?c (ser_inner_list l)\<lparr>c_depth := Suc 0\<rparr>) = (NGX_OK l, ?c []\<lparr>c_depth := Suc 0\<rparr>)"
    using inner_list.read_back [OF wf(2), of "[]" "?c (ser_inner_list l)\<lparr>c_depth := Suc 0\<rparr>"]
    by (simp add: params_stop_def)
  have open_paren: "at_char CHR ''('' (?c (ser_inner_list l)\<lparr>c_depth := Suc 0\<rparr>)"
    by (simp add: at_char_def ser_inner_list_def)
  have v: "read_entry_value (?c (CHR ''='' # ser_inner_list l)) = (NGX_OK (MEMBER_INNER_LIST l), ?c [])"
    using il open_paren
    by (simp add: read_entry_value_def at_char_def advance_def read_member_def sfv_limits depth_down_def
        bnd_def ret_def)
  have cm: "read_comma (?c []) = (NGX_OK False, ?c [])"
    by (simp add: read_comma_def Let_def skip_ows_def eof_def ret_def)
  have ne: "?in \<noteq> []" using wf(1) by (simp add: wf_key_def)
  have "read_dict_loop [] False (?c ?in) =
      (NGX_OK \<lparr>d_entries = [\<lparr>e_key = k, e_value = MEMBER_INNER_LIST l\<rparr>], d_duplicate_keys = False\<rparr>, ?c [])"
    using k v cm ne
    by (subst read_dict_loop.simps) (simp add: bnd_def ret_def eof_def entry_slot_def entry_exists_def sfv_limits)
  then show ?thesis
    unfolding parse_dictionary_def parse_with_def b read_dictionary_def
    by (simp add: bnd_def ret_def eof_def parse_end_def skip_sp_def Let_def)
qed

text \<open>Serializing a parsed Item and parsing the result gives the same Item back: for every input the
  parser accepts, \<open>ngx_auth_httpsig_sfv_serialize_item\<close> succeeds in a pool that does not fail, and
  \<open>ngx_auth_httpsig_sfv_parse_item\<close> accepts its output (when within the length limit) as that Item.\<close>

lemma item_reparse:
  assumes "fst (parse_item input p) = NGX_OK x"
  shows "\<exists>s. serialize_item x [] = (NGX_OK s, []) \<and>
    (length s \<le> MAX_SFV_LENGTH \<longrightarrow> parse_item s [] = (NGX_OK x, []))"
proof -
  have wf: "wf_item x" using assms unfolding parse_item_def by (rule parse_with_produces [OF produces_read_item])
  show ?thesis
    using item.parse_ser [OF wf _ ser_item_plain [OF wf]] by (simp add: serialize_simps parse_item_def)
qed

lemma item_reparse_example:
  "\<exists>s. serialize_item \<lparr>it_bare = SFV_DECIMAL (- 12500), it_params = [\<lparr>p_key = ''a'', p_value = SFV_BOOLEAN True\<rparr>]\<rparr> []
       = (NGX_OK s, []) \<and>
    (length s \<le> MAX_SFV_LENGTH \<longrightarrow>
       parse_item s [] = (NGX_OK \<lparr>it_bare = SFV_DECIMAL (- 12500),
         it_params = [\<lparr>p_key = ''a'', p_value = SFV_BOOLEAN True\<rparr>]\<rparr>, []))"
proof (rule item_reparse)
  show "fst (parse_item ''-12.50;a'' []) =
      NGX_OK \<lparr>it_bare = SFV_DECIMAL (- 12500), it_params = [\<lparr>p_key = ''a'', p_value = SFV_BOOLEAN True\<rparr>]\<rparr>"
    by code_simp
qed

text \<open>C10: The signature parameters are a faithful canonical form: when a Signature-Input dictionary parses and
  holds an Inner List under a label, the text \<open>ngx_auth_httpsig_sfv_serialize_inner_list\<close> produces for it,
  put back behind the same label, parses to a dictionary with exactly that member.\<close>

theorem inner_list_reparse:
  assumes "fst (parse_dictionary input p) = NGX_OK d" and "dict_get d k = Some (MEMBER_INNER_LIST l)"
  shows "\<exists>s. serialize_inner_list l [] = (NGX_OK s, []) \<and>
    (length (k @ ''='' @ s) \<le> MAX_SFV_LENGTH \<longrightarrow>
     parse_dictionary (k @ ''='' @ s) [] =
       (NGX_OK \<lparr>d_entries = [\<lparr>e_key = k, e_value = MEMBER_INNER_LIST l\<rparr>], d_duplicate_keys = False\<rparr>, []))"
proof -
  have "wf_dictionary d"
    using assms(1) unfolding parse_dictionary_def by (rule parse_with_produces [OF produces_read_dictionary])
  from dict_get_wf [OF this assms(2)] parse_dictionary_single [of k l] show ?thesis
    by (simp add: serialize_simps)
qed

theorem inner_list_reparse_witness:
  "\<exists>s. serialize_inner_list
         \<lparr>il_items = [\<lparr>it_bare = SFV_STRING ''a'', it_params = []\<rparr>], il_params = [\<lparr>p_key = ''t'', p_value = SFV_INTEGER 7\<rparr>]\<rparr> []
       = (NGX_OK s, []) \<and>
    (length (''x'' @ ''='' @ s) \<le> MAX_SFV_LENGTH \<longrightarrow>
     parse_dictionary (''x'' @ ''='' @ s) [] =
       (NGX_OK \<lparr>d_entries = [\<lparr>e_key = ''x'', e_value = MEMBER_INNER_LIST
           \<lparr>il_items = [\<lparr>it_bare = SFV_STRING ''a'', it_params = []\<rparr>],
            il_params = [\<lparr>p_key = ''t'', p_value = SFV_INTEGER 7\<rparr>]\<rparr>\<rparr>], d_duplicate_keys = False\<rparr>, []))"
proof (rule inner_list_reparse)
  show "fst (parse_dictionary (''x=( '' @ [CHR 0x22] @ ''a'' @ [CHR 0x22] @ '' );t=07, y'') []) =
      NGX_OK \<lparr>d_entries = [\<lparr>e_key = ''x'', e_value = MEMBER_INNER_LIST
           \<lparr>il_items = [\<lparr>it_bare = SFV_STRING ''a'', it_params = []\<rparr>],
            il_params = [\<lparr>p_key = ''t'', p_value = SFV_INTEGER 7\<rparr>]\<rparr>\<rparr>,
         \<lparr>e_key = ''y'', e_value = MEMBER_ITEM \<lparr>it_bare = SFV_BOOLEAN True, it_params = []\<rparr>\<rparr>],
         d_duplicate_keys = False\<rparr>"
    by code_simp
qed code_simp

text \<open>The canonical text determines the value: two Inner Lists taken from parsed dictionaries that
  serialize to the same text are equal, so a signature over the serialized parameters covers one
  component list and one set of parameters only.\<close>

lemma inner_list_canonical:
  assumes "fst (parse_dictionary inp p) = NGX_OK d" and "dict_get d k = Some (MEMBER_INNER_LIST l)"
    and "fst (parse_dictionary inp' p') = NGX_OK d'" and "dict_get d' k' = Some (MEMBER_INNER_LIST l')"
    and "fst (serialize_inner_list l q) = NGX_OK s" and "fst (serialize_inner_list l' q') = NGX_OK s"
  shows "l = l'"
proof -
  have "wf_dictionary d" "wf_dictionary d'"
    using assms(1,3) unfolding parse_dictionary_def by (auto intro: parse_with_produces [OF produces_read_dictionary])
  then have wf: "wf_inner_list l" "wf_inner_list l'"
    using dict_get_wf [OF _ assms(2)] dict_get_wf [OF _ assms(4)] by auto
  have "s = ser_inner_list l" "s = ser_inner_list l'"
    using serialize_with_cases [OF writes_inner_list, of l q] serialize_with_cases [OF writes_inner_list, of l' q']
      assms(5,6) by (auto simp: serialize_inner_list_def)
  with inner_list.ser_inj [OF wf] show ?thesis by simp
qed

lemma inner_list_canonical_example:
  "\<lparr>il_items = [], il_params = [\<lparr>p_key = ''t'', p_value = SFV_INTEGER 7\<rparr>]\<rparr> =
   \<lparr>il_items = [], il_params = [\<lparr>p_key = ''t'', p_value = SFV_INTEGER 7\<rparr>]\<rparr>"
  by (rule inner_list_canonical [where inp = "''x=();t=7''" and inp' = "''y=( );t=007''" and k = "''x''" and k' = "''y''"
        and p = "[]" and p' = "[]" and q = "[]" and q' = "[]" and s = "''();t=7''"
        and d = "\<lparr>d_entries = [\<lparr>e_key = ''x'', e_value = MEMBER_INNER_LIST
           \<lparr>il_items = [], il_params = [\<lparr>p_key = ''t'', p_value = SFV_INTEGER 7\<rparr>]\<rparr>\<rparr>], d_duplicate_keys = False\<rparr>"
        and d' = "\<lparr>d_entries = [\<lparr>e_key = ''y'', e_value = MEMBER_INNER_LIST
           \<lparr>il_items = [], il_params = [\<lparr>p_key = ''t'', p_value = SFV_INTEGER 7\<rparr>]\<rparr>\<rparr>], d_duplicate_keys = False\<rparr>"])
    code_simp+

text \<open>C14: What the parser accepts is within every limit of the header: at most 64 members with distinct keys
  (a repeated key overwrites in place), at most 64 items and 16 distinct parameters each, valid key,
  token and string characters, and integers and scaled decimals below \<open>10 ^ 15\<close> in magnitude, so that
  they fit \<open>int64_t\<close>.\<close>

theorem parse_dictionary_wf:
  assumes "fst (parse_dictionary input p) = NGX_OK d"
  shows "wf_dictionary d"
  using assms unfolding parse_dictionary_def by (rule parse_with_produces [OF produces_read_dictionary])

theorem parse_dictionary_wf_witness:
  "wf_dictionary \<lparr>d_entries = [\<lparr>e_key = ''a'', e_value = MEMBER_ITEM \<lparr>it_bare = SFV_INTEGER 2, it_params = []\<rparr>\<rparr>,
     \<lparr>e_key = ''b'', e_value = MEMBER_ITEM \<lparr>it_bare = SFV_BOOLEAN True, it_params = []\<rparr>\<rparr>],
     d_duplicate_keys = True\<rparr>"
proof (rule parse_dictionary_wf)
  show "fst (parse_dictionary ''a=1,b,a=2'' []) =
    NGX_OK \<lparr>d_entries = [\<lparr>e_key = ''a'', e_value = MEMBER_ITEM \<lparr>it_bare = SFV_INTEGER 2, it_params = []\<rparr>\<rparr>,
     \<lparr>e_key = ''b'', e_value = MEMBER_ITEM \<lparr>it_bare = SFV_BOOLEAN True, it_params = []\<rparr>\<rparr>],
     d_duplicate_keys = True\<rparr>"
    by code_simp
qed

text \<open>Decoding never writes past its buffer: the unescaped String has exactly the length passed to
  \<open>ngx_palloc\<close> (raw length less the escapes), and a decoded Byte Sequence at most
  \<open>ngx_base64_decoded_length\<close> of the encoded one.\<close>

lemma decoded_values_fit:
  "(string_scan cs [] 0 = Inr (raw, escapes, rest) \<longrightarrow>
      escapes \<le> length raw \<and> length (unescape raw) = length raw - escapes)
   \<and> (ngx_decode_base64 encoded = Some out \<longrightarrow> length out \<le> ngx_base64_decoded_length (length encoded))"
proof (intro conjI impI)
  assume "string_scan cs [] 0 = Inr (raw, escapes, rest)"
  from string_scan_escapes [OF this]
  show "escapes \<le> length raw" "length (unescape raw) = length raw - escapes" by auto
next
  assume "ngx_decode_base64 encoded = Some out"
  then have "length out = (6 * length (takeWhile (\<lambda>c. c \<noteq> CHR ''='') encoded)) div 8"
    by (auto simp: ngx_decode_base64_def Let_def length_b64_loop split: if_splits)
  also have "\<dots> \<le> (6 * length encoded) div 8"
    by (intro div_le_mono mult_le_mono2 length_takeWhile_le)
  also have "\<dots> \<le> ngx_base64_decoded_length (length encoded)"
    unfolding ngx_base64_decoded_length_def by linarith
  finally show "length out \<le> ngx_base64_decoded_length (length encoded)" .
qed

lemma decoded_values_fit_example:
  "(2 \<le> length [CHR ''a'', CHR 0x5C, CHR 0x22, CHR 0x5C, CHR 0x5C]
     \<and> length (unescape [CHR ''a'', CHR 0x5C, CHR 0x22, CHR 0x5C, CHR 0x5C]) = 3)
   \<and> length ''ab'' \<le> ngx_base64_decoded_length (length ''YWI='')"
proof -
  have "string_scan [CHR ''a'', CHR 0x5C, CHR 0x22, CHR 0x5C, CHR 0x5C, CHR 0x22] [] 0 =
      Inr ([CHR ''a'', CHR 0x5C, CHR 0x22, CHR 0x5C, CHR 0x5C], 2, [CHR 0x22])" by code_simp
  moreover have "ngx_decode_base64 ''YWI='' = Some ''ab''" by code_simp
  ultimately show ?thesis
    using decoded_values_fit [of "[CHR ''a'', CHR 0x5C, CHR 0x22, CHR 0x5C, CHR 0x5C, CHR 0x22]"
        "[CHR ''a'', CHR 0x5C, CHR 0x22, CHR 0x5C, CHR 0x5C]" 2 "[CHR 0x22]" "''YWI=''" "''ab''"] by simp
qed

end
