(* ===== verification/Sfv_Alloc.thy ===== *)
theory Sfv_Alloc
  imports Sfv_Roundtrip
begin

text \<open>
  Allocation failure in the Structured Field parser: the interpretation of \<open>alloc_state\<close> on the
  parse context, and its consequences up to the entry points.  A parse either has the outcome it
  has in a pool that never fails, or is \<open>NGX_ERROR\<close>: a failing pool never turns a well-formed
  field into a malformed one, or the reverse.
\<close>

interpretation ctx_st: alloc_state c_pool set_pool
  by unfold_locales (simp_all add: set_pool_def)

abbreviation sfv_transparent_at :: "'a reader \<Rightarrow> sfv_ctx \<Rightarrow> bool" where
  "sfv_transparent_at \<equiv> transparent_at set_pool"

lemma set_pool_fields [simp]:
  "c_rest (set_pool p s) = c_rest s" "c_start (set_pool p s) = c_start s"
  "c_depth (set_pool p s) = c_depth s" "c_pool (set_pool p s) = p"
  "(set_pool p s)\<lparr>c_rest := r\<rparr> = set_pool p (s\<lparr>c_rest := r\<rparr>)"
  "(set_pool p s)\<lparr>c_depth := d\<rparr> = set_pool p (s\<lparr>c_depth := d\<rparr>)"
  by (simp_all add: set_pool_def)

lemma set_pool_prims [simp]:
  "at_char c (set_pool p s) = at_char c s" "eof (set_pool p s) = eof s" "at_digit (set_pool p s) = at_digit s"
  "advance (set_pool p s) = set_pool p (advance s)" "skip_sp (set_pool p s) = set_pool p (skip_sp s)"
  "skip_ows (set_pool p s) = set_pool p (skip_ows s)"
  by (simp_all add: at_char_def eof_def at_digit_def advance_def skip_sp_def skip_ows_def)

lemma transp_fail: "sfv_transparent_at (sfv_fail r) s"
  by (simp add: transparent_at_def sfv_fail_def)

lemma transp_palloc: "sfv_transparent_at ctx_palloc s"
  unfolding ctx_palloc_def by (rule ctx_st.transparent_palloc)

lemma transp_read_key: "sfv_transparent_at read_key s"
  by (simp add: transparent_at_def read_key_def sfv_fail_def split: list.splits)

lemma transp_read_token: "sfv_transparent_at read_token s"
  by (simp add: transparent_at_def read_token_def sfv_fail_def split: list.splits)

lemma transp_read_boolean: "sfv_transparent_at read_boolean s"
  by (simp add: transparent_at_def read_boolean_def sfv_fail_def Let_def)

lemma transp_read_number: "sfv_transparent_at read_number s"
proof -
  let ?s = "if at_char CHR ''-'' s then advance s else s"
  have e: "(if at_char CHR ''-'' s then advance (set_pool [] s) else set_pool [] s) = set_pool [] ?s" by simp
  show ?thesis
    unfolding transparent_at_def read_number_def Let_def set_pool_prims(1) e
    by (simp add: sfv_fail_def split: sum.splits prod.splits)
qed

lemmas transp_intros =
  ctx_st.transparent_rules transp_fail transp_palloc transp_read_key transp_read_token
  transp_read_boolean transp_read_number

lemma transp_step: "sfv_transparent_at (\<lambda>ctx. (NGX_OK x, advance ctx)) s"
  by (simp add: transparent_at_def)

lemma transp_read_string: "sfv_transparent_at read_string s"
proof (cases "at_char CHR 0x22 s")
  case False
  then show ?thesis by (simp add: transparent_at_def read_string_def sfv_fail_def)
next
  case True
  show ?thesis
  proof (cases "string_scan (c_rest (advance s)) [] 0")
    case (Inl f)
    with True show ?thesis
      by (cases f) (simp add: transparent_at_def read_string_def sfv_fail_def Let_def)
  next
    case (Inr f)
    obtain raw e rest where f: "f = (raw, e, rest)" by (cases f)
    have "sfv_transparent_at (bnd ctx_palloc (\<lambda>_ ctx. (NGX_OK (unescape raw), advance ctx)))
        (advance s\<lparr>c_rest := rest\<rparr>)"
      by (intro transp_intros transp_step)
    with True Inr f show ?thesis by (simp add: transparent_at_def read_string_def Let_def)
  qed
qed

lemma transp_read_byte_sequence: "sfv_transparent_at read_byte_sequence s"
proof -
  let ?enc = "takeWhile (\<lambda>c. c \<noteq> CHR '':'') (c_rest (advance s))"
  let ?s = "advance s\<lparr>c_rest := dropWhile (\<lambda>c. c \<noteq> CHR '':'') (c_rest (advance s))\<rparr>"
  have dec: "sfv_transparent_at (\<lambda>ctx. case ngx_decode_base64 enc of
      None \<Rightarrow> sfv_fail ''invalid byte sequence encoding'' ctx | Some out \<Rightarrow> (NGX_OK out, ctx)) t" for enc t
    by (simp add: transparent_at_def sfv_fail_def split: option.splits)
  have "sfv_transparent_at (bnd ctx_palloc (\<lambda>_ ctx. case ngx_decode_base64 ?enc of
      None \<Rightarrow> sfv_fail ''invalid byte sequence encoding'' ctx | Some out \<Rightarrow> (NGX_OK out, ctx))) (advance ?s)"
    by (intro ctx_st.transparent_bnd transp_palloc dec)
  then show ?thesis
    by (cases "pad_scan ?enc 0") (simp_all add: transparent_at_def read_byte_sequence_def sfv_fail_def Let_def)
qed

lemma transp_read_bare_item: "sfv_transparent_at read_bare_item s"
proof (cases "c_rest s")
  case Nil
  then show ?thesis by (simp add: transparent_at_def read_bare_item_def sfv_fail_def)
next
  case (Cons c cs)
  have "sfv_transparent_at (bnd read_string (\<lambda>s. ret (SFV_STRING s))) s"
    "sfv_transparent_at (bnd read_byte_sequence (\<lambda>s. ret (SFV_BYTE_SEQUENCE s))) s"
    "sfv_transparent_at (bnd read_token (\<lambda>s. ret (SFV_TOKEN s))) s"
    "sfv_transparent_at read_number s" "sfv_transparent_at read_boolean s"
    "sfv_transparent_at (sfv_fail ''unrecognized bare item'') s"
    by (intro transp_intros transp_read_string transp_read_byte_sequence)+
  with Cons show ?thesis
    unfolding transparent_at_def read_bare_item_def by (simp split del: if_split) (simp add: sfv_fail_def split: if_split)
qed

lemma transp_param_slot: "sfv_transparent_at (param_slot ps k) s"
  unfolding param_slot_def by (intro transparent_if transp_intros refl)

lemma transp_read_params_loop: "sfv_transparent_at (read_params_loop ps) s"
proof (induction ps s rule: read_params_loop.induct)
  case (1 params ctx)
  let ?body = "\<lambda>key ctx. bnd (param_slot params key) (\<lambda>_ ctx.
          if at_char CHR ''='' ctx then
            bnd read_bare_item (\<lambda>v ctx. read_params_loop (param_set params key v) ctx) (advance ctx)
          else read_params_loop (param_set params key (SFV_BOOLEAN True)) ctx) ctx"
  have eq: "read_params_loop params = (\<lambda>ctx. if \<not> at_char CHR '';'' ctx then ret params ctx
      else bnd read_key ?body (skip_sp (advance ctx)))"
    by (rule ext) (rule read_params_loop.simps)
  show ?case
  proof (subst eq, rule transparent_if)
    show "sfv_transparent_at (ret params) ctx" by (rule ctx_st.transparent_ret)
  next
    assume semi: "\<not> \<not> at_char CHR '';'' ctx"
    have "sfv_transparent_at (bnd read_key ?body) (skip_sp (advance ctx))"
    proof (intro ctx_st.transparent_bnd transp_read_key transp_param_slot transparent_if)
      fix key c1 u c2
      assume k: "read_key (skip_sp (advance ctx)) = (NGX_OK key, c1)"
        and p: "param_slot params key c1 = (NGX_OK u, c2)" and e: "at_char CHR ''='' c2"
      have "sfv_transparent_at (bnd read_bare_item (\<lambda>v ctx. read_params_loop (param_set params key v) ctx)) (advance c2)"
        using 1(1) [OF semi k p e] by (intro ctx_st.transparent_bnd transp_read_bare_item)
      then show "sfv_transparent_at (\<lambda>ctx. bnd read_bare_item (\<lambda>v ctx. read_params_loop (param_set params key v) ctx) (advance ctx)) c2"
        by (rule transparent_comp [rotated]) simp
    next
      fix key c1 u c2
      assume k: "read_key (skip_sp (advance ctx)) = (NGX_OK key, c1)"
        and p: "param_slot params key c1 = (NGX_OK u, c2)" and e: "\<not> at_char CHR ''='' c2"
      show "sfv_transparent_at (read_params_loop (param_set params key (SFV_BOOLEAN True))) c2"
        by (rule 1(2) [OF semi k p e])
    qed simp
    then show "sfv_transparent_at (\<lambda>ctx. bnd read_key ?body (skip_sp (advance ctx))) ctx"
      by (rule transparent_comp [rotated]) simp
  qed simp
qed

lemma transp_read_parameters: "sfv_transparent_at read_parameters s"
  unfolding read_parameters_def by (intro transp_intros transp_read_params_loop)

lemma transp_read_item: "sfv_transparent_at read_item s"
  unfolding read_item_def by (intro transp_intros transp_read_bare_item transp_read_parameters)

lemma transp_read_items_loop: "sfv_transparent_at (read_items_loop xs) s"
proof (induction xs s rule: read_items_loop.induct)
  case (1 items ctx)
  let ?next = "\<lambda>item ctx. if at_char CHR '')'' ctx then ret (items @ [item]) ctx
        else if \<not> at_char CHR '' '' ctx then sfv_fail ''expected a space in inner list'' ctx
        else read_items_loop (items @ [item]) (skip_sp ctx)"
  have eq: "read_items_loop items = (\<lambda>ctx. if eof ctx \<or> at_char CHR '')'' ctx then ret items ctx
      else if MAX_SFV_ITEMS \<le> length items then sfv_fail ''too many inner list items'' ctx
      else bnd ctx_palloc (\<lambda>_ ctx. bnd read_item ?next ctx) ctx)"
    by (rule ext) (rule read_items_loop.simps)
  show ?case
  proof (subst eq, intro transparent_if ctx_st.transparent_ret transp_fail ctx_st.transparent_bnd
      transp_palloc transp_read_item)
    fix u c1 item c2
    assume go: "\<not> (eof ctx \<or> at_char CHR '')'' ctx)" "\<not> MAX_SFV_ITEMS \<le> length items"
      "ctx_palloc ctx = (NGX_OK u, c1)" "read_item c1 = (NGX_OK item, c2)"
      "\<not> at_char CHR '')'' c2" "\<not> \<not> at_char CHR '' '' c2"
    show "sfv_transparent_at (\<lambda>ctx. read_items_loop (items @ [item]) (skip_sp ctx)) c2"
      using 1 [OF go] by (intro transparent_comp [where g = skip_sp and m = "read_items_loop _"]) simp_all
  qed simp_all
qed

lemma transp_read_inner_list: "sfv_transparent_at read_inner_list s"
proof -
  let ?tail = "\<lambda>items. \<lambda>ctx. if eof ctx then sfv_fail ''unterminated inner list'' ctx
         else bnd read_parameters (\<lambda>ps. ret \<lparr>il_items = items, il_params = ps\<rparr>) (advance ctx)"
  have t: "sfv_transparent_at (?tail items) s" for items s
    by (intro transparent_if transp_fail transparent_comp [where g = advance and m = "bnd _ _"]
        ctx_st.transparent_bnd ctx_st.transparent_ret transp_read_parameters) simp_all
  have "sfv_transparent_at (\<lambda>ctx. bnd (read_items_loop []) ?tail (skip_sp ctx)) s" for s
    by (intro transparent_comp [where g = skip_sp and m = "bnd _ _"] ctx_st.transparent_bnd
        transp_read_items_loop t) simp
  then have "sfv_transparent_at (bnd ctx_palloc (\<lambda>_ ctx. bnd (read_items_loop []) ?tail (skip_sp ctx))) s" for s
    by (intro ctx_st.transparent_bnd transp_palloc)
  then show ?thesis
    unfolding read_inner_list_def by (intro transparent_comp [where g = advance and m = "bnd _ _"]) simp_all
qed

lemma transp_read_member: "sfv_transparent_at read_member s"
proof -
  let ?m = "\<lambda>ctx. if at_char CHR ''('' ctx then bnd read_inner_list (\<lambda>l. ret (MEMBER_INNER_LIST l)) ctx
               else bnd read_item (\<lambda>i. ret (MEMBER_ITEM i)) ctx"
  have m: "sfv_transparent_at ?m s" for s
    by (intro transparent_if ctx_st.transparent_bnd transp_read_inner_list transp_read_item
        ctx_st.transparent_ret) simp
  have d: "sfv_transparent_at (depth_down ?m) t" for t
    using m [of t] by (auto simp: transparent_at_def depth_down_def split: prod.splits)
  show ?thesis
    unfolding read_member_def
    by (intro transparent_if transp_fail
        transparent_comp [where g = "\<lambda>ctx. ctx\<lparr>c_depth := c_depth ctx + 1\<rparr>" and m = "depth_down ?m"] d) simp_all
qed

lemma transp_entry_slot: "sfv_transparent_at (entry_slot es k) s"
  unfolding entry_slot_def by (intro transparent_if transp_intros refl)

lemma transp_read_entry_value: "sfv_transparent_at read_entry_value s"
  unfolding read_entry_value_def
  by (intro transparent_if transparent_comp [where g = advance and m = read_member] transp_read_member
      ctx_st.transparent_bnd ctx_st.transparent_ret transp_read_parameters) simp_all

lemma transp_read_comma: "sfv_transparent_at read_comma s"
  by (simp add: transparent_at_def read_comma_def Let_def sfv_fail_def ret_def)

lemma transp_read_dict_loop: "sfv_transparent_at (read_dict_loop es d) s"
proof (induction es d s rule: read_dict_loop.induct)
  case (1 es d ctx)
  let ?fin = "\<lambda>key v. \<lambda>more ctx. if more
      then read_dict_loop (entry_set es key v) (d \<or> entry_exists es key) ctx
      else ret \<lparr>d_entries = entry_set es key v, d_duplicate_keys = d \<or> entry_exists es key\<rparr> ctx"
  have eq: "read_dict_loop es d = (\<lambda>ctx. if eof ctx then ret \<lparr>d_entries = es, d_duplicate_keys = d\<rparr> ctx
      else bnd read_key (\<lambda>key ctx. bnd (entry_slot es key) (\<lambda>_ ctx.
        bnd read_entry_value (\<lambda>v ctx. bnd read_comma (?fin key v) ctx) ctx) ctx) ctx)"
    by (rule ext) (rule read_dict_loop.simps)
  show ?case
  proof (subst eq, intro transparent_if ctx_st.transparent_ret ctx_st.transparent_bnd transp_read_key
      transp_entry_slot transp_read_entry_value transp_read_comma)
    fix key c1 u c2 v c3 more c4
    assume "\<not> eof ctx" "read_key ctx = (NGX_OK key, c1)" "entry_slot es key c1 = (NGX_OK u, c2)"
      "read_entry_value c2 = (NGX_OK v, c3)" "read_comma c3 = (NGX_OK more, c4)" more
    then show "sfv_transparent_at (read_dict_loop (entry_set es key v) (d \<or> entry_exists es key)) c4"
      by (rule 1)
  qed simp_all
qed

lemma transp_read_dictionary: "sfv_transparent_at read_dictionary s"
  unfolding read_dictionary_def by (intro transp_intros transp_read_dict_loop)

lemma transp_read_list_loop: "sfv_transparent_at (read_list_loop ms) s"
proof (induction ms s rule: read_list_loop.induct)
  case (1 ms ctx)
  have eq: "read_list_loop ms = (\<lambda>ctx. if eof ctx then ret \<lparr>l_members = ms\<rparr> ctx
      else if MAX_SFV_ITEMS \<le> length ms then sfv_fail ''too many list members'' ctx
      else bnd ctx_palloc (\<lambda>_ ctx. bnd read_member (\<lambda>m ctx. bnd read_comma (\<lambda>more ctx.
            if more then read_list_loop (ms @ [m]) ctx
            else ret \<lparr>l_members = ms @ [m]\<rparr> ctx) ctx) ctx) ctx)"
    by (rule ext) (rule read_list_loop.simps)
  show ?case
  proof (subst eq, intro transparent_if ctx_st.transparent_ret ctx_st.transparent_bnd transp_fail
      transp_palloc transp_read_member transp_read_comma)
    fix u c1 m c2 more c3
    assume "\<not> eof ctx" "\<not> MAX_SFV_ITEMS \<le> length ms" "ctx_palloc ctx = (NGX_OK u, c1)"
      "read_member c1 = (NGX_OK m, c2)" "read_comma c2 = (NGX_OK more, c3)" more
    then show "sfv_transparent_at (read_list_loop (ms @ [m])) c3" by (rule 1)
  qed simp_all
qed

lemma transp_read_list: "sfv_transparent_at read_list s"
  unfolding read_list_def by (intro transp_intros transp_read_list_loop)

lemma transp_parse_end: "sfv_transparent_at parse_end s"
  by (simp add: transparent_at_def parse_end_def Let_def sfv_fail_def ret_def)

lemma parse_with_transparent:
  assumes "\<And>s. sfv_transparent_at m s"
  shows "transparent_at (\<lambda>p s. p) (parse_with m input) p"
proof (cases "MAX_SFV_LENGTH < length input")
  case True
  then show ?thesis by (simp add: transparent_at_def parse_with_def parse_begin_def)
next
  case False
  let ?c = "\<lambda>p. skip_sp \<lparr>c_start = input, c_rest = input, c_depth = 0, c_pool = p\<rparr>"
  let ?m = "bnd ctx_palloc (\<lambda>_. bnd m (\<lambda>x. bnd parse_end (\<lambda>_. ret x)))"
  have t: "sfv_transparent_at ?m (?c p)"
    by (intro ctx_st.transparent_bnd transp_palloc assms transp_parse_end ctx_st.transparent_ret)
  have c: "?c [] = set_pool [] (?c p)" by (simp add: set_pool_def skip_sp_def)
  show ?thesis
  proof (rule transparentI)
    fix r p'
    assume "parse_with m input p = (r, p')" and ne: "r \<noteq> NGX_ERROR"
    with False obtain c' where "?m (?c p) = (r, c')"
      by (cases "?m (?c p)") (simp add: parse_with_def parse_begin_def)
    from transparentD [OF t this ne] have "?m (?c []) = (r, set_pool [] c')" unfolding c .
    with False show "parse_with m input [] = (r, [])"
      by (simp add: parse_with_def parse_begin_def)
  qed
qed

lemmas parse_transparent =
  parse_with_transparent [OF transp_read_dictionary, folded parse_dictionary_def]
  parse_with_transparent [OF transp_read_list, folded parse_list_def]
  parse_with_transparent [OF transp_read_item, folded parse_item_def]

section \<open>Properties\<close>

text \<open>Allocation failure never changes what a field means: whatever allocations fail, each entry point
  either returns \<open>NGX_ERROR\<close> or exactly the value, or the error offset and reason, that it returns in a
  pool that never fails.\<close>

lemma parse_alloc_transparent:
  "fst (parse_dictionary input p) \<in> {NGX_ERROR, fst (parse_dictionary input [])}
   \<and> fst (parse_list input p) \<in> {NGX_ERROR, fst (parse_list input [])}
   \<and> fst (parse_item input p) \<in> {NGX_ERROR, fst (parse_item input [])}"
  using parse_transparent [of input p] by (auto simp: transparent_at_def)

end
