(* ===== verification/Base.thy ===== *)
theory Base
  imports Sfv_Alloc
begin

text \<open>
  The RFC 9421 signature base (\<open>src/ngx_auth_httpsig_base.h\<close>, \<open>src/ngx_auth_httpsig_base.c\<close>): the
  request snapshot, the bounded output buffer, form-urlencoded query handling, derived components,
  field components, and \<open>ngx_auth_httpsig_base_build\<close>.

  Every function that allocates runs on a pool; pointers into the query string are suffixes of it.
\<close>

unbundle bit_operations_syntax

section \<open>Data\<close>

record header =
  h_name :: bytes
  h_value :: bytes

record request =
  rq_method :: bytes
  rq_scheme :: bytes
  rq_authority :: bytes
  rq_path :: bytes
  rq_query :: bytes
  rq_has_query :: bool
  rq_request_target :: bytes
  rq_target_defined :: bool
  rq_headers :: "header list"

datatype base_reason =
    BASE_OK
  | BASE_UNKNOWN_COMPONENT
  | BASE_UNSUPPORTED_PARAM
  | BASE_DUPLICATE_COMPONENT
  | BASE_MISSING_FIELD
  | BASE_UNDEFINED_TARGET
  | BASE_TOO_LONG

definition MAX_BASE_LENGTH :: nat where "MAX_BASE_LENGTH = 16384"

text \<open>The \<open>value\<close> member of a bare item; the members the parser does not fill are empty.\<close>

fun bare_value :: "sfv_bare \<Rightarrow> bytes" where
  "bare_value (SFV_STRING s) = s"
| "bare_value (SFV_TOKEN s) = s"
| "bare_value (SFV_BYTE_SEQUENCE s) = s"
| "bare_value _ = []"

type_synonym 'a base_op = "(pool, base_reason, 'a) op"

section \<open>The output buffer\<close>

record base_buf =
  b_data :: bytes
  b_cap :: nat

definition buf_put :: "bytes \<Rightarrow> (base_buf, unit, unit) op" where
  "buf_put d buf =
     (if b_cap buf < length (b_data buf) + length d then declined () buf
      else (NGX_OK (), buf\<lparr>b_data := b_data buf @ d\<rparr>))"

text \<open>The chains \<open>put(..) != NGX_OK || put(..) != NGX_OK || ...\<close>.\<close>

fun buf_puts :: "bytes list \<Rightarrow> (base_buf, unit, unit) op" where
  "buf_puts [] buf = ret () buf"
| "buf_puts (d # ds) buf = bnd (buf_put d) (\<lambda>_. buf_puts ds) buf"

section \<open>Targets\<close>

definition reject_params :: "sfv_param list \<Rightarrow> unit base_op" where
  "reject_params params = (if params \<noteq> [] then declined BASE_UNSUPPORTED_PARAM else ret ())"

definition effective_path :: "request \<Rightarrow> bytes" where
  "effective_path req = (if rq_path req = [] then ''/'' else rq_path req)"

definition base_query :: "request \<Rightarrow> bytes base_op" where
  "base_query req = bnd pool_alloc (\<lambda>_. ret (CHR ''?'' # rq_query req))"

definition target_uri :: "request \<Rightarrow> bytes base_op" where
  "target_uri req =
     (let path = effective_path req;
          cap = length (rq_scheme req) + 3 + length (rq_authority req) + length path
                + (if rq_has_query req then 1 + length (rq_query req) else 0)
      in bnd pool_alloc (\<lambda>_ pool.
        case buf_puts ([rq_scheme req, ''://'', rq_authority req, path]
               @ (if rq_has_query req then [''?'', rq_query req] else []))
               \<lparr>b_data = [], b_cap = cap\<rparr> of
          (NGX_OK _, buf) \<Rightarrow> (NGX_OK (b_data buf), pool)
        | _ \<Rightarrow> (NGX_ERROR, pool)))"

section \<open>Form-urlencoded text\<close>

definition is_hex :: "char \<Rightarrow> bool" where
  "is_hex c \<longleftrightarrow> (CHR ''0'' \<le> c \<and> c \<le> CHR ''9'') \<or> (CHR ''a'' \<le> c \<and> c \<le> CHR ''f'')
     \<or> (CHR ''A'' \<le> c \<and> c \<le> CHR ''F'')"

definition hex_val :: "char \<Rightarrow> nat" where
  "hex_val c =
     (if CHR ''0'' \<le> c \<and> c \<le> CHR ''9'' then code_of c - code_of CHR ''0''
      else if CHR ''a'' \<le> c \<and> c \<le> CHR ''f'' then code_of c - code_of CHR ''a'' + 10
      else code_of c - code_of CHR ''A'' + 10)"

text \<open>\<open>(hex_val(a) << 4) | hex_val(b)\<close>, cast to \<open>u_char\<close>.\<close>

definition hex_byte :: "char \<Rightarrow> char \<Rightarrow> char" where
  "hex_byte a b = char_of (push_bit 4 (hex_val a) OR hex_val b)"

fun qs_key_eq :: "bytes \<Rightarrow> bytes \<Rightarrow> bool" where
  "qs_key_eq [] target = (target = [])"
| "qs_key_eq (r # raw) target =
     (let (c, raw') =
        (if r = CHR ''+'' then (CHR '' '', raw)
         else case raw of
           a # b # rest \<Rightarrow> if r = CHR ''%'' \<and> is_hex a \<and> is_hex b then (hex_byte a b, rest) else (r, raw)
         | _ \<Rightarrow> (r, raw))
      in case target of
           [] \<Rightarrow> False
         | t # ts \<Rightarrow> if t \<noteq> c then False else qs_key_eq raw' ts)"

fun qs_decode_loop :: "bytes \<Rightarrow> bytes" where
  "qs_decode_loop [] = []"
| "qs_decode_loop (r # raw) =
     (if r = CHR ''+'' then CHR '' '' # qs_decode_loop raw
      else case raw of
        a # b # rest \<Rightarrow>
          if r = CHR ''%'' \<and> is_hex a \<and> is_hex b then hex_byte a b # qs_decode_loop rest
          else r # qs_decode_loop raw
      | _ \<Rightarrow> r # qs_decode_loop raw)"

definition qs_decode :: "bytes \<Rightarrow> bytes base_op" where
  "qs_decode raw = (if raw = [] then ret [] else bnd pool_alloc (\<lambda>_. ret (qs_decode_loop raw)))"

definition qs_unreserved :: "char \<Rightarrow> bool" where
  "qs_unreserved c \<longleftrightarrow> (CHR ''0'' \<le> c \<and> c \<le> CHR ''9'') \<or> (CHR ''A'' \<le> c \<and> c \<le> CHR ''Z'')
     \<or> (CHR ''a'' \<le> c \<and> c \<le> CHR ''z'') \<or> c = CHR ''*'' \<or> c = CHR ''-'' \<or> c = CHR ''.'' \<or> c = CHR ''_''"

definition qs_hex_digit :: "nat \<Rightarrow> char" where
  "qs_hex_digit i = ''0123456789ABCDEF'' ! i"

fun qs_encode_loop :: "bytes \<Rightarrow> bytes" where
  "qs_encode_loop [] = []"
| "qs_encode_loop (c # cs) =
     (if c = CHR '' '' then CHR ''+'' # qs_encode_loop cs
      else if qs_unreserved c then c # qs_encode_loop cs
      else CHR ''%'' # qs_hex_digit (drop_bit 4 (code_of c)) # qs_hex_digit (code_of c AND 0xf)
           # qs_encode_loop cs)"

definition qs_encode_cap :: "bytes \<Rightarrow> nat" where
  "qs_encode_cap s = sum_list (map (\<lambda>c. if c = CHR '' '' \<or> qs_unreserved c then 1 else 3) s)"

definition qs_encode :: "bytes \<Rightarrow> bytes base_op" where
  "qs_encode decoded =
     (if decoded = [] then ret [] else bnd pool_alloc (\<lambda>_. ret (qs_encode_loop decoded)))"

section \<open>@query-param\<close>

text \<open>
  One segment of the query is the text up to the next \<open>&\<close>; the key ends at the first \<open>=\<close> of the
  segment, the value is what follows it.  \<open>Inl ()\<close> is the second match, \<open>Inr\<close> the match found.
\<close>

function query_param_loop :: "bytes \<Rightarrow> bytes \<Rightarrow> bytes option \<Rightarrow> unit + bytes option" where
  "query_param_loop name p found =
     (if p = [] then Inr found
      else
        let seg = takeWhile (\<lambda>c. c \<noteq> CHR ''&'') p;
            key = takeWhile (\<lambda>c. c \<noteq> CHR ''='') seg;
            v = tl (dropWhile (\<lambda>c. c \<noteq> CHR ''='') seg);
            next = tl (dropWhile (\<lambda>c. c \<noteq> CHR ''&'') p)
        in if qs_key_eq key name then
             (if found \<noteq> None then Inl () else query_param_loop name next (Some v))
           else query_param_loop name next found)"
  by pat_completeness auto
termination
proof (relation "measure (\<lambda>(name, p, found). length p)", goal_cases)
  case 1
  show ?case by simp
next
  case (2 name p found seg key v nxt)
  then show ?case by (cases p) (auto intro: le_imp_less_Suc order_trans [OF diff_le_self length_dropWhile_le])
next
  case (3 name p found seg key v nxt)
  then show ?case by (cases p) (auto intro: le_imp_less_Suc order_trans [OF diff_le_self length_dropWhile_le])
qed

declare query_param_loop.simps [simp del]

definition query_param :: "request \<Rightarrow> sfv_item \<Rightarrow> bytes base_op" where
  "query_param req component =
     (case param_get (it_params component) ''name'' of
        Some (SFV_STRING name) \<Rightarrow>
          if length (it_params component) \<noteq> 1 then declined BASE_UNSUPPORTED_PARAM
          else bnd (qs_decode name) (\<lambda>decoded_name.
            case query_param_loop decoded_name (rq_query req) None of
              Inl _ \<Rightarrow> declined BASE_MISSING_FIELD
            | Inr None \<Rightarrow> declined BASE_MISSING_FIELD
            | Inr (Some value_raw) \<Rightarrow> bnd (qs_decode value_raw) qs_encode)
      | _ \<Rightarrow> declined BASE_UNKNOWN_COMPONENT)"

section \<open>Field components\<close>

definition signature_agent :: bytes where "signature_agent = ''signature-agent''"

definition field_values :: "request \<Rightarrow> bytes \<Rightarrow> bytes list" where
  "field_values req name = map h_value (filter (\<lambda>h. str_eq (h_name h) name) (rq_headers req))"

fun join_values :: "bytes list \<Rightarrow> bytes" where
  "join_values [] = []"
| "join_values [v] = v"
| "join_values (v # vs) = v @ '', '' @ join_values vs"

text \<open>\<open>NGX_DECLINED\<close> leaves the caller's reason alone; the callers all write \<open>MISSING_FIELD\<close>.\<close>

definition field_value :: "request \<Rightarrow> bytes \<Rightarrow> (pool, unit, bytes) op" where
  "field_value req name =
     (let vs = field_values req name in
      if vs = [] then declined () else bnd pool_alloc (\<lambda>_. ret (join_values vs)))"

definition field_agent_key :: "bytes \<Rightarrow> sfv_param list \<Rightarrow> bytes option" where
  "field_agent_key name params =
     (if \<not> str_eq name signature_agent then None
      else if params = [] \<or> 2 < length params then None
      else case param_get params ''key'' of
        Some (SFV_STRING key) \<Rightarrow>
          if length params = 2 then
            (case param_get params ''sf'' of
               Some (SFV_BOOLEAN b) \<Rightarrow> if b then Some key else None
             | _ \<Rightarrow> None)
          else Some key
      | _ \<Rightarrow> None)"

text \<open>The reason every \<open>NGX_DECLINED\<close> of a callee is reported with.\<close>

definition declined_as :: "'f \<Rightarrow> ('s, 'e, 'a) op \<Rightarrow> ('s, 'f, 'a) op" where
  "declined_as e m s =
     (case m s of
        (NGX_OK x, s') \<Rightarrow> (NGX_OK x, s')
      | (NGX_DECLINED _, s') \<Rightarrow> (NGX_DECLINED e, s')
      | (NGX_ERROR, s') \<Rightarrow> (NGX_ERROR, s'))"

definition field_agent_member :: "request \<Rightarrow> bytes \<Rightarrow> bytes base_op" where
  "field_agent_member req key =
     bnd (declined_as BASE_MISSING_FIELD (field_value req signature_agent)) (\<lambda>raw.
       bnd (declined_as BASE_MISSING_FIELD (parse_dictionary raw)) (\<lambda>dict.
         case dict_get dict key of
           None \<Rightarrow> declined BASE_MISSING_FIELD
         | Some (MEMBER_INNER_LIST l) \<Rightarrow> declined_as BASE_MISSING_FIELD (serialize_inner_list l)
         | Some (MEMBER_ITEM i) \<Rightarrow> declined_as BASE_MISSING_FIELD (serialize_item i)))"

definition base_field :: "request \<Rightarrow> sfv_item \<Rightarrow> bytes base_op" where
  "base_field req component =
     (let name = bare_value (it_bare component) in
      if \<exists>c\<in>set name. CHR ''A'' \<le> c \<and> c \<le> CHR ''Z'' then declined BASE_UNKNOWN_COMPONENT
      else case field_agent_key name (it_params component) of
        Some key \<Rightarrow> field_agent_member req key
      | None \<Rightarrow>
          bnd (reject_params (it_params component)) (\<lambda>_.
            declined_as BASE_MISSING_FIELD (field_value req name)))"

section \<open>Derived components\<close>

datatype derive_id =
    DERIVE_METHOD | DERIVE_SCHEME | DERIVE_AUTHORITY | DERIVE_PATH | DERIVE_QUERY
  | DERIVE_QUERY_PARAM | DERIVE_REQUEST_TARGET | DERIVE_TARGET_URI

record derive_entry =
  dv_name :: bytes
  dv_id :: derive_id
  dv_needs_target :: bool

definition derive_table :: "derive_entry list" where
  "derive_table =
     [\<lparr>dv_name = ''@method'', dv_id = DERIVE_METHOD, dv_needs_target = False\<rparr>,
      \<lparr>dv_name = ''@scheme'', dv_id = DERIVE_SCHEME, dv_needs_target = False\<rparr>,
      \<lparr>dv_name = ''@authority'', dv_id = DERIVE_AUTHORITY, dv_needs_target = False\<rparr>,
      \<lparr>dv_name = ''@path'', dv_id = DERIVE_PATH, dv_needs_target = True\<rparr>,
      \<lparr>dv_name = ''@query'', dv_id = DERIVE_QUERY, dv_needs_target = True\<rparr>,
      \<lparr>dv_name = ''@query-param'', dv_id = DERIVE_QUERY_PARAM, dv_needs_target = False\<rparr>,
      \<lparr>dv_name = ''@request-target'', dv_id = DERIVE_REQUEST_TARGET, dv_needs_target = False\<rparr>,
      \<lparr>dv_name = ''@target-uri'', dv_id = DERIVE_TARGET_URI, dv_needs_target = True\<rparr>]"

definition derive_value :: "derive_id \<Rightarrow> request \<Rightarrow> bytes base_op" where
  "derive_value i req =
     (case i of
        DERIVE_METHOD \<Rightarrow> ret (rq_method req)
      | DERIVE_SCHEME \<Rightarrow> ret (rq_scheme req)
      | DERIVE_AUTHORITY \<Rightarrow> ret (rq_authority req)
      | DERIVE_PATH \<Rightarrow> ret (effective_path req)
      | DERIVE_QUERY \<Rightarrow> base_query req
      | DERIVE_REQUEST_TARGET \<Rightarrow> ret (rq_request_target req)
      | DERIVE_TARGET_URI \<Rightarrow> target_uri req
      | DERIVE_QUERY_PARAM \<Rightarrow> declined BASE_UNKNOWN_COMPONENT)"

definition derive_component :: "request \<Rightarrow> sfv_item \<Rightarrow> bytes base_op" where
  "derive_component req component =
     (let name = bare_value (it_bare component) in
      if name = [] \<or> hd name \<noteq> CHR ''@'' then declined BASE_UNKNOWN_COMPONENT
      else case find (\<lambda>d. str_eq (dv_name d) name) derive_table of
        None \<Rightarrow> declined BASE_UNKNOWN_COMPONENT
      | Some d \<Rightarrow>
          if dv_id d = DERIVE_QUERY_PARAM then
            (if \<not> rq_target_defined req then declined BASE_UNDEFINED_TARGET
             else query_param req component)
          else bnd (reject_params (it_params component)) (\<lambda>_.
            if dv_needs_target d \<and> \<not> rq_target_defined req then declined BASE_UNDEFINED_TARGET
            else derive_value (dv_id d) req))"

section \<open>The signature base\<close>

definition component_value :: "request \<Rightarrow> sfv_item \<Rightarrow> bytes base_op" where
  "component_value req item =
     (if bare_value (it_bare item) \<noteq> [] \<and> hd (bare_value (it_bare item)) = CHR ''@''
      then derive_component req item else base_field req item)"

fun is_string :: "sfv_bare \<Rightarrow> bool" where
  "is_string (SFV_STRING s) = True"
| "is_string _ = False"

fun build_loop :: "request \<Rightarrow> sfv_item list \<Rightarrow> bytes list \<Rightarrow> base_buf \<Rightarrow> base_buf base_op" where
  "build_loop req [] labels buf pool = ret buf pool"
| "build_loop req (item # items) labels buf pool =
     (if \<not> is_string (it_bare item) then declined BASE_UNKNOWN_COMPONENT pool
      else case serialize_item item pool of
        (NGX_OK label, pool) \<Rightarrow>
          if \<exists>l\<in>set labels. str_eq label l then declined BASE_DUPLICATE_COMPONENT pool
          else bnd (component_value req item) (\<lambda>val pool.
            case buf_puts [label, '': '', val, [CHR 0x0A]] buf of
              (NGX_OK _, buf) \<Rightarrow> build_loop req items (labels @ [label]) buf pool
            | _ \<Rightarrow> declined BASE_TOO_LONG pool) pool
      | (_, pool) \<Rightarrow> (NGX_ERROR, pool))"

definition params_label :: bytes where
  "params_label = CHR 0x22 # ''@signature-params'' @ CHR 0x22 # '': ''"

definition base_build :: "request \<Rightarrow> sfv_inner_list \<Rightarrow> bytes base_op" where
  "base_build req covered =
     (if MAX_SFV_ITEMS < length (il_items covered) then declined BASE_TOO_LONG
      else bnd pool_alloc (\<lambda>_.
        bnd (build_loop req (il_items covered) [] \<lparr>b_data = [], b_cap = MAX_BASE_LENGTH\<rparr>) (\<lambda>buf pool.
          case serialize_inner_list covered pool of
            (NGX_OK params_value, pool) \<Rightarrow>
              (case buf_puts [params_label, params_value] buf of
                 (NGX_OK _, buf) \<Rightarrow> ret (b_data buf) pool
               | _ \<Rightarrow> declined BASE_TOO_LONG pool)
          | (_, pool) \<Rightarrow> (NGX_ERROR, pool))))"

end
