(* ===== verification/Base_Props.thy ===== *)
theory Base_Props
  imports Base
begin

text \<open>
  What the signature base guarantees: \<open>ngx_auth_httpsig_base_build\<close> succeeds exactly when every
  covered component has a value, none is covered twice and the text fits, and then returns the
  RFC 9421 text; the text determines the components, their values and the parameters; the in-place
  query key comparison decides equality of the decoded keys; the buffers are large enough.
\<close>

unbundle bit_operations_syntax

section \<open>Allocation failure\<close>

abbreviation pool_transparent :: "(pool, 'e, 'a) op \<Rightarrow> bool" where
  "pool_transparent m \<equiv> (\<forall>p. transparent_at (\<lambda>p s. p) m p)"

lemma transp_pool_alloc: "transparent_at (\<lambda>p s. p) pool_alloc p"
  unfolding pool_alloc_def by (rule pool_st.transparent_palloc)

lemmas pool_intros = pool_st.transparent_rules transp_pool_alloc

lemma transp_serialize_with: "writes m xs \<Longrightarrow> transparent_at (\<lambda>p s. p) (serialize_with m) p"
  using serialize_with_cases [of m xs p] serialize_with_Nil [of m xs]
  by (auto simp: transparent_at_def)

lemmas transp_serialize =
  transp_serialize_with [OF writes_item, folded serialize_item_def]
  transp_serialize_with [OF writes_inner_list, folded serialize_inner_list_def]

lemma transp_declined_as:
  "transparent_at upd m s \<Longrightarrow> transparent_at upd (declined_as e m) s"
  by (auto simp: transparent_at_def declined_as_def split: prod.splits rc.splits)

lemma transp_const: "r \<noteq> NGX_ERROR \<Longrightarrow> transparent_at (\<lambda>p s. p) (\<lambda>p. (r, p)) p"
  by (simp add: transparent_at_def)

lemma transp_reject_params: "transparent_at (\<lambda>p s. p) (reject_params ps) p"
  by (simp add: reject_params_def pool_intros)

lemma transp_qs: "transparent_at (\<lambda>p s. p) (qs_decode r) p" "transparent_at (\<lambda>p s. p) (qs_encode r) p"
  by (simp_all add: qs_decode_def qs_encode_def pool_intros)

lemma transp_query_param: "transparent_at (\<lambda>p s. p) (query_param req c) p"
  unfolding query_param_def
  by (auto intro!: pool_intros transp_qs split: option.splits sfv_bare.splits sum.splits)

lemma transp_field_value: "transparent_at (\<lambda>p s. p) (field_value req n) p"
  unfolding field_value_def Let_def by (auto intro!: pool_intros)

lemma transp_field_agent_member: "transparent_at (\<lambda>p s. p) (field_agent_member req k) p"
  unfolding field_agent_member_def
  by (auto intro!: pool_intros transp_declined_as transp_field_value parse_transparent transp_serialize
      split: option.splits sfv_value.splits)

lemma transp_base_field: "transparent_at (\<lambda>p s. p) (base_field req c) p"
  unfolding base_field_def Let_def
  by (auto intro!: pool_intros transp_declined_as transp_field_value transp_field_agent_member
      transp_reject_params split: option.splits)

section \<open>The output buffer\<close>

lemma buf_puts_run:
  "buf_puts ds buf =
     (if length (b_data buf) + length (concat ds) \<le> b_cap buf
      then (NGX_OK (), buf\<lparr>b_data := b_data buf @ concat ds\<rparr>)
      else (NGX_DECLINED (), snd (buf_puts ds buf)))
   \<or> length (b_data buf) > b_cap buf"
proof (induction ds arbitrary: buf)
  case Nil
  then show ?case by (auto simp: ret_def)
next
  case (Cons d ds)
  show ?case
  proof (cases "b_cap buf < length (b_data buf) + length d")
    case True
    then show ?thesis by (simp add: bnd_def buf_put_def declined_def)
  next
    case False
    with Cons [of "buf\<lparr>b_data := b_data buf @ d\<rparr>"] show ?thesis
      by (auto simp: bnd_def buf_put_def)
  qed
qed

declare buf_puts.simps(2) [simp del]

lemma buf_puts_OK:
  assumes "length (b_data buf) \<le> b_cap buf"
  shows "buf_puts ds buf =
     (if length (b_data buf) + length (concat ds) \<le> b_cap buf
      then (NGX_OK (), buf\<lparr>b_data := b_data buf @ concat ds\<rparr>)
      else (NGX_DECLINED (), snd (buf_puts ds buf)))"
  using buf_puts_run [of ds buf] assms by auto

lemma ret_Pair: "ret x = Pair (NGX_OK x)"
  by (rule ext) (simp add: ret_def)

lemma target_uri_eq:
  "target_uri req =
     bnd pool_alloc (\<lambda>_. ret (rq_scheme req @ ''://'' @ rq_authority req @ effective_path req
       @ (if rq_has_query req then CHR ''?'' # rq_query req else [])))"
  unfolding target_uri_def Let_def by (subst buf_puts_OK) (auto simp: ret_Pair)

lemma transp_derive_component: "transparent_at (\<lambda>p s. p) (derive_component req c) p"
  unfolding derive_component_def Let_def
  by (auto intro!: pool_intros transp_reject_params transp_query_param
      simp: derive_value_def base_query_def target_uri_eq split: option.splits derive_id.splits)

lemma transp_component_value: "transparent_at (\<lambda>p s. p) (component_value req c) p"
  by (simp add: component_value_def transp_derive_component transp_base_field)

lemma build_loop_eq:
  "build_loop req (item # items) labels buf =
     (if \<not> is_string (it_bare item) then declined BASE_UNKNOWN_COMPONENT
      else bnd (declined_as BASE_UNKNOWN_COMPONENT (serialize_item item)) (\<lambda>label.
        if label \<in> set labels then declined BASE_DUPLICATE_COMPONENT
        else bnd (component_value req item) (\<lambda>val.
          case buf_puts [label, '': '', val, [CHR 0x0A]] buf of
            (NGX_OK _, buf) \<Rightarrow> build_loop req items (labels @ [label]) buf
          | _ \<Rightarrow> declined BASE_TOO_LONG)))"
proof (rule ext)
  fix pool
  have nd: "fst (serialize_item item pool) \<noteq> NGX_DECLINED e" for e
    using serialize_with_cases [OF writes_item, of item pool] by (auto simp: serialize_item_def)
  show "build_loop req (item # items) labels buf pool = (if \<not> is_string (it_bare item) then declined BASE_UNKNOWN_COMPONENT
      else bnd (declined_as BASE_UNKNOWN_COMPONENT (serialize_item item)) (\<lambda>label.
        if label \<in> set labels then declined BASE_DUPLICATE_COMPONENT
        else bnd (component_value req item) (\<lambda>val.
          case buf_puts [label, '': '', val, [CHR 0x0A]] buf of
            (NGX_OK _, buf) \<Rightarrow> build_loop req items (labels @ [label]) buf
          | _ \<Rightarrow> declined BASE_TOO_LONG))) pool"
    using nd by (cases "serialize_item item pool")
      (auto simp: declined_as_def bnd_def [of "declined_as _ _"]
        intro!: arg_cong2 [where f = "\<lambda>g. bnd (component_value req item) g"] split: rc.splits prod.splits)
qed

lemma transp_buf_case:
  "(\<And>b. transparent_at (\<lambda>p s. p) (f b) p) \<Longrightarrow>
   transparent_at (\<lambda>p s. p) (case buf_puts ds buf of (NGX_OK _, b) \<Rightarrow> f b | _ \<Rightarrow> declined e) p"
  by (cases "buf_puts ds buf") (auto simp: pool_intros split: rc.splits)

lemma transp_build_loop: "transparent_at (\<lambda>p s. p) (build_loop req items labels buf) p"
proof (induction items arbitrary: labels buf p)
  case Nil
  have "build_loop req [] labels buf = ret buf" by (rule ext) simp
  then show ?case by (simp add: pool_intros)
next
  case (Cons item items)
  show ?case
    unfolding build_loop_eq
    by (auto intro!: pool_intros transp_declined_as transp_serialize transp_component_value
        transp_buf_case Cons)
qed

lemma base_build_eq:
  "base_build req covered =
     (if MAX_SFV_ITEMS < length (il_items covered) then declined BASE_TOO_LONG
      else bnd pool_alloc (\<lambda>_.
        bnd (build_loop req (il_items covered) [] \<lparr>b_data = [], b_cap = MAX_BASE_LENGTH\<rparr>) (\<lambda>buf.
          bnd (declined_as BASE_TOO_LONG (serialize_inner_list covered)) (\<lambda>params_value.
            case buf_puts [params_label, params_value] buf of
              (NGX_OK _, buf) \<Rightarrow> ret (b_data buf)
            | _ \<Rightarrow> declined BASE_TOO_LONG))))"
proof -
  have nd: "fst (serialize_inner_list covered pool) \<noteq> NGX_DECLINED e" for e pool
    using serialize_with_cases [OF writes_inner_list, of covered pool] by (auto simp: serialize_inner_list_def)
  have "(\<lambda>pool. case serialize_inner_list covered pool of
            (NGX_OK params_value, pool) \<Rightarrow>
              (case buf_puts [params_label, params_value] buf of
                 (NGX_OK _, buf) \<Rightarrow> ret (b_data buf) pool
               | _ \<Rightarrow> declined BASE_TOO_LONG pool)
          | (_, pool) \<Rightarrow> (NGX_ERROR, pool)) =
        bnd (declined_as BASE_TOO_LONG (serialize_inner_list covered)) (\<lambda>params_value.
            case buf_puts [params_label, params_value] buf of
              (NGX_OK _, buf) \<Rightarrow> ret (b_data buf)
            | _ \<Rightarrow> declined BASE_TOO_LONG)" for buf
  proof (rule ext)
    fix pool
    show "(case serialize_inner_list covered pool of
            (NGX_OK params_value, pool) \<Rightarrow>
              (case buf_puts [params_label, params_value] buf of
                 (NGX_OK _, buf) \<Rightarrow> ret (b_data buf) pool
               | _ \<Rightarrow> declined BASE_TOO_LONG pool)
          | (_, pool) \<Rightarrow> (NGX_ERROR, pool)) =
        bnd (declined_as BASE_TOO_LONG (serialize_inner_list covered)) (\<lambda>params_value.
            case buf_puts [params_label, params_value] buf of
              (NGX_OK _, buf) \<Rightarrow> ret (b_data buf)
            | _ \<Rightarrow> declined BASE_TOO_LONG) pool"
    proof (cases "serialize_inner_list covered pool")
      case (Pair r q)
      with nd [of pool "()"] show ?thesis by (cases r) (auto simp: declined_as_def bnd_def split: prod.splits rc.splits)
    qed
  qed
  then show ?thesis unfolding base_build_def by simp
qed

lemma transp_base_build: "transparent_at (\<lambda>p s. p) (base_build req covered) p"
  unfolding base_build_eq
  by (auto intro!: pool_intros transp_declined_as transp_serialize transp_build_loop transp_buf_case
      simp del: rc.case prod.case)

section \<open>The text of the signature base\<close>

definition value_of :: "request \<Rightarrow> sfv_item \<Rightarrow> bytes option" where
  "value_of req item = (case fst (component_value req item []) of NGX_OK v \<Rightarrow> Some v | _ \<Rightarrow> None)"

definition base_line :: "sfv_item \<Rightarrow> bytes \<Rightarrow> bytes" where
  "base_line item v = ser_item item @ '': '' @ v @ [CHR 0x0A]"

definition base_text :: "sfv_inner_list \<Rightarrow> bytes list \<Rightarrow> bytes" where
  "base_text covered vs =
     concat (map2 base_line (il_items covered) vs) @ params_label @ ser_inner_list covered"

lemma value_of_Some:
  "value_of req item = Some v \<longleftrightarrow> component_value req item [] = (NGX_OK v, [])"
  using transp_component_value [of req item "[]"]
  by (cases "component_value req item []") (auto simp: value_of_def transparent_at_def split: rc.splits)

lemma value_of_OK: "component_value req item [] = (NGX_OK v, q) \<longleftrightarrow> value_of req item = Some v \<and> q = []"
  using value_of_Some [of req item v] by (auto simp: value_of_def)

definition base_values :: "request \<Rightarrow> sfv_item list \<Rightarrow> bytes list \<Rightarrow> bool" where
  "base_values req items vs \<longleftrightarrow> list_all2 (\<lambda>i v. is_string (it_bare i) \<and> value_of req i = Some v) items vs"

lemma build_loop_spec:
  "length (b_data buf) \<le> b_cap buf \<Longrightarrow>
   build_loop req items labels buf [] = (NGX_OK buf', q) \<longleftrightarrow>
     q = [] \<and> distinct (map ser_item items) \<and> set (map ser_item items) \<inter> set labels = {} \<and>
     (\<exists>vs. base_values req items vs \<and>
        length (b_data buf @ concat (map2 base_line items vs)) \<le> b_cap buf \<and>
        buf' = buf\<lparr>b_data := b_data buf @ concat (map2 base_line items vs)\<rparr>)"
proof (induction items arbitrary: labels buf)
  case Nil
  then show ?case by (auto simp: base_values_def)
next
  case (Cons item items)
  have ser: "declined_as e (serialize_item item) [] = (NGX_OK (ser_item item), [])" for e :: base_reason
    by (simp add: declined_as_def serialize_simps)
  show ?case
  proof (cases "is_string (it_bare item) \<and> ser_item item \<notin> set labels \<and> value_of req item \<noteq> None")
    case False
    then show ?thesis
      unfolding build_loop_eq
      by (auto simp: bnd_eq_OK ser base_values_def list_all2_Cons1 value_of_OK)
  next
    case True
    then obtain v where v: "value_of req item = Some v" by auto
    let ?d = "concat [ser_item item, '': '', v, [CHR 0x0A]]"
    have line: "?d = base_line item v" by (simp add: base_line_def)
    have step: "build_loop req (item # items) labels buf [] =
        (case buf_puts [ser_item item, '': '', v, [CHR 0x0A]] buf of
            (NGX_OK _, b) \<Rightarrow> build_loop req items (labels @ [ser_item item]) b
          | _ \<Rightarrow> declined BASE_TOO_LONG) []"
      using True v unfolding build_loop_eq
      by (simp add: bnd_OK [of "declined_as _ _" "[]", OF ser]
          bnd_OK [of "component_value req item" "[]", OF v [unfolded value_of_Some]])
    show ?thesis
    proof (cases "length (b_data buf) + length ?d \<le> b_cap buf")
      case fits: True
      let ?b = "buf\<lparr>b_data := b_data buf @ base_line item v\<rparr>"
      have "build_loop req (item # items) labels buf [] = build_loop req items (labels @ [ser_item item]) ?b []"
        unfolding step using fits buf_puts_OK [OF Cons.prems, of "[ser_item item, '': '', v, [CHR 0x0A]]"]
        by (simp add: line del: concat.simps)
      moreover have "length (b_data ?b) \<le> b_cap ?b"
        using fits unfolding line by (simp del: concat.simps)
      ultimately show ?thesis
        using Cons.IH [of ?b "labels @ [ser_item item]"] True v
        by (auto simp: base_values_def list_all2_Cons1)
    next
      case False
      have "build_loop req (item # items) labels buf [] = (NGX_DECLINED BASE_TOO_LONG, [])"
        unfolding step using False buf_puts_OK [OF Cons.prems, of "[ser_item item, '': '', v, [CHR 0x0A]]"]
        by (auto simp: declined_def simp del: concat.simps split: prod.splits)
      moreover have "\<not> length (b_data buf) + length (base_line item v) \<le> b_cap buf"
        using False unfolding line .
      ultimately show ?thesis using v by (auto simp: base_values_def list_all2_Cons1 simp del: build_loop.simps)
    qed
  qed
qed

lemma base_build_run:
  "base_build req covered [] = (NGX_OK out, q) \<longleftrightarrow>
     q = [] \<and> length (il_items covered) \<le> MAX_SFV_ITEMS \<and> distinct (map ser_item (il_items covered)) \<and>
     (\<exists>vs. base_values req (il_items covered) vs \<and> out = base_text covered vs) \<and>
     length out \<le> MAX_BASE_LENGTH"
proof (cases "MAX_SFV_ITEMS < length (il_items covered)")
  case True
  then show ?thesis by (simp add: base_build_def)
next
  case False
  let ?b0 = "\<lparr>b_data = [], b_cap = MAX_BASE_LENGTH\<rparr>"
  let ?fin = "\<lambda>buf. bnd (declined_as BASE_TOO_LONG (serialize_inner_list covered)) (\<lambda>params_value.
            case buf_puts [params_label, params_value] buf of
              (NGX_OK _, buf) \<Rightarrow> ret (b_data buf) | _ \<Rightarrow> declined BASE_TOO_LONG)"
  have ser: "declined_as BASE_TOO_LONG (serialize_inner_list covered) [] = (NGX_OK (ser_inner_list covered), [])"
    by (simp add: declined_as_def serialize_simps)
  have fin: "?fin buf [] = (NGX_OK out, q) \<longleftrightarrow>
      q = [] \<and> out = b_data buf @ params_label @ ser_inner_list covered \<and> length out \<le> b_cap buf"
    if "length (b_data buf) \<le> b_cap buf" for buf
    unfolding bnd_OK [of "declined_as BASE_TOO_LONG (serialize_inner_list covered)" "[]", OF ser]
    using buf_puts_OK [OF that, of "[params_label, ser_inner_list covered]"]
    by (auto split: if_splits prod.splits)
  have fixed: "(length (concat (map2 base_line (il_items covered) vs)) \<le> MAX_BASE_LENGTH \<and>
      ?fin (?b0\<lparr>b_data := concat (map2 base_line (il_items covered) vs)\<rparr>) [] = (NGX_OK out, q)) \<longleftrightarrow>
      (q = [] \<and> out = base_text covered vs \<and> length out \<le> MAX_BASE_LENGTH)" for vs
  proof (cases "length (concat (map2 base_line (il_items covered) vs)) \<le> MAX_BASE_LENGTH")
    case True
    then show ?thesis
      using fin [of "?b0\<lparr>b_data := concat (map2 base_line (il_items covered) vs)\<rparr>"] by (simp add: base_text_def)
  next
    case False
    then show ?thesis by (auto simp: base_text_def)
  qed
  have "base_build req covered [] = (NGX_OK out, q) \<longleftrightarrow>
      (\<exists>buf r. build_loop req (il_items covered) [] ?b0 [] = (NGX_OK buf, r) \<and> ?fin buf r = (NGX_OK out, q))"
    using False unfolding base_build_eq by (auto simp: bnd_eq_OK pool_alloc_Nil)
  also have "\<dots> \<longleftrightarrow> (\<exists>vs. distinct (map ser_item (il_items covered)) \<and> base_values req (il_items covered) vs \<and>
      length (concat (map2 base_line (il_items covered) vs)) \<le> MAX_BASE_LENGTH \<and>
      ?fin (?b0\<lparr>b_data := concat (map2 base_line (il_items covered) vs)\<rparr>) [] = (NGX_OK out, q))"
    using build_loop_spec [of ?b0 req "il_items covered" "[]"] by auto
  also have "\<dots> \<longleftrightarrow> (\<exists>vs. distinct (map ser_item (il_items covered)) \<and> base_values req (il_items covered) vs \<and>
      q = [] \<and> out = base_text covered vs \<and> length out \<le> MAX_BASE_LENGTH)"
    by (simp only: fixed)
  finally show ?thesis using False unfolding not_less by blast
qed

section \<open>Line feeds\<close>

text \<open>The serialized values contain no line feed, so the lines of the base can be told apart.\<close>

abbreviation LF :: char where "LF \<equiv> CHR 0x0A"

definition no_LF :: "bytes \<Rightarrow> bool" where
  "no_LF s \<longleftrightarrow> LF \<notin> set s"

lemma no_LF_simps [simp]: "no_LF []" "no_LF (c # s) \<longleftrightarrow> c \<noteq> LF \<and> no_LF s" "no_LF (s @ t) \<longleftrightarrow> no_LF s \<and> no_LF t"
  by (auto simp: no_LF_def)

lemma no_LF_concat [simp]: "no_LF (concat xs) \<longleftrightarrow> (\<forall>x\<in>set xs. no_LF x)"
  by (auto simp: no_LF_def)

lemma char_classes_LF [simp]: "\<not> string_char LF" "\<not> is_token_char LF" "\<not> is_key_char LF" "\<not> is_digit LF"
  "\<not> is_alpha LF" "\<not> is_lcalpha LF"
  by (simp_all add: string_char_def is_token_char_def is_tchar_def is_key_char_def is_digit_def
      is_alpha_def is_lcalpha_def less_eq_char_def)

lemma all_digits_no_LF: "all_digits ds \<Longrightarrow> no_LF ds"
  by (auto simp: no_LF_def)

lemma digits_no_LF [simp]: "no_LF (digits_loop n [])"
  by (rule all_digits_no_LF) (rule digits_loop_digits)

lemma ser_integer_no_LF [simp]: "no_LF (ser_integer v)"
  by (simp add: ser_integer_def)

lemma ser_decimal_no_LF [simp]: "no_LF (ser_decimal v)"
  using all_digits_no_LF [OF ser_frac_props(1), of "nat \<bar>v\<bar> mod 1000"] by (simp add: ser_decimal_def)

lemma b64_digit_no_LF: "i < 64 \<Longrightarrow> b64_digit i \<noteq> LF"
proof -
  assume "i < 64"
  then have "b64_char (b64_digit i) \<noteq> - 1" by (simp add: b64_digit_props)
  then show ?thesis by (auto simp: b64_char_def less_eq_char_def)
qed

lemma encode_no_LF [simp]: "no_LF (ngx_encode_base64 s)"
  using b64_body_less [of _ s] b64_pad_cases [of s]
  by (auto simp: encode_split no_LF_def b64_digit_no_LF [symmetric])

lemma escape_no_LF: "\<forall>c\<in>set s. string_char c \<Longrightarrow> no_LF (escape s)"
  by (auto simp: escape_def no_LF_def)

lemma head_tail_no_LF: "k \<noteq> [] \<Longrightarrow> hd k \<noteq> LF \<Longrightarrow> LF \<notin> set (tl k) \<Longrightarrow> no_LF k"
  by (cases k) (auto simp: no_LF_def)

lemma wf_key_no_LF: "wf_key k \<Longrightarrow> no_LF k"
  by (rule head_tail_no_LF) (auto simp: wf_key_def)

lemma wf_token_no_LF: "wf_token k \<Longrightarrow> no_LF k"
  by (rule head_tail_no_LF) (auto simp: wf_token_def)

lemma ser_bare_no_LF: "wf_bare b \<Longrightarrow> no_LF (ser_bare b)"
  by (cases b) (auto simp: escape_no_LF wf_token_no_LF)

lemma ser_params_no_LF: "wf_params ps \<Longrightarrow> no_LF (ser_params ps)"
  by (auto simp: ser_params_def ser_param_def wf_params_def wf_key_no_LF ser_bare_no_LF)

lemma ser_item_no_LF: "wf_item i \<Longrightarrow> no_LF (ser_item i)"
  by (simp add: ser_item_def wf_item_def ser_bare_no_LF ser_params_no_LF)

lemma ser_items_no_LF: "\<forall>i\<in>set xs. wf_item i \<Longrightarrow> no_LF (ser_items xs)"
  by (cases xs) (auto simp: ser_item_no_LF)

lemma ser_inner_list_no_LF: "wf_inner_list l \<Longrightarrow> no_LF (ser_inner_list l)"
  by (simp add: ser_inner_list_def wf_inner_list_def ser_items_no_LF ser_params_no_LF)

text \<open>A request whose parts contain no line feed, as nginx guarantees for a parsed request.\<close>

definition request_no_LF :: "request \<Rightarrow> bool" where
  "request_no_LF req \<longleftrightarrow> no_LF (rq_method req) \<and> no_LF (rq_scheme req) \<and> no_LF (rq_authority req)
     \<and> no_LF (rq_path req) \<and> no_LF (rq_query req) \<and> no_LF (rq_request_target req)
     \<and> (\<forall>h\<in>set (rq_headers req). no_LF (h_value h))"

lemma join_values_no_LF: "\<forall>v\<in>set vs. no_LF v \<Longrightarrow> no_LF (join_values vs)"
  by (induction vs rule: join_values.induct) auto

lemma qs_hex_digit_no_LF: "i < 16 \<Longrightarrow> qs_hex_digit i \<noteq> LF"
proof -
  assume "i < 16"
  then have "i \<in> set [0..<16]" by simp
  moreover have "\<forall>i\<in>set [0..<16]. qs_hex_digit i \<noteq> LF" by code_simp
  ultimately show ?thesis by blast
qed

lemma nibbles: "drop_bit 4 (code_of c) < 16" "code_of c AND 15 < (16::nat)"
  by (simp_all add: drop_bit_eq_div AND_numerals less_mult_imp_div_less)

lemma qs_encode_no_LF: "no_LF (qs_encode_loop s)"
  by (induction s rule: qs_encode_loop.induct)
    (auto simp: qs_hex_digit_no_LF nibbles qs_unreserved_def less_eq_char_def)

definition yields :: "(pool, 'e, 'a) op \<Rightarrow> ('a \<Rightarrow> bool) \<Rightarrow> bool" where
  "yields m P \<longleftrightarrow> (\<forall>p x q. m p = (NGX_OK x, q) \<longrightarrow> P x)"

lemma yieldsI: "(\<And>p x q. m p = (NGX_OK x, q) \<Longrightarrow> P x) \<Longrightarrow> yields m P"
  by (auto simp: yields_def)

lemma yieldsD: "yields m P \<Longrightarrow> m p = (NGX_OK x, q) \<Longrightarrow> P x"
  by (auto simp: yields_def)

lemma yields_simps [simp]: "yields (ret x) P \<longleftrightarrow> P x" "yields (declined e) P"
  by (auto simp: yields_def)

lemma yields_bnd: "(\<And>p y q. m p = (NGX_OK y, q) \<Longrightarrow> yields (f y) P) \<Longrightarrow> yields (bnd m f) P"
  unfolding yields_def bnd_eq_OK by blast

lemma declined_as_OK [simp]: "declined_as e m p = (NGX_OK x, q) \<longleftrightarrow> m p = (NGX_OK x, q)"
  by (cases "m p") (auto simp: declined_as_def split: rc.splits)

lemma yields_declined_as [simp]: "yields (declined_as e m) P \<longleftrightarrow> yields m P"
  by (simp add: yields_def)

lemma yields_serialize:
  "P (ser_item i) \<Longrightarrow> yields (serialize_item i) P" "P (ser_inner_list l) \<Longrightarrow> yields (serialize_inner_list l) P"
  using serialize_with_cases [OF writes_item, of i] serialize_with_cases [OF writes_inner_list, of l]
  by (auto simp: yields_def serialize_item_def serialize_inner_list_def) (metis fst_conv rc.distinct(3) rc.inject(1) insertE singletonD)+

lemma yields_field_value: "request_no_LF req \<Longrightarrow> yields (field_value req n) no_LF"
  unfolding field_value_def Let_def
  by (auto intro!: yields_bnd join_values_no_LF simp: field_values_def request_no_LF_def)

lemma yields_agent_member: "yields (field_agent_member req k) no_LF"
proof -
  have wf: "wf_dictionary d" if "parse_dictionary raw p = (NGX_OK d, q)" for raw p d q
    using parse_with_produces [OF produces_read_dictionary, of raw p d] that by (simp add: parse_dictionary_def)
  show ?thesis
    unfolding field_agent_member_def
    by (auto intro!: yields_bnd yields_serialize ser_item_no_LF ser_inner_list_no_LF
        dest!: wf dict_get_wf split: option.splits sfv_value.splits)
qed

lemma yields_qs_encode: "yields (qs_encode s) no_LF"
  by (auto simp: qs_encode_def qs_encode_no_LF intro!: yields_bnd)

lemma yields_query_param: "yields (query_param req c) no_LF"
proof -
  have "yields (case query_param_loop d (rq_query req) None of
      Inl _ \<Rightarrow> declined BASE_MISSING_FIELD
    | Inr None \<Rightarrow> declined BASE_MISSING_FIELD
    | Inr (Some value_raw) \<Rightarrow> bnd (qs_decode value_raw) qs_encode) no_LF" for d
    by (auto split: sum.split option.split intro!: yields_bnd yields_qs_encode)
  then show ?thesis
    unfolding query_param_def by (auto intro!: yields_bnd split: option.split sfv_bare.split)
qed

lemma yields_derive_value: "request_no_LF req \<Longrightarrow> yields (derive_value i req) no_LF"
  by (cases i)
    (auto intro!: yields_bnd simp: derive_value_def base_query_def target_uri_eq effective_path_def request_no_LF_def)

lemma yields_derive_component: "request_no_LF req \<Longrightarrow> yields (derive_component req c) no_LF"
  unfolding derive_component_def Let_def
  by (auto intro!: yields_bnd yields_query_param yields_derive_value split: option.splits)

lemma yields_base_field: "request_no_LF req \<Longrightarrow> yields (base_field req c) no_LF"
  unfolding base_field_def Let_def
  by (auto intro!: yields_bnd yields_agent_member yields_field_value split: option.splits)

lemma yields_component_value: "request_no_LF req \<Longrightarrow> yields (component_value req c) no_LF"
  by (simp add: component_value_def yields_derive_component yields_base_field)

lemma value_of_no_LF: "request_no_LF req \<Longrightarrow> value_of req item = Some v \<Longrightarrow> no_LF v"
  using yieldsD [OF yields_component_value, of req item "[]" v "[]"] by (simp add: value_of_Some)

section \<open>The text determines what was signed\<close>

lemma append_LF_inj: "no_LF u \<Longrightarrow> no_LF v \<Longrightarrow> u @ LF # s = v @ LF # t \<Longrightarrow> u = v \<and> s = t"
proof (induction u arbitrary: v)
  case Nil
  then show ?case by (cases v) auto
next
  case (Cons c u)
  then show ?case by (cases v) auto
qed

lemma last_line_inj:
  assumes "no_LF x" "no_LF y" "concat ls @ x = concat ms @ y"
    and "\<forall>l\<in>set ls. \<exists>k. l = k @ [LF]" "\<forall>l\<in>set ms. \<exists>k. l = k @ [LF]"
  shows "x = y"
proof -
  have tail: "rev (takeWhile (\<lambda>c. c \<noteq> LF) (rev (concat ks @ z))) = z"
    if "no_LF z" "\<forall>l\<in>set ks. \<exists>k. l = k @ [LF]" for ks z
  proof -
    have z: "\<forall>c\<in>set (rev z). c \<noteq> LF" using that(1) by (auto simp: no_LF_def)
    have "rev (concat ks) = [] \<or> \<not> hd (rev (concat ks)) \<noteq> LF"
    proof (cases ks rule: rev_cases)
      case (snoc js l)
      with that(2) obtain k where "l = k @ [LF]" by auto
      with snoc show ?thesis by simp
    qed simp
    from takeWhile_append_stop [OF z this] show ?thesis by simp
  qed
  from tail [OF assms(1,4)] tail [OF assms(2,5)] assms(3) show ?thesis by simp
qed

lemma base_lines_LF: "l \<in> set (map2 base_line items vs) \<Longrightarrow> \<exists>k. l = k @ [LF]"
  by (auto simp: base_line_def)

lemma lines_inj:
  "list_all2 P items vs \<Longrightarrow> list_all2 Q items ws \<Longrightarrow> (\<And>i v. P i v \<Longrightarrow> no_LF v) \<Longrightarrow> (\<And>i v. Q i v \<Longrightarrow> no_LF v) \<Longrightarrow>
   concat (map2 base_line items vs) @ s = concat (map2 base_line items ws) @ t \<Longrightarrow> vs = ws"
proof (induction items arbitrary: vs ws)
  case Nil
  then show ?case by simp
next
  case (Cons i items)
  then obtain v vs' w ws' where vs: "vs = v # vs'" "P i v" "list_all2 P items vs'"
    and ws: "ws = w # ws'" "Q i w" "list_all2 Q items ws'"
    by (auto simp: list_all2_Cons1)
  from Cons.prems(5) have "v @ LF # (concat (map2 base_line items vs') @ s) =
      w @ LF # (concat (map2 base_line items ws') @ t)"
    unfolding vs(1) ws(1) by (simp add: base_line_def)
  from append_LF_inj [OF Cons.prems(3) [OF vs(2)] Cons.prems(4) [OF ws(2)] this]
    Cons.IH [OF vs(3) ws(3) Cons.prems(3,4)] show ?case by (simp add: vs(1) ws(1))
qed

lemma params_line_inj:
  assumes "wf_inner_list l" "wf_inner_list m" "params_label @ ser_inner_list l = params_label @ ser_inner_list m"
  shows "l = m"
  using assms inner_list.ser_inj by simp

lemma base_text_inj:
  assumes wf: "wf_inner_list l" "wf_inner_list m"
    and vs: "base_values req (il_items l) vs" "request_no_LF req"
    and ws: "base_values req' (il_items m) ws" "request_no_LF req'"
    and eq: "base_text l vs = base_text m ws"
  shows "l = m \<and> vs = ws"
proof -
  have pl: "no_LF params_label" by (simp add: params_label_def)
  have "params_label @ ser_inner_list l = params_label @ ser_inner_list m"
    using eq base_lines_LF ser_inner_list_no_LF [OF wf(1)] ser_inner_list_no_LF [OF wf(2)] pl
    by (intro last_line_inj [of "params_label @ ser_inner_list l" "params_label @ ser_inner_list m"
          "map2 base_line (il_items l) vs" "map2 base_line (il_items m) ws"]) (simp_all add: base_text_def)
  then have lm: "l = m" by (rule params_line_inj [OF wf])
  have "vs = ws"
  proof (rule lines_inj)
    show "list_all2 (\<lambda>i v. is_string (it_bare i) \<and> value_of req i = Some v) (il_items m) vs"
      using vs(1) by (simp add: base_values_def lm)
    show "list_all2 (\<lambda>i v. is_string (it_bare i) \<and> value_of req' i = Some v) (il_items m) ws"
      using ws(1) by (simp add: base_values_def)
    show "concat (map2 base_line (il_items m) vs) @ params_label @ ser_inner_list m =
        concat (map2 base_line (il_items m) ws) @ params_label @ ser_inner_list m"
      using eq by (simp add: base_text_def lm)
  qed (use vs(2) ws(2) value_of_no_LF in blast)+
  with lm show ?thesis by simp
qed

section \<open>Query parameters\<close>

text \<open>One step of decoding, shared by the two loops.\<close>

lemma decode_step:
  "qs_decode_loop (r # raw) =
     (let (c, raw') =
        (if r = CHR ''+'' then (CHR '' '', raw)
         else case raw of
           a # b # rest \<Rightarrow> if r = CHR ''%'' \<and> is_hex a \<and> is_hex b then (hex_byte a b, rest) else (r, raw)
         | _ \<Rightarrow> (r, raw))
      in c # qs_decode_loop raw')"
  by (subst qs_decode_loop.simps(2)) (auto split: list.splits simp del: qs_decode_loop.simps(2))

lemma decode_plain: "c \<noteq> CHR ''+'' \<Longrightarrow> c \<noteq> CHR ''%'' \<Longrightarrow> qs_decode_loop (c # xs) = c # qs_decode_loop xs"
  by (subst decode_step) (auto split: list.splits)

lemma decode_special:
  "qs_decode_loop (CHR ''+'' # xs) = CHR '' '' # qs_decode_loop xs"
  "is_hex a \<Longrightarrow> is_hex b \<Longrightarrow> qs_decode_loop (CHR ''%'' # a # b # xs) = hex_byte a b # qs_decode_loop xs"
  by simp_all

declare qs_decode_loop.simps(2) [simp del]

lemma qs_key_eq_decode: "qs_key_eq raw target \<longleftrightarrow> qs_decode_loop raw = target"
proof (induction raw target rule: qs_key_eq.induct)
  case (1 target)
  then show ?case by auto
next
  case (2 r raw target)
  show ?case
  proof (cases target)
    case Nil
    then show ?thesis unfolding decode_step by (simp add: Let_def split_beta)
  next
    case (Cons t ts)
    then show ?thesis
      using 2 [OF refl prod.collapse Cons] unfolding decode_step
      by (auto simp: Let_def split_beta)
  qed
qed

lemma hex_table: "\<forall>i\<in>set [0..<16]. is_hex (qs_hex_digit i) \<and> hex_val (qs_hex_digit i) = i"
  by code_simp

lemma hex_digit_props: "i < 16 \<Longrightarrow> is_hex (qs_hex_digit i) \<and> hex_val (qs_hex_digit i) = i"
  using hex_table by simp

lemma hex_byte_nibbles: "hex_byte (qs_hex_digit (drop_bit 4 (code_of c))) (qs_hex_digit (code_of c AND 15)) = c"
proof -
  have "hex_byte (qs_hex_digit (drop_bit 4 (code_of c))) (qs_hex_digit (code_of c AND 15)) =
      char_of (push_bit 4 (drop_bit 4 (code_of c)) OR (code_of c AND 15))"
    using hex_digit_props [OF nibbles(1) [of c]] hex_digit_props [OF nibbles(2) [of c]] by (simp add: hex_byte_def)
  also have "push_bit 4 (drop_bit 4 (code_of c)) OR (code_of c AND 15) = code_of c"
    using push_bit_OR [of "code_of c AND 15" 4 "drop_bit 4 (code_of c)"] nibbles(2) [of c]
      div_mult_mod_eq [of "code_of c" 16]
    by (simp add: drop_bit_eq_div AND_numerals)
  finally show ?thesis by simp
qed

lemma decode_encode_qs: "qs_decode_loop (qs_encode_loop s) = s"
proof (induction s)
  case Nil
  then show ?case by simp
next
  case (Cons c s)
  consider "c = CHR '' ''" | "c \<noteq> CHR '' ''" "qs_unreserved c" | "c \<noteq> CHR '' ''" "\<not> qs_unreserved c" by blast
  then show ?case
  proof cases
    case 1
    with Cons show ?thesis by (simp add: decode_special)
  next
    case 2
    then have "c \<noteq> CHR ''+''" "c \<noteq> CHR ''%''" by (auto simp: qs_unreserved_def less_eq_char_def)
    with 2 Cons show ?thesis by (simp add: decode_plain)
  next
    case 3
    with Cons hex_digit_props [OF nibbles(1) [of c]] hex_digit_props [OF nibbles(2) [of c]]
      hex_byte_nibbles [of c] show ?thesis by (simp add: decode_special)
  qed
qed

text \<open>The query as the list of its key and value texts.\<close>

function qs_pairs :: "bytes \<Rightarrow> (bytes \<times> bytes) list" where
  "qs_pairs p =
     (if p = [] then []
      else let seg = takeWhile (\<lambda>c. c \<noteq> CHR ''&'') p in
        (takeWhile (\<lambda>c. c \<noteq> CHR ''='') seg, tl (dropWhile (\<lambda>c. c \<noteq> CHR ''='') seg))
        # qs_pairs (tl (dropWhile (\<lambda>c. c \<noteq> CHR ''&'') p)))"
  by pat_completeness auto
termination
proof (relation "measure length", goal_cases)
  case 1
  show ?case by simp
next
  case (2 p seg)
  then show ?case by (cases p) (auto intro: le_imp_less_Suc order_trans [OF diff_le_self length_dropWhile_le])
qed

declare qs_pairs.simps [simp del]

definition qs_matches :: "bytes \<Rightarrow> bytes \<Rightarrow> bytes list" where
  "qs_matches name p = map snd (filter (\<lambda>(k, v). qs_decode_loop k = name) (qs_pairs p))"

lemma qs_matches_step:
  "p \<noteq> [] \<Longrightarrow> qs_matches name p =
     (let seg = takeWhile (\<lambda>c. c \<noteq> CHR ''&'') p;
          rest = qs_matches name (tl (dropWhile (\<lambda>c. c \<noteq> CHR ''&'') p))
      in if qs_decode_loop (takeWhile (\<lambda>c. c \<noteq> CHR ''='') seg) = name
         then tl (dropWhile (\<lambda>c. c \<noteq> CHR ''='') seg) # rest else rest)"
  unfolding qs_matches_def by (subst qs_pairs.simps) (simp add: Let_def)

lemma query_param_loop_spec:
  "query_param_loop name p found =
     (case qs_matches name p of
        [] \<Rightarrow> Inr found
      | [v] \<Rightarrow> (if found = None then Inr (Some v) else Inl ())
      | _ \<Rightarrow> Inl ())"
proof (induction name p found rule: query_param_loop.induct)
  case (1 name p found)
  show ?case
  proof (cases "p = []")
    case True
    then show ?thesis by (simp add: query_param_loop.simps qs_matches_def qs_pairs.simps)
  next
    case False
    show ?thesis
    proof (cases "qs_key_eq (takeWhile (\<lambda>c. c \<noteq> CHR ''='') (takeWhile (\<lambda>c. c \<noteq> CHR ''&'') p)) name")
      case key: True
      show ?thesis
      proof (cases "found = None")
        case True
        with 1(1) [OF False refl refl refl refl key] False key show ?thesis
          by (subst query_param_loop.simps)
            (simp add: qs_matches_step qs_key_eq_decode Let_def split: list.splits)
      next
        case some: False
        with False key show ?thesis
          by (subst query_param_loop.simps)
            (simp add: qs_matches_step qs_key_eq_decode Let_def split: list.splits)
      qed
    next
      case nokey: False
      with 1(2) [OF False refl refl refl refl nokey] False show ?thesis
        by (subst query_param_loop.simps)
          (simp add: qs_matches_step qs_key_eq_decode Let_def)
    qed
  qed
qed

lemma qs_decode_Nil [simp]: "qs_decode r [] = (NGX_OK (qs_decode_loop r), [])"
  by (cases r) (simp_all add: qs_decode_def bnd_def pool_alloc_Nil ret_def)

lemma qs_encode_Nil [simp]: "qs_encode r [] = (NGX_OK (qs_encode_loop r), [])"
  by (cases r) (simp_all add: qs_encode_def bnd_def pool_alloc_Nil ret_def)

lemma single_param:
  "param_get ps k = Some v \<and> length ps = 1 \<longleftrightarrow> ps = [\<lparr>p_key = k, p_value = v\<rparr>]"
  by (cases ps; cases "hd ps") (auto simp: param_get_def)

lemma length_qs_encode: "length (qs_encode_loop s) = qs_encode_cap s"
  by (induction s rule: qs_encode_loop.induct) (simp_all add: qs_encode_cap_def)

lemma length_qs_decode: "length (qs_decode_loop s) \<le> length s"
proof (induction s rule: length_induct)
  case (1 s)
  show ?case
  proof (cases s)
    case (Cons r raw)
    have "length (qs_decode_loop raw) \<le> length raw" using 1 Cons by simp
    moreover have "length (qs_decode_loop rest) \<le> length rest" if "raw = a # b # rest" for a b rest
      using 1 Cons that by simp
    ultimately show ?thesis
      unfolding Cons by (subst decode_step) (auto split: list.splits)
  qed simp
qed

lemma base_build_OK_Nil: "fst (base_build req l p) = NGX_OK out \<Longrightarrow> base_build req l [] = (NGX_OK out, [])"
  using transp_base_build [of req l p] by (cases "base_build req l p") (simp add: transparent_at_def)

lemma base_build_inj:
  assumes "fst (base_build req l p) = NGX_OK out" and "fst (base_build req' m q) = NGX_OK out"
    and "wf_inner_list l" and "wf_inner_list m" and "request_no_LF req" and "request_no_LF req'"
  shows "l = m \<and> (\<forall>i\<in>set (il_items l). \<exists>v. component_value req i [] = (NGX_OK v, [])
    \<and> component_value req' i [] = (NGX_OK v, []))"
proof -
  from base_build_OK_Nil [OF assms(1)] obtain vs where vs: "base_values req (il_items l) vs" "out = base_text l vs"
    by (auto simp: base_build_run)
  from base_build_OK_Nil [OF assms(2)] obtain ws where ws: "base_values req' (il_items m) ws" "out = base_text m ws"
    by (auto simp: base_build_run)
  from base_text_inj [OF assms(3,4) vs(1) assms(5) ws(1) assms(6)] vs(2) ws(2) have e: "l = m" "vs = ws" by simp_all
  have "\<exists>v. component_value req i [] = (NGX_OK v, []) \<and> component_value req' i [] = (NGX_OK v, [])"
    if i: "i \<in> set (il_items l)" for i
  proof -
    from i obtain n where n: "n < length (il_items l)" "i = il_items l ! n" by (auto simp: in_set_conv_nth)
    with vs(1) ws(1) e have "value_of req i = Some (vs ! n)" "value_of req' i = Some (vs ! n)"
      by (auto simp: base_values_def list_all2_conv_all_nth)
    then show ?thesis by (auto simp: value_of_Some)
  qed
  with e show ?thesis by simp
qed

section \<open>Properties\<close>

text \<open>C7: Signature base construction, exactly: in a pool that does not fail,
  \<open>ngx_auth_httpsig_base_build\<close> succeeds if and only if there are at most 64 components, each a String
  with a value for this request, no two serialize alike, and the text fits 16384 bytes; the result is
  then one line \<open>component: value\<close> per component followed by the \<open>@signature-params\<close> line.\<close>

theorem base_build_exact:
  "base_build req covered [] = (NGX_OK out, []) \<longleftrightarrow>
     length (il_items covered) \<le> MAX_SFV_ITEMS \<and>
     distinct (map ser_item (il_items covered)) \<and>
     (\<exists>vs. list_all2 (\<lambda>i v. is_string (it_bare i) \<and> component_value req i [] = (NGX_OK v, [])) (il_items covered) vs \<and>
       out = concat (map2 (\<lambda>i v. ser_item i @ '': '' @ v @ [LF]) (il_items covered) vs)
             @ params_label @ ser_inner_list covered) \<and>
     length out \<le> MAX_BASE_LENGTH"
proof -
  have "base_line = (\<lambda>i v. ser_item i @ '': '' @ v @ [LF])" by (simp add: fun_eq_iff base_line_def)
  with base_build_run [of req covered out "[]"] show ?thesis
    unfolding base_values_def base_text_def value_of_Some by simp
qed

definition example_request :: request where
  "example_request =
     \<lparr>rq_method = ''GET'', rq_scheme = ''https'', rq_authority = ''example.com'', rq_path = ''/p'', rq_query = ''a=1'',
      rq_has_query = True, rq_request_target = ''/p?a=1'', rq_target_defined = True,
      rq_headers = [\<lparr>h_name = ''x'', h_value = ''1''\<rparr>, \<lparr>h_name = ''x'', h_value = ''2''\<rparr>]\<rparr>"

definition example_list :: sfv_inner_list where
  "example_list =
     \<lparr>il_items = [\<lparr>it_bare = SFV_STRING ''@authority'', it_params = []\<rparr>, \<lparr>it_bare = SFV_STRING ''x'', it_params = []\<rparr>],
      il_params = [\<lparr>p_key = ''created'', p_value = SFV_INTEGER 5\<rparr>]\<rparr>"

definition example_base :: bytes where
  "example_base = [CHR 0x22] @ ''@authority'' @ [CHR 0x22] @ '': example.com'' @ [LF]
     @ [CHR 0x22] @ ''x'' @ [CHR 0x22] @ '': 1, 2'' @ [LF] @ params_label
     @ ''('' @ [CHR 0x22] @ ''@authority'' @ [CHR 0x22] @ '' '' @ [CHR 0x22] @ ''x'' @ [CHR 0x22] @ '');created=5''"

lemma example_base_build:
  "fst (base_build example_request example_list []) = NGX_OK example_base"
  "fst (base_build (example_request\<lparr>rq_method := ''POST''\<rparr>) example_list []) = NGX_OK example_base"
proof -
  have ex: "length (il_items example_list) \<le> MAX_SFV_ITEMS" "distinct (map ser_item (il_items example_list))"
    "example_base = base_text example_list [''example.com'', ''1, 2'']"
    by code_simp+
  have len: "length example_base \<le> MAX_BASE_LENGTH"
    by (simp add: example_base_def params_label_def MAX_BASE_LENGTH_def)
  have v1: "base_values example_request (il_items example_list) [''example.com'', ''1, 2'']"
    unfolding base_values_def by code_simp
  have v2: "base_values (example_request\<lparr>rq_method := ''POST''\<rparr>) (il_items example_list) [''example.com'', ''1, 2'']"
    unfolding base_values_def by code_simp
  from ex len v1 base_build_run [of example_request example_list example_base "[]"]
  show "fst (base_build example_request example_list []) = NGX_OK example_base" by auto
  from ex len v2 base_build_run [of "example_request\<lparr>rq_method := ''POST''\<rparr>" example_list example_base "[]"]
  show "fst (base_build (example_request\<lparr>rq_method := ''POST''\<rparr>) example_list []) = NGX_OK example_base" by auto
qed

lemma base_build_inj_example:
  "list_all (\<lambda>i. \<exists>v. component_value example_request i [] = (NGX_OK v, [])
     \<and> component_value (example_request\<lparr>rq_method := ''POST''\<rparr>) i [] = (NGX_OK v, [])) (il_items example_list)"
proof -
  have "request_no_LF example_request" "request_no_LF (example_request\<lparr>rq_method := ''POST''\<rparr>)" "wf_inner_list example_list"
    by code_simp+
  from base_build_inj [OF example_base_build this(3) this(3) this(1,2)] show ?thesis by (simp add: list_all_iff)
qed

text \<open>C13: The @query-param lookup: it succeeds exactly when the component has \<open>name\<close> as its only parameter, a
  String, and the query has exactly one pair whose key decodes to the decoded name; the value is that
  pair's value decoded and re-encoded.  The key comparison that decodes on the fly decides this equality.\<close>

theorem query_param_unique:
  "(query_param req c [] = (NGX_OK out, []) \<longleftrightarrow>
     (\<exists>name v. it_params c = [\<lparr>p_key = ''name'', p_value = SFV_STRING name\<rparr>] \<and>
        map snd (filter (\<lambda>(k, v). qs_decode_loop k = qs_decode_loop name) (qs_pairs (rq_query req))) = [v] \<and>
        out = qs_encode_loop (qs_decode_loop v)))
   \<and> (qs_key_eq raw target \<longleftrightarrow> qs_decode_loop raw = target)"
proof -
  have run: "(case query_param_loop name (rq_query req) None of
              Inl _ \<Rightarrow> declined BASE_MISSING_FIELD
            | Inr None \<Rightarrow> declined BASE_MISSING_FIELD
            | Inr (Some value_raw) \<Rightarrow> bnd (qs_decode value_raw) qs_encode) [] = (NGX_OK out, []) \<longleftrightarrow>
      (\<exists>v. qs_matches name (rq_query req) = [v] \<and> out = qs_encode_loop (qs_decode_loop v))" for name
    by (subst query_param_loop_spec) (auto simp: bnd_def split: list.splits)
  have "query_param req c [] = (NGX_OK out, []) \<longleftrightarrow>
      (\<exists>name v. it_params c = [\<lparr>p_key = ''name'', p_value = SFV_STRING name\<rparr>] \<and>
        qs_matches (qs_decode_loop name) (rq_query req) = [v] \<and> out = qs_encode_loop (qs_decode_loop v))"
  proof (cases "\<exists>name. param_get (it_params c) ''name'' = Some (SFV_STRING name) \<and> length (it_params c) = 1")
    case True
    then obtain name where n: "param_get (it_params c) ''name'' = Some (SFV_STRING name)" "length (it_params c) = 1"
      by blast
    with single_param [of "it_params c" "''name''"]
    have c: "it_params c = [\<lparr>p_key = ''name'', p_value = SFV_STRING name\<rparr>]" by blast
    show ?thesis
      unfolding query_param_def n using n(2) run [of "qs_decode_loop name"]
      by (simp add: bnd_OK [of "qs_decode _" "[]", OF qs_decode_Nil] c)
  next
    case False
    have "query_param req c = declined BASE_UNKNOWN_COMPONENT \<or> query_param req c = declined BASE_UNSUPPORTED_PARAM"
    proof (cases "param_get (it_params c) ''name''")
      case None
      then show ?thesis by (simp add: query_param_def)
    next
      case (Some b)
      with False show ?thesis by (cases b) (simp_all add: query_param_def)
    qed
    then have no: "query_param req c [] \<noteq> (NGX_OK out, [])" by (elim disjE) simp_all
    have nop: "it_params c \<noteq> [\<lparr>p_key = ''name'', p_value = SFV_STRING name\<rparr>]" for name
    proof
      assume "it_params c = [\<lparr>p_key = ''name'', p_value = SFV_STRING name\<rparr>]"
      then have "param_get (it_params c) ''name'' = Some (SFV_STRING name) \<and> length (it_params c) = 1"
        by (rule iffD2 [OF single_param])
      then show False by (rule notE [OF False exI])
    qed
    show ?thesis by (rule iffI) (erule notE [OF no], elim exE conjE, erule notE [OF nop])
  qed
  then show ?thesis unfolding qs_matches_def by (rule conjI [OF _ qs_key_eq_decode])
qed

text \<open>Form-urlencoded serialization is lossless and sized exactly: decoding an encoded text gives it back, the
  encoder writes exactly the bytes it counted, the decoder at most its input, and the buffer of
  \<open>@target-uri\<close> is never too small, so that its only failure is the allocation.\<close>

lemma base_codec_and_buffers:
  "qs_decode_loop (qs_encode_loop s) = s \<and> length (qs_encode_loop s) = qs_encode_cap s
   \<and> length (qs_decode_loop s) \<le> length s
   \<and> fst (target_uri req p) = (if fst (palloc p) then NGX_OK (rq_scheme req @ ''://'' @ rq_authority req
       @ effective_path req @ (if rq_has_query req then CHR ''?'' # rq_query req else [])) else NGX_ERROR)"
  by (auto simp: decode_encode_qs length_qs_encode length_qs_decode target_uri_eq bnd_def pool_alloc_def
      palloc_with_def split: prod.splits)

end
