(* ===== verification/Agent.thy ===== *)
theory Agent
  imports Base_Props
begin

text \<open>
  Resolution of the Signature-Agent field to a host or an authority (the \<open>agent_*\<close> functions of
  \<open>src/ngx_auth_httpsig_profile.c\<close>).  Spans given by pointers into the URL are the byte strings
  they delimit.  The functions return \<open>void\<close>: an allocation failure leaves the output empty.
\<close>

section \<open>Selecting an entry\<close>

definition agent_type_ok :: "sfv_param list \<Rightarrow> bool" where
  "agent_type_ok params =
     (case param_get params ''type'' of
        None \<Rightarrow> True
      | Some (SFV_TOKEN t) \<Rightarrow> str_eq t ''directory''
      | Some _ \<Rightarrow> False)"

text \<open>The usable String of an entry, \<open>None\<close> where the loop continues.\<close>

definition agent_usable :: "sfv_dict_entry \<Rightarrow> bytes option" where
  "agent_usable entry =
     (case e_value entry of
        MEMBER_ITEM i \<Rightarrow>
          (case it_bare i of
             SFV_STRING s \<Rightarrow> if agent_type_ok (it_params i) then Some s else None
           | _ \<Rightarrow> None)
      | MEMBER_INNER_LIST _ \<Rightarrow> None)"

fun agent_entry_loop :: "sfv_dict_entry list \<Rightarrow> bytes \<Rightarrow> bytes option \<Rightarrow> bytes option \<Rightarrow> bytes option \<times> bytes option" where
  "agent_entry_loop [] label mtch fallback = (mtch, fallback)"
| "agent_entry_loop (entry # entries) label mtch fallback =
     (case agent_usable entry of
        None \<Rightarrow> agent_entry_loop entries label mtch fallback
      | Some s \<Rightarrow>
          agent_entry_loop entries label
            (if mtch = None \<and> label \<noteq> [] \<and> str_eq (e_key entry) label then Some s else mtch)
            (if fallback = None then Some s else fallback))"

definition agent_entry :: "sfv_dictionary \<Rightarrow> bytes \<Rightarrow> bytes option \<Rightarrow> bytes option \<Rightarrow> bytes option \<times> bytes option" where
  "agent_entry dict label mtch fallback = agent_entry_loop (d_entries dict) label mtch fallback"

text \<open>Any return other than \<open>NGX_OK\<close> of the parsers, \<open>NGX_ERROR\<close> included, tries the next form.\<close>

fun agent_url_loop :: "bytes list \<Rightarrow> bytes \<Rightarrow> bytes option \<Rightarrow> bytes option \<Rightarrow> pool \<Rightarrow> (bytes option \<times> bytes option) \<times> pool" where
  "agent_url_loop [] label mtch fallback pool = ((mtch, fallback), pool)"
| "agent_url_loop (line # raws) label mtch fallback pool =
     (if line = [] \<or> MAX_SFV_LENGTH < length line then agent_url_loop raws label mtch fallback pool
      else case parse_dictionary line pool of
        (NGX_OK dict, pool) \<Rightarrow>
          (case agent_entry dict label mtch fallback of
             (mtch, fallback) \<Rightarrow>
               if mtch \<noteq> None then ((mtch, fallback), pool)
               else agent_url_loop raws label mtch fallback pool)
      | (_, pool) \<Rightarrow>
          (case parse_item line pool of
             (NGX_OK item, pool) \<Rightarrow>
               agent_url_loop raws label mtch
                 (if fallback = None
                  then Some (if is_string (it_bare item) then bare_value (it_bare item) else line)
                  else fallback) pool
           | (_, pool) \<Rightarrow>
               agent_url_loop raws label mtch (if fallback = None then Some line else fallback) pool))"

definition agent_url :: "bytes list \<Rightarrow> bytes \<Rightarrow> (pool, unit, bytes) op" where
  "agent_url raws label pool =
     (case agent_url_loop raws label None None pool of
        ((Some m, _), pool) \<Rightarrow> (NGX_OK m, pool)
      | ((None, Some f), pool) \<Rightarrow> (NGX_OK f, pool)
      | ((None, None), pool) \<Rightarrow> (NGX_DECLINED (), pool))"

section \<open>Host and authority\<close>

text \<open>The loop from the end of the authority down to the last \<open>@\<close>.\<close>

definition strip_userinfo :: "bytes \<Rightarrow> bytes" where
  "strip_userinfo auth = rev (takeWhile (\<lambda>c. c \<noteq> CHR ''@'') (rev auth))"

definition v6_char :: "char \<Rightarrow> bool" where
  "v6_char c \<longleftrightarrow> is_hex c \<or> c = CHR '':''"

definition host_char :: "char \<Rightarrow> bool" where
  "host_char c \<longleftrightarrow> is_alpha c \<or> is_digit c \<or> c = CHR ''-'' \<or> c = CHR ''.''"

text \<open>The checks after the host: a port is a colon and at least one digit.\<close>

definition bounds_port :: "bytes \<Rightarrow> bytes \<Rightarrow> (bytes \<times> bytes) option" where
  "bounds_port host rest =
     (if rest \<noteq> [] \<and> (hd rest \<noteq> CHR '':'' \<or> tl rest = []) then None
      else if rest \<noteq> [] \<and> (\<exists>c\<in>set (tl rest). \<not> is_digit c) then None
      else if host = [] then None
      else Some (host, host @ rest))"

definition agent_bounds :: "bytes \<Rightarrow> (bytes \<times> bytes) option" where
  "agent_bounds url =
     (if length url < 8 \<or> ngx_strncasecmp url ''https://'' 8 \<noteq> 0 then None
      else
        let auth = takeWhile (\<lambda>c. c \<noteq> CHR ''/'' \<and> c \<noteq> CHR ''?'' \<and> c \<noteq> CHR ''#'') (drop 8 url);
            start = strip_userinfo auth
        in if start = [] then None
           else if hd start = CHR ''['' then
             let body = takeWhile (\<lambda>c. c \<noteq> CHR '']'') (tl start);
                 rest = dropWhile (\<lambda>c. c \<noteq> CHR '']'') (tl start)
             in if (\<exists>c\<in>set body. \<not> v6_char c) then None
                else if rest = [] \<or> body = [] then None
                else bounds_port (CHR ''['' # body @ '']'') (tl rest)
           else
             let body = takeWhile (\<lambda>c. c \<noteq> CHR '':'') start;
                 rest = dropWhile (\<lambda>c. c \<noteq> CHR '':'') start
             in if (\<exists>c\<in>set body. \<not> host_char c) then None
                else bounds_port body rest)"

definition agent_copy :: "bytes \<Rightarrow> pool \<Rightarrow> bytes \<times> pool" where
  "agent_copy s pool = (case palloc pool of (True, p) \<Rightarrow> (ngx_strlow s, p) | (False, p) \<Rightarrow> ([], p))"

definition agent_part :: "(bytes \<times> bytes \<Rightarrow> bytes) \<Rightarrow> bytes list \<Rightarrow> bytes \<Rightarrow> pool \<Rightarrow> bytes \<times> pool" where
  "agent_part part raws label pool =
     (case agent_url raws label pool of
        (NGX_OK url, pool) \<Rightarrow>
          (case agent_bounds url of
             Some b \<Rightarrow> agent_copy (part b) pool
           | None \<Rightarrow> ([], pool))
      | (_, pool) \<Rightarrow> ([], pool))"

definition agent_host :: "bytes list \<Rightarrow> bytes \<Rightarrow> pool \<Rightarrow> bytes \<times> pool" where
  "agent_host = agent_part fst"

definition agent_authority :: "bytes list \<Rightarrow> bytes \<Rightarrow> pool \<Rightarrow> bytes \<times> pool" where
  "agent_authority = agent_part snd"

section \<open>What is extracted\<close>

text \<open>A host in the output: lower-case letters, digits, dots and hyphens, or a bracketed literal.\<close>

definition low_host_char :: "char \<Rightarrow> bool" where
  "low_host_char c \<longleftrightarrow> is_lcalpha c \<or> is_digit c \<or> c = CHR ''-'' \<or> c = CHR ''.''"

definition low_v6_char :: "char \<Rightarrow> bool" where
  "low_v6_char c \<longleftrightarrow> (CHR ''a'' \<le> c \<and> c \<le> CHR ''f'') \<or> is_digit c \<or> c = CHR '':''"

definition safe_host :: "bytes \<Rightarrow> bool" where
  "safe_host h \<longleftrightarrow> h \<noteq> [] \<and>
     ((\<forall>c\<in>set h. low_host_char c) \<or>
      (\<exists>b. h = CHR ''['' # b @ '']'' \<and> b \<noteq> [] \<and> (\<forall>c\<in>set b. low_v6_char c)))"

lemma tolower_host_char: "host_char c \<Longrightarrow> low_host_char (ngx_tolower c)"
  by (auto simp: host_char_def low_host_char_def is_alpha_def is_lcalpha_def is_digit_def less_eq_char_def
      code_of_tolower code_of_eq [symmetric] simp del: code_of_eq)

lemma tolower_v6_char: "v6_char c \<Longrightarrow> low_v6_char (ngx_tolower c)"
  by (auto simp: v6_char_def is_hex_def low_v6_char_def is_digit_def less_eq_char_def
      code_of_tolower code_of_eq [symmetric] simp del: code_of_eq)

lemma tolower_fixed: "is_digit c \<Longrightarrow> ngx_tolower c = c" "ngx_tolower CHR '':'' = CHR '':''"
  "ngx_tolower CHR ''['' = CHR ''[''" "ngx_tolower CHR '']'' = CHR '']''"
  by (auto simp: is_digit_def ngx_tolower_def less_eq_char_def)

lemma strlow_digits: "all_digits s \<Longrightarrow> ngx_strlow s = s"
  by (induction s) (simp_all add: ngx_strlow_def tolower_fixed)

lemma bounds_port_Some:
  "bounds_port host rest = Some (h, a) \<Longrightarrow>
   h = host \<and> host \<noteq> [] \<and> (rest = [] \<and> a = host \<or> (\<exists>ds. ds \<noteq> [] \<and> all_digits ds \<and> a = host @ CHR '':'' # ds))"
  by (cases rest) (auto simp: bounds_port_def split: if_splits)

lemma agent_bounds_safe:
  assumes "agent_bounds url = Some (h, a)"
  shows "safe_host (ngx_strlow h) \<and>
    (ngx_strlow a = ngx_strlow h \<or> (\<exists>ds. ds \<noteq> [] \<and> all_digits ds \<and> ngx_strlow a = ngx_strlow h @ CHR '':'' # ds))"
proof -
  let ?auth = "takeWhile (\<lambda>c. c \<noteq> CHR ''/'' \<and> c \<noteq> CHR ''?'' \<and> c \<noteq> CHR ''#'') (drop 8 url)"
  define start where "start = strip_userinfo ?auth"
  have ne: "start \<noteq> []" using assms by (auto simp: agent_bounds_def Let_def start_def split: if_split_asm)
  obtain host rest where p: "bounds_port host rest = Some (h, a)"
    and host: "(\<forall>c\<in>set host. host_char c) \<or> (\<exists>b. host = CHR ''['' # b @ '']'' \<and> b \<noteq> [] \<and> (\<forall>c\<in>set b. v6_char c))"
  proof (cases "hd start = CHR ''[''")
    case True
    let ?b = "takeWhile (\<lambda>c. c \<noteq> CHR '']'') (tl start)" and ?r = "dropWhile (\<lambda>c. c \<noteq> CHR '']'') (tl start)"
    from assms True have "bounds_port (CHR ''['' # ?b @ '']'') (tl ?r) = Some (h, a)" "\<forall>c\<in>set ?b. v6_char c" "?b \<noteq> []"
      unfolding agent_bounds_def Let_def start_def [symmetric] by (simp_all split: if_split_asm)
    then show thesis by (intro that [of "CHR ''['' # ?b @ '']''" "tl ?r"]) auto
  next
    case False
    let ?b = "takeWhile (\<lambda>c. c \<noteq> CHR '':'') start" and ?r = "dropWhile (\<lambda>c. c \<noteq> CHR '':'') start"
    from assms False have "bounds_port ?b ?r = Some (h, a)" "\<forall>c\<in>set ?b. host_char c"
      unfolding agent_bounds_def Let_def start_def [symmetric] by (simp_all split: if_split_asm)
    then show thesis by (intro that) auto
  qed
  from bounds_port_Some [OF p] have h: "h = host" "host \<noteq> []" by auto
  have "safe_host (ngx_strlow host)"
    using host h(2) unfolding safe_host_def
    by (auto simp: ngx_strlow_def tolower_host_char tolower_v6_char tolower_fixed)
  moreover have "ngx_strlow a = ngx_strlow h \<or> (\<exists>ds. ds \<noteq> [] \<and> all_digits ds \<and> ngx_strlow a = ngx_strlow h @ CHR '':'' # ds)"
    using bounds_port_Some [OF p] by (auto simp: ngx_strlow_def tolower_fixed strlow_digits [unfolded ngx_strlow_def])
  ultimately show ?thesis using h by simp
qed

lemma agent_copy_cases: "fst (agent_copy s pool) \<in> {ngx_strlow s, []}"
  by (auto simp: agent_copy_def split: prod.splits bool.splits)

lemma agent_part_cases:
  "fst (agent_part part raws label pool) = [] \<or>
   (\<exists>url b. agent_bounds url = Some b \<and> fst (agent_part part raws label pool) = ngx_strlow (part b))"
  using agent_copy_cases unfolding agent_part_def by (fastforce split: prod.splits rc.splits option.splits)

lemma agent_host_safe: "fst (agent_host raws label pool) = [] \<or> safe_host (fst (agent_host raws label pool))"
  using agent_part_cases [of fst raws label pool] agent_bounds_safe unfolding agent_host_def by fastforce

lemma agent_authority_safe:
  "fst (agent_authority raws label pool) = [] \<or>
      (\<exists>h. safe_host h \<and> (fst (agent_authority raws label pool) = h \<or>
         (\<exists>ds. ds \<noteq> [] \<and> all_digits ds \<and> fst (agent_authority raws label pool) = h @ CHR '':'' # ds)))"
  using agent_part_cases [of snd raws label pool] agent_bounds_safe unfolding agent_authority_def by fastforce

section \<open>Properties\<close>

text \<open>Whatever a client puts into Signature-Agent, the extracted agent host is empty or a lower-case host name
  (letters, digits, dots, hyphens) or bracketed IPv6 literal, and the extracted authority is empty or such
  a host, optionally with a colon and a decimal port: no userinfo, path, query or control character gets
  through to \<open>$httpsig_agent\<close>, the allow list or the fetch.\<close>

lemma agent_output_safe:
  "(fst (agent_host raws label pool) = [] \<or> safe_host (fst (agent_host raws label pool)))
   \<and> (fst (agent_authority raws label pool) = [] \<or>
      (\<exists>h. safe_host h \<and> (fst (agent_authority raws label pool) = h \<or>
         (\<exists>ds. ds \<noteq> [] \<and> all_digits ds \<and> fst (agent_authority raws label pool) = h @ CHR '':'' # ds))))"
  by (rule conjI [OF agent_host_safe agent_authority_safe])

lemma agent_output_safe_example:
  "fst (agent_host [''https://me@Bot.Example:8443/x''] [] []) = ''bot.example'' \<and> safe_host ''bot.example''"
proof -
  have "fst (agent_host [''https://me@Bot.Example:8443/x''] [] []) = ''bot.example''" by code_simp
  with agent_output_safe [of "[''https://me@Bot.Example:8443/x'']" "[]" "[]"] show ?thesis by auto
qed

text \<open>An allocation failure inside the Dictionary parse is taken for "not a Dictionary": a line that is a
  well-formed Dictionary without a usable entry names no URL, but the same line is read as a raw URL when
  the first allocation fails.\<close>

lemma agent_url_alloc_failure:
  "fst (agent_url [''a=?1''] [] []) = NGX_DECLINED () \<and> fst (agent_url [''a=?1''] [] [False]) = NGX_OK ''a=?1''"
  by code_simp

end
