(* ===== verification/Keys.thy ===== *)
theory Keys
  imports Ngx
begin

text \<open>
  Verification keys (\<open>src/ngx_auth_httpsig_keys.h\<close>, \<open>src/ngx_auth_httpsig_keys.c\<close>).

  The JSON and JWK libraries (the \<open>nxe-json\<close> and \<open>nxe-jwx\<close> submodules) are not in the repository: the
  functions the code calls are the fields of the record \<open>jwx\<close>, a parameter of every definition that
  uses them.  A keyset is a JWKS handle or a chain of two keysets; the source table of the C code is
  the case distinction between the two, and \<open>NULL\<close> is \<open>None\<close>.
\<close>

section \<open>The JSON and JWK libraries\<close>

record ('json, 'jwks) jwx =
  nxe_json_parse :: "bytes \<Rightarrow> 'json option"
  nxe_json_is_object :: "'json \<Rightarrow> bool"
  nxe_json_object_get :: "'json \<Rightarrow> string \<Rightarrow> 'json option"
  nxe_json_is_array :: "'json \<Rightarrow> bool"
  nxe_json_array_size :: "'json \<Rightarrow> nat"
  nxe_json_array_get :: "'json \<Rightarrow> nat \<Rightarrow> 'json option"
  nxe_json_object_get_string :: "'json option \<Rightarrow> string \<Rightarrow> bytes option"
  nxe_jwx_jwks_parse :: "bytes \<Rightarrow> 'jwks option"
  nxe_jwx_jwks_has_thumbprint :: "'jwks \<Rightarrow> bytes \<Rightarrow> bool"
  nxe_jwx_jwks_has_kid :: "'jwks \<Rightarrow> bytes \<Rightarrow> bool"
  nxe_jwx_jwks_verify_raw :: "'jwks \<Rightarrow> bytes \<Rightarrow> bytes \<Rightarrow> bytes \<Rightarrow> (unit, unit) rc"
  nxe_jwx_jwks_verify_raw_by_kid :: "'jwks \<Rightarrow> bytes \<Rightarrow> bytes \<Rightarrow> bytes \<Rightarrow> (unit, unit) rc"

text \<open>\<open>ngx_strncmp\<close> is the C library's \<open>strncmp\<close>: it stops at a common NUL.\<close>

fun ngx_strncmp :: "bytes \<Rightarrow> bytes \<Rightarrow> nat \<Rightarrow> int" where
  "ngx_strncmp s1 s2 0 = 0"
| "ngx_strncmp s1 s2 (Suc n) =
     (let c1 = (case s1 of [] \<Rightarrow> CHR 0x00 | c # _ \<Rightarrow> c); c2 = (case s2 of [] \<Rightarrow> CHR 0x00 | c # _ \<Rightarrow> c)
      in if c1 = c2 then (if c1 = CHR 0x00 then 0 else ngx_strncmp (tl s1) (tl s2) n)
         else int (code_of c1) - int (code_of c2))"

lemma ngx_strncmp_eq:
  "CHR 0x00 \<notin> set s2 \<Longrightarrow> length s1 = n \<Longrightarrow> length s2 = n \<Longrightarrow> ngx_strncmp s1 s2 n = 0 \<longleftrightarrow> s1 = s2"
proof (induction n arbitrary: s1 s2)
  case 0
  then show ?case by simp
next
  case (Suc n)
  then obtain c1 t1 c2 t2 where s: "s1 = c1 # t1" "s2 = c2 # t2" by (metis length_Suc_conv)
  with Suc show ?case by (auto simp: Let_def)
qed

section \<open>Keysets\<close>

datatype 'jwks keys =
    KEYS_JWKS 'jwks
  | KEYS_CHAIN "'jwks keys" "'jwks keys"

definition MAX_JWKS_SIZE :: nat where "MAX_JWKS_SIZE = 262144"
definition MAX_JWKS_KEYS :: nat where "MAX_JWKS_KEYS = 64"

definition key_is_ed25519 :: "('json, 'jwks) jwx \<Rightarrow> 'json option \<Rightarrow> bool" where
  "key_is_ed25519 lib key =
     (case nxe_json_object_get_string lib key ''kty'' of
        None \<Rightarrow> False
      | Some kty \<Rightarrow>
          if length kty \<noteq> 3 \<or> ngx_strncmp kty ''OKP'' (length kty) \<noteq> 0 then False
          else case nxe_json_object_get_string lib key ''crv'' of
            None \<Rightarrow> False
          | Some crv \<Rightarrow> \<not> (length crv \<noteq> 7 \<or> ngx_strncmp crv ''Ed25519'' (length crv) \<noteq> 0))"

fun check_keys_loop :: "('json, 'jwks) jwx \<Rightarrow> 'json \<Rightarrow> nat \<Rightarrow> nat \<Rightarrow> bool" where
  "check_keys_loop lib ks i 0 = True"
| "check_keys_loop lib ks i (Suc n) =
     (if \<not> key_is_ed25519 lib (nxe_json_array_get lib ks i) then False
      else check_keys_loop lib ks (i + 1) n)"

definition check_ed25519_only_body :: "('json, 'jwks) jwx \<Rightarrow> 'json \<Rightarrow> bool" where
  "check_ed25519_only_body lib root =
     (if \<not> nxe_json_is_object lib root then False
      else case nxe_json_object_get lib root ''keys'' of
        None \<Rightarrow> False
      | Some ks \<Rightarrow>
          if \<not> nxe_json_is_array lib ks then False
          else let n = nxe_json_array_size lib ks in
            if MAX_JWKS_KEYS < n then False else check_keys_loop lib ks 0 n)"

definition check_ed25519_only :: "('json, 'jwks) jwx \<Rightarrow> bytes \<Rightarrow> bool" where
  "check_ed25519_only lib jwks_json =
     (case nxe_json_parse lib jwks_json of
        None \<Rightarrow> False
      | Some root \<Rightarrow> check_ed25519_only_body lib root)"

definition load_jwks :: "('json, 'jwks) jwx \<Rightarrow> bytes \<Rightarrow> (pool, unit, 'jwks keys) op" where
  "load_jwks lib jwks_json pool =
     (if MAX_JWKS_SIZE < length jwks_json then (NGX_ERROR, pool)
      else if \<not> check_ed25519_only lib jwks_json then (NGX_ERROR, pool)
      else case nxe_jwx_jwks_parse lib jwks_json of
        None \<Rightarrow> (NGX_ERROR, pool)
      | Some jwks \<Rightarrow> bnd pool_alloc (\<lambda>_. ret (KEYS_JWKS jwks)) pool)"

fun source_has :: "('json, 'jwks) jwx \<Rightarrow> 'jwks keys \<Rightarrow> bytes \<Rightarrow> bool" where
  "source_has lib (KEYS_JWKS d) keyid = nxe_jwx_jwks_has_thumbprint lib d keyid"
| "source_has lib (KEYS_CHAIN first second) keyid = (source_has lib first keyid \<or> source_has lib second keyid)"

fun source_has_kid :: "('json, 'jwks) jwx \<Rightarrow> 'jwks keys \<Rightarrow> bytes \<Rightarrow> bool" where
  "source_has_kid lib (KEYS_JWKS d) kid = nxe_jwx_jwks_has_kid lib d kid"
| "source_has_kid lib (KEYS_CHAIN first second) kid = (source_has_kid lib first kid \<or> source_has_kid lib second kid)"

fun source_verify :: "('json, 'jwks) jwx \<Rightarrow> 'jwks keys \<Rightarrow> bytes \<Rightarrow> bytes \<Rightarrow> bytes \<Rightarrow> (unit, unit) rc" where
  "source_verify lib (KEYS_JWKS d) keyid msg sig = nxe_jwx_jwks_verify_raw lib d keyid msg sig"
| "source_verify lib (KEYS_CHAIN first second) keyid msg sig =
     (if source_verify lib first keyid msg sig = NGX_OK () then NGX_OK ()
      else source_verify lib second keyid msg sig)"

fun source_verify_kid :: "('json, 'jwks) jwx \<Rightarrow> 'jwks keys \<Rightarrow> bytes \<Rightarrow> bytes \<Rightarrow> bytes \<Rightarrow> (unit, unit) rc" where
  "source_verify_kid lib (KEYS_JWKS d) kid msg sig = nxe_jwx_jwks_verify_raw_by_kid lib d kid msg sig"
| "source_verify_kid lib (KEYS_CHAIN first second) kid msg sig =
     (if source_verify_kid lib first kid msg sig = NGX_OK () then NGX_OK ()
      else source_verify_kid lib second kid msg sig)"

definition keys_has :: "('json, 'jwks) jwx \<Rightarrow> 'jwks keys option \<Rightarrow> bytes \<Rightarrow> bool" where
  "keys_has lib ks keyid = (case ks of None \<Rightarrow> False | Some k \<Rightarrow> source_has lib k keyid)"

definition keys_has_kid :: "('json, 'jwks) jwx \<Rightarrow> 'jwks keys option \<Rightarrow> bytes \<Rightarrow> bool" where
  "keys_has_kid lib ks kid = (case ks of None \<Rightarrow> False | Some k \<Rightarrow> source_has_kid lib k kid)"

definition keys_verify :: "('json, 'jwks) jwx \<Rightarrow> 'jwks keys option \<Rightarrow> bytes \<Rightarrow> bytes \<Rightarrow> bytes \<Rightarrow> (unit, unit) rc" where
  "keys_verify lib ks keyid msg sig =
     (case ks of None \<Rightarrow> NGX_ERROR | Some k \<Rightarrow> source_verify lib k keyid msg sig)"

definition keys_verify_kid :: "('json, 'jwks) jwx \<Rightarrow> 'jwks keys option \<Rightarrow> bytes \<Rightarrow> bytes \<Rightarrow> bytes \<Rightarrow> (unit, unit) rc" where
  "keys_verify_kid lib ks kid msg sig =
     (case ks of None \<Rightarrow> NGX_ERROR | Some k \<Rightarrow> source_verify_kid lib k kid msg sig)"

text \<open>\<open>NULL\<close> when an allocation fails; otherwise the keyset that tries \<open>first\<close> before \<open>second\<close>.\<close>

definition keys_chain :: "'jwks keys option \<Rightarrow> 'jwks keys option \<Rightarrow> pool \<Rightarrow> 'jwks keys option \<times> pool" where
  "keys_chain first second pool =
     (case first of
        None \<Rightarrow> (second, pool)
      | Some f \<Rightarrow>
          (case second of
             None \<Rightarrow> (first, pool)
           | Some s \<Rightarrow>
               (case bnd pool_alloc (\<lambda>_. bnd pool_alloc (\<lambda>_. ret (KEYS_CHAIN f s))) pool of
                  (NGX_OK k, pool) \<Rightarrow> (Some k, pool)
                | (_ :: (unit, 'jwks keys) rc, pool) \<Rightarrow> (None, pool))))"

section \<open>What a keyset accepts\<close>

fun leaves :: "'jwks keys \<Rightarrow> 'jwks list" where
  "leaves (KEYS_JWKS d) = [d]"
| "leaves (KEYS_CHAIN f s) = leaves f @ leaves s"

text \<open>The contract of one column of the source table: a chain accepts what either part accepts.\<close>

locale chained_source =
  fixes accepts :: "'jwks keys \<Rightarrow> bool" and leaf :: "'jwks \<Rightarrow> bool"
  assumes accepts_jwks: "accepts (KEYS_JWKS d) \<longleftrightarrow> leaf d"
    and accepts_chain: "accepts (KEYS_CHAIN f s) \<longleftrightarrow> accepts f \<or> accepts s"
begin

lemma accepts_leaves: "accepts k \<longleftrightarrow> (\<exists>d\<in>set (leaves k). leaf d)"
  by (induction k) (auto simp: accepts_jwks accepts_chain)

end

interpretation has_source: chained_source "\<lambda>k. source_has lib k keyid" "\<lambda>d. nxe_jwx_jwks_has_thumbprint lib d keyid"
  for lib keyid
  by unfold_locales simp_all

interpretation kid_source: chained_source "\<lambda>k. source_has_kid lib k kid" "\<lambda>d. nxe_jwx_jwks_has_kid lib d kid"
  for lib kid
  by unfold_locales simp_all

interpretation verify_source: chained_source "\<lambda>k. source_verify lib k keyid msg sig = NGX_OK ()"
    "\<lambda>d. nxe_jwx_jwks_verify_raw lib d keyid msg sig = NGX_OK ()"
  for lib keyid msg sig
  by unfold_locales simp_all

interpretation verify_kid_source: chained_source "\<lambda>k. source_verify_kid lib k kid msg sig = NGX_OK ()"
    "\<lambda>d. nxe_jwx_jwks_verify_raw_by_kid lib d kid msg sig = NGX_OK ()"
  for lib kid msg sig
  by unfold_locales simp_all

text \<open>The documents behind a keyset.\<close>

definition documents :: "'jwks keys option \<Rightarrow> 'jwks set" where
  "documents k = (case k of None \<Rightarrow> {} | Some k \<Rightarrow> set (leaves k))"

lemma documents_hold:
  "keys_has lib k keyid \<longleftrightarrow> (\<exists>d\<in>documents k. nxe_jwx_jwks_has_thumbprint lib d keyid)"
  "keys_has_kid lib k keyid \<longleftrightarrow> (\<exists>d\<in>documents k. nxe_jwx_jwks_has_kid lib d keyid)"
  "keys_verify lib k keyid msg sig = NGX_OK () \<longleftrightarrow> (\<exists>d\<in>documents k. nxe_jwx_jwks_verify_raw lib d keyid msg sig = NGX_OK ())"
  "keys_verify_kid lib k keyid msg sig = NGX_OK () \<longleftrightarrow> (\<exists>d\<in>documents k. nxe_jwx_jwks_verify_raw_by_kid lib d keyid msg sig = NGX_OK ())"
  by (cases k; simp add: documents_def keys_has_def keys_has_kid_def keys_verify_def keys_verify_kid_def has_source.accepts_leaves
      kid_source.accepts_leaves verify_source.accepts_leaves verify_kid_source.accepts_leaves)+

lemma documents_chain:
  assumes "keys_chain first second pool = (r, pool')" and "r \<noteq> None"
  shows "documents r = documents first \<union> documents second"
  using assms by (auto simp: documents_def keys_chain_def bnd_def pool_alloc_def palloc_with_def ret_def
      split: option.splits prod.splits rc.splits if_splits)

lemma check_keys_loop_all:
  "check_keys_loop lib ks i n \<longleftrightarrow> (\<forall>j. i \<le> j \<and> j < i + n \<longrightarrow> key_is_ed25519 lib (nxe_json_array_get lib ks j))"
proof (induction n arbitrary: i)
  case 0
  then show ?case by auto
next
  case (Suc n)
  show ?case
  proof
    assume "check_keys_loop lib ks i (Suc n)"
    then have i: "key_is_ed25519 lib (nxe_json_array_get lib ks i)" and "check_keys_loop lib ks (i + 1) n"
      by (simp_all split: if_splits)
    with Suc [of "i + 1"] have r: "\<forall>j. i + 1 \<le> j \<and> j < i + 1 + n \<longrightarrow> key_is_ed25519 lib (nxe_json_array_get lib ks j)"
      by simp
    show "\<forall>j. i \<le> j \<and> j < i + Suc n \<longrightarrow> key_is_ed25519 lib (nxe_json_array_get lib ks j)"
    proof (intro allI impI)
      fix j
      assume "i \<le> j \<and> j < i + Suc n"
      with i r show "key_is_ed25519 lib (nxe_json_array_get lib ks j)" by (cases "j = i") simp_all
    qed
  next
    assume "\<forall>j. i \<le> j \<and> j < i + Suc n \<longrightarrow> key_is_ed25519 lib (nxe_json_array_get lib ks j)"
    with Suc [of "i + 1"] show "check_keys_loop lib ks i (Suc n)" by simp
  qed
qed

lemma key_is_ed25519_iff:
  "key_is_ed25519 lib key \<longleftrightarrow>
     nxe_json_object_get_string lib key ''kty'' = Some ''OKP'' \<and>
     nxe_json_object_get_string lib key ''crv'' = Some ''Ed25519''"
proof -
  have kty: "(length k \<noteq> 3 \<or> ngx_strncmp k ''OKP'' (length k) \<noteq> 0) \<longleftrightarrow> k \<noteq> ''OKP''" for k
    using ngx_strncmp_eq [of "''OKP''" k 3] by auto
  have crv: "(length k \<noteq> 7 \<or> ngx_strncmp k ''Ed25519'' (length k) \<noteq> 0) \<longleftrightarrow> k \<noteq> ''Ed25519''" for k
    using ngx_strncmp_eq [of "''Ed25519''" k 7] by auto
  show ?thesis
    unfolding key_is_ed25519_def kty crv
    by (cases "nxe_json_object_get_string lib key ''kty''"; cases "nxe_json_object_get_string lib key ''crv''")
      simp_all
qed

section \<open>Properties\<close>

text \<open>C11: A JWKS document that is loaded is at most 262144 bytes and is an object whose \<open>keys\<close> member is an
  array of at most 64 entries, every one of which has \<open>kty\<close> \<open>OKP\<close> and \<open>crv\<close> \<open>Ed25519\<close>; a document with
  one other key is rejected whole.\<close>

theorem load_jwks_ed25519_only:
  assumes "fst (load_jwks lib doc pool) = NGX_OK k"
  shows "length doc \<le> 262144 \<and>
    (\<exists>root ks. nxe_json_parse lib doc = Some root \<and> nxe_json_is_object lib root \<and>
       nxe_json_object_get lib root ''keys'' = Some ks \<and> nxe_json_is_array lib ks \<and>
       nxe_json_array_size lib ks \<le> 64 \<and>
       (\<forall>i < nxe_json_array_size lib ks.
          nxe_json_object_get_string lib (nxe_json_array_get lib ks i) ''kty'' = Some ''OKP'' \<and>
          nxe_json_object_get_string lib (nxe_json_array_get lib ks i) ''crv'' = Some ''Ed25519''))"
proof -
  from assms have "length doc \<le> 262144" "check_ed25519_only lib doc"
    by (auto simp: load_jwks_def MAX_JWKS_SIZE_def split: if_splits)
  then show ?thesis
    by (auto simp: check_ed25519_only_def check_ed25519_only_body_def Let_def MAX_JWKS_KEYS_def
        check_keys_loop_all key_is_ed25519_iff split: option.splits if_splits)
qed

text \<open>The library instantiated with a small concrete one: a document is the list of its keys.\<close>

definition toy_jwx :: "((string \<times> string) list, bytes) jwx" where
  "toy_jwx =
     \<lparr>nxe_json_parse = (\<lambda>s. Some [(s, s)]), nxe_json_is_object = (\<lambda>_. True),
      nxe_json_object_get = (\<lambda>j s. Some j), nxe_json_is_array = (\<lambda>_. True), nxe_json_array_size = length,
      nxe_json_array_get = (\<lambda>j i. if i < length j then Some [j ! i] else None),
      nxe_json_object_get_string = (\<lambda>j s. Some (if s = ''kty'' then ''OKP'' else ''Ed25519'')),
      nxe_jwx_jwks_parse = Some, nxe_jwx_jwks_has_thumbprint = (\<lambda>d k. d = k), nxe_jwx_jwks_has_kid = (\<lambda>d k. d = k),
      nxe_jwx_jwks_verify_raw = (\<lambda>d k m s. if d = k then NGX_OK () else NGX_DECLINED ()),
      nxe_jwx_jwks_verify_raw_by_kid = (\<lambda>d k m s. if d = k then NGX_OK () else NGX_DECLINED ())\<rparr>"

theorem load_jwks_ed25519_only_witness:
  "length ''doc'' \<le> 262144 \<and>
    (\<exists>root ks. nxe_json_parse toy_jwx ''doc'' = Some root \<and> nxe_json_is_object toy_jwx root \<and>
       nxe_json_object_get toy_jwx root ''keys'' = Some ks \<and> nxe_json_is_array toy_jwx ks \<and>
       nxe_json_array_size toy_jwx ks \<le> 64 \<and>
       (\<forall>i < nxe_json_array_size toy_jwx ks.
          nxe_json_object_get_string toy_jwx (nxe_json_array_get toy_jwx ks i) ''kty'' = Some ''OKP'' \<and>
          nxe_json_object_get_string toy_jwx (nxe_json_array_get toy_jwx ks i) ''crv'' = Some ''Ed25519''))"
proof (rule load_jwks_ed25519_only)
  have "check_ed25519_only toy_jwx ''doc''"
    by (simp add: check_ed25519_only_def check_ed25519_only_body_def check_keys_loop_all key_is_ed25519_iff
        toy_jwx_def Let_def MAX_JWKS_KEYS_def)
  then show "fst (load_jwks toy_jwx ''doc'' []) = NGX_OK (KEYS_JWKS ''doc'')"
    by (simp add: load_jwks_def MAX_JWKS_SIZE_def) (simp add: toy_jwx_def bnd_def pool_alloc_Nil ret_def)
qed

text \<open>A chained keyset accepts exactly what its parts accept: the chain of \<open>first\<close> and \<open>second\<close> holds a key,
  by thumbprint or by kid, or verifies a signature, if and only if one of them does.\<close>

lemma keys_chain_accepts:
  assumes "keys_chain first second pool = (r, pool')" and "r \<noteq> None"
  shows "(keys_has lib r keyid \<longleftrightarrow> keys_has lib first keyid \<or> keys_has lib second keyid) \<and>
    (keys_has_kid lib r keyid \<longleftrightarrow> keys_has_kid lib first keyid \<or> keys_has_kid lib second keyid) \<and>
    (keys_verify lib r keyid msg sig = NGX_OK () \<longleftrightarrow>
       keys_verify lib first keyid msg sig = NGX_OK () \<or> keys_verify lib second keyid msg sig = NGX_OK ()) \<and>
    (keys_verify_kid lib r keyid msg sig = NGX_OK () \<longleftrightarrow>
       keys_verify_kid lib first keyid msg sig = NGX_OK () \<or> keys_verify_kid lib second keyid msg sig = NGX_OK ())"
  unfolding documents_hold documents_chain [OF assms] by (simp add: bex_Un)

lemma keys_chain_accepts_example:
  "(keys_has toy_jwx (Some (KEYS_CHAIN (KEYS_JWKS ''a'') (KEYS_JWKS ''b''))) ''b'' \<longleftrightarrow>
      keys_has toy_jwx (Some (KEYS_JWKS ''a'')) ''b'' \<or> keys_has toy_jwx (Some (KEYS_JWKS ''b'')) ''b'') \<and>
    (keys_has_kid toy_jwx (Some (KEYS_CHAIN (KEYS_JWKS ''a'') (KEYS_JWKS ''b''))) ''b'' \<longleftrightarrow>
      keys_has_kid toy_jwx (Some (KEYS_JWKS ''a'')) ''b'' \<or> keys_has_kid toy_jwx (Some (KEYS_JWKS ''b'')) ''b'') \<and>
    (keys_verify toy_jwx (Some (KEYS_CHAIN (KEYS_JWKS ''a'') (KEYS_JWKS ''b''))) ''b'' ''m'' ''s'' = NGX_OK () \<longleftrightarrow>
       keys_verify toy_jwx (Some (KEYS_JWKS ''a'')) ''b'' ''m'' ''s'' = NGX_OK () \<or>
       keys_verify toy_jwx (Some (KEYS_JWKS ''b'')) ''b'' ''m'' ''s'' = NGX_OK ()) \<and>
    (keys_verify_kid toy_jwx (Some (KEYS_CHAIN (KEYS_JWKS ''a'') (KEYS_JWKS ''b''))) ''b'' ''m'' ''s'' = NGX_OK () \<longleftrightarrow>
       keys_verify_kid toy_jwx (Some (KEYS_JWKS ''a'')) ''b'' ''m'' ''s'' = NGX_OK () \<or>
       keys_verify_kid toy_jwx (Some (KEYS_JWKS ''b'')) ''b'' ''m'' ''s'' = NGX_OK ())"
  by (rule keys_chain_accepts [where pool = "[]" and pool' = "[]"])
    (simp_all add: keys_chain_def bnd_def pool_alloc_Nil ret_def)

end
