(* ===== verification/Verify.thy ===== *)
theory Verify
  imports Keys
begin

text \<open>
  Ed25519 verification of a signature base (\<open>src/ngx_auth_httpsig_verify.h\<close>,
  \<open>src/ngx_auth_httpsig_verify.c\<close>): the result codes, their names, and
  \<open>ngx_auth_httpsig_verify_ed25519\<close> with its opt-in lookup by kid.
\<close>

datatype httpsig_result =
    RESULT_OK
  | RESULT_NOT_SIGNED
  | RESULT_PARSE_ERROR
  | RESULT_UNKNOWN_KEYID
  | RESULT_SIGNATURE_MISMATCH
  | RESULT_EXPIRED
  | RESULT_PROFILE_MISMATCH
  | RESULT_KEY_UNAVAILABLE
  | RESULT_KEYID_NOT_THUMBPRINT
  | RESULT_NONCE_REPLAYED
  | RESULT_NONCE_TOO_LONG
  | RESULT_NONCE_MISSING
  | RESULT_NONCE_STORE_UNAVAILABLE

definition ED25519_SIGNATURE_LENGTH :: nat where "ED25519_SIGNATURE_LENGTH = 64"

fun result_name :: "httpsig_result \<Rightarrow> string" where
  "result_name RESULT_OK = ''ok''"
| "result_name RESULT_NOT_SIGNED = ''not_signed''"
| "result_name RESULT_PARSE_ERROR = ''parse_error''"
| "result_name RESULT_UNKNOWN_KEYID = ''unknown_keyid''"
| "result_name RESULT_SIGNATURE_MISMATCH = ''signature_mismatch''"
| "result_name RESULT_EXPIRED = ''expired''"
| "result_name RESULT_PROFILE_MISMATCH = ''profile_mismatch''"
| "result_name RESULT_KEY_UNAVAILABLE = ''key_unavailable''"
| "result_name RESULT_KEYID_NOT_THUMBPRINT = ''keyid_not_thumbprint''"
| "result_name RESULT_NONCE_REPLAYED = ''nonce_replayed''"
| "result_name RESULT_NONCE_TOO_LONG = ''nonce_too_long''"
| "result_name RESULT_NONCE_MISSING = ''nonce_missing''"
| "result_name RESULT_NONCE_STORE_UNAVAILABLE = ''nonce_store_unavailable''"

text \<open>\<open>NGX_OK\<close> is \<open>*result = RESULT_OK\<close>; \<open>NGX_DECLINED\<close> carries \<open>*result\<close>.\<close>

definition verify_ed25519 :: "('json, 'jwks) jwx \<Rightarrow> 'jwks keys option \<Rightarrow> bytes \<Rightarrow> bytes \<Rightarrow> bytes \<Rightarrow>
    'jwks keys option \<Rightarrow> (httpsig_result, unit) rc" where
  "verify_ed25519 lib ks keyid base signature kid_fallback_keys =
     (if ks = None \<or> keyid = [] then NGX_DECLINED RESULT_UNKNOWN_KEYID
      else if length signature \<noteq> ED25519_SIGNATURE_LENGTH then NGX_DECLINED RESULT_SIGNATURE_MISMATCH
      else if \<not> keys_has lib ks keyid then
        let is_kid = keys_has_kid lib ks keyid;
            refused = NGX_DECLINED (if is_kid then RESULT_KEYID_NOT_THUMBPRINT else RESULT_UNKNOWN_KEYID)
        in if is_kid \<and> kid_fallback_keys \<noteq> None then
             (case keys_verify_kid lib kid_fallback_keys keyid base signature of
                NGX_OK _ \<Rightarrow> NGX_OK ()
              | NGX_DECLINED _ \<Rightarrow> refused
              | NGX_ERROR \<Rightarrow> NGX_ERROR)
           else refused
      else (case keys_verify lib ks keyid base signature of
              NGX_OK _ \<Rightarrow> NGX_OK ()
            | NGX_DECLINED _ \<Rightarrow> NGX_DECLINED RESULT_SIGNATURE_MISMATCH
            | NGX_ERROR \<Rightarrow> NGX_ERROR))"

section \<open>Properties\<close>

lemma verify_ed25519_accepts:
  "verify_ed25519 lib ks keyid base sig fb = NGX_OK () \<longleftrightarrow>
     ks \<noteq> None \<and> keyid \<noteq> [] \<and> length sig = 64 \<and>
     (if keys_has lib ks keyid then keys_verify lib ks keyid base sig = NGX_OK ()
      else keys_has_kid lib ks keyid \<and> fb \<noteq> None \<and> keys_verify_kid lib fb keyid base sig = NGX_OK ())"
  by (auto simp: verify_ed25519_def ED25519_SIGNATURE_LENGTH_def Let_def split: rc.splits)

text \<open>C8: Which documents decide.  With the keyset the module builds, the fetched document before the configured one, a
  signature of 64 bytes is accepted exactly when one of the two documents has a key with the keyid as its
  thumbprint and one of them verifies it under that thumbprint; or, where raw kids are allowed, when no
  document has that thumbprint, one has the kid, and the fetched document, never the configured one,
  verifies it by kid.\<close>

theorem accepted_by_documents:
  assumes "keys_chain dynamic_keys static_keys pool = (keys, pool')"
  shows "verify_ed25519 lib keys keyid base sig (if fallback then dynamic_keys else None) = NGX_OK () \<longleftrightarrow>
    keys \<noteq> None \<and> keyid \<noteq> [] \<and> length sig = 64 \<and>
    (let docs = documents dynamic_keys \<union> documents static_keys in
     (\<exists>d\<in>docs. nxe_jwx_jwks_has_thumbprint lib d keyid) \<and>
       (\<exists>d\<in>docs. nxe_jwx_jwks_verify_raw lib d keyid base sig = NGX_OK ()) \<or>
     \<not> (\<exists>d\<in>docs. nxe_jwx_jwks_has_thumbprint lib d keyid) \<and>
       (\<exists>d\<in>docs. nxe_jwx_jwks_has_kid lib d keyid) \<and> fallback \<and>
       (\<exists>d\<in>documents dynamic_keys. nxe_jwx_jwks_verify_raw_by_kid lib d keyid base sig = NGX_OK ()))"
proof (cases "keys = None")
  case True
  then show ?thesis by (simp add: verify_ed25519_accepts)
next
  case False
  have "documents (if fallback then dynamic_keys else None) = (if fallback then documents dynamic_keys else {})"
    by (simp add: documents_def)
  with documents_chain [OF assms False] False show ?thesis
    unfolding verify_ed25519_accepts documents_hold Let_def by (auto simp: documents_def split: option.splits)
qed

theorem accepted_by_documents_witness:
  "verify_ed25519 toy_jwx (Some (KEYS_CHAIN (KEYS_JWKS ''a'') (KEYS_JWKS ''b''))) ''b'' ''m'' (replicate 64 CHR 0x00)
     (if True then Some (KEYS_JWKS ''a'') else None) = NGX_OK ()"
proof -
  have k: "keys_chain (Some (KEYS_JWKS ''a'')) (Some (KEYS_JWKS ''b'')) [] = (Some (KEYS_CHAIN (KEYS_JWKS ''a'') (KEYS_JWKS ''b'')), [])"
    by (simp add: keys_chain_def bnd_def pool_alloc_Nil ret_def)
  show ?thesis
    unfolding accepted_by_documents [OF k] by (simp add: documents_def) (simp add: toy_jwx_def)
qed

text \<open>Opting in to the fallback opens no other outcome: with and without a fallback keyset the answer is the
  same, unless the keyid is a raw kid and no thumbprint and the signature has the right length, in which
  case it is acceptance or an internal error instead of \<open>KEYID_NOT_THUMBPRINT\<close>.  A refusal is always one of
  three reasons.\<close>

lemma verify_ed25519_fallback:
  "(verify_ed25519 lib ks keyid base sig fb = verify_ed25519 lib ks keyid base sig None \<or>
     \<not> keys_has lib ks keyid \<and> keys_has_kid lib ks keyid \<and> length sig = 64 \<and>
     verify_ed25519 lib ks keyid base sig None = NGX_DECLINED RESULT_KEYID_NOT_THUMBPRINT \<and>
     verify_ed25519 lib ks keyid base sig fb \<in> {NGX_OK (), NGX_ERROR})
   \<and> verify_ed25519 lib ks keyid base sig fb \<in> {NGX_OK (), NGX_ERROR} \<union>
       NGX_DECLINED ` {RESULT_UNKNOWN_KEYID, RESULT_KEYID_NOT_THUMBPRINT, RESULT_SIGNATURE_MISMATCH}"
  by (auto simp: verify_ed25519_def ED25519_SIGNATURE_LENGTH_def Let_def split: rc.splits)

end
