(* ===== verification/Profile.thy ===== *)
theory Profile
  imports Agent Verify
begin

text \<open>
  The profile table and the judgment of a request against a profile
  (\<open>src/ngx_auth_httpsig_profile.h\<close>, \<open>src/ngx_auth_httpsig_profile.c\<close>).

  \<open>ngx_auth_httpsig_profile_verify\<close> works on a pool and fills \<open>sig\<close> as it goes: its state is the pair
  of the two.  \<open>ngx_time()\<close> is an argument.  Bit masks are natural numbers combined with \<open>AND\<close> and
  \<open>OR\<close>; the \<open>offsetof\<close> table of parameters holds the field updates themselves.
\<close>

unbundle bit_operations_syntax

section \<open>Data\<close>

definition PARAM_CREATED :: nat where "PARAM_CREATED = 0x0001"
definition PARAM_EXPIRES :: nat where "PARAM_EXPIRES = 0x0002"
definition PARAM_KEYID :: nat where "PARAM_KEYID = 0x0004"
definition PARAM_ALG :: nat where "PARAM_ALG = 0x0008"
definition PARAM_NONCE :: nat where "PARAM_NONCE = 0x0010"
definition PARAM_TAG :: nat where "PARAM_TAG = 0x0020"

definition COMP_METHOD :: nat where "COMP_METHOD = 0x0001"
definition COMP_TARGET_URI :: nat where "COMP_TARGET_URI = 0x0002"
definition COMP_AUTHORITY :: nat where "COMP_AUTHORITY = 0x0004"
definition COMP_SCHEME :: nat where "COMP_SCHEME = 0x0008"
definition COMP_REQUEST_TARGET :: nat where "COMP_REQUEST_TARGET = 0x0010"
definition COMP_PATH :: nat where "COMP_PATH = 0x0020"
definition COMP_QUERY :: nat where "COMP_QUERY = 0x0040"
definition COMP_SIGNATURE_AGENT :: nat where "COMP_SIGNATURE_AGENT = 0x0080"

lemmas param_bits = PARAM_CREATED_def PARAM_EXPIRES_def PARAM_KEYID_def PARAM_ALG_def PARAM_NONCE_def PARAM_TAG_def

lemmas comp_bits = COMP_METHOD_def COMP_TARGET_URI_def COMP_AUTHORITY_def COMP_SCHEME_def
  COMP_REQUEST_TARGET_def COMP_PATH_def COMP_QUERY_def COMP_SIGNATURE_AGENT_def

record profile =
  pf_name :: bytes
  pf_tag :: bytes
  pf_required_params :: nat
  pf_any_of_components :: nat
  pf_all_of_components :: nat
  pf_require_agent_covered :: bool
  pf_expires_max :: int
  pf_max_skew :: int
  pf_alg :: bytes
  pf_directory_path :: bytes
  pf_directory_media_type :: bytes

record signature =
  sg_label :: bytes
  sg_keyid :: bytes
  sg_alg :: bytes
  sg_nonce :: bytes
  sg_tag :: bytes
  sg_created :: int
  sg_expires :: int
  sg_present :: nat
  sg_covered :: nat
  sg_components :: "sfv_inner_list option"
  sg_signature :: bytes
  sg_agent_host :: bytes

definition signature_zero :: signature where
  "signature_zero =
     \<lparr>sg_label = [], sg_keyid = [], sg_alg = [], sg_nonce = [], sg_tag = [], sg_created = 0, sg_expires = 0,
      sg_present = 0, sg_covered = 0, sg_components = None, sg_signature = [], sg_agent_host = []\<rparr>"

record 'jwks profile_ctx =
  pc_profile :: profile
  pc_keys :: "'jwks keys option"
  pc_kid_fallback_keys :: "'jwks keys option"
  pc_expires_max :: int
  pc_max_skew :: int
  pc_now :: int

definition web_bot_auth :: profile where
  "web_bot_auth =
     \<lparr>pf_name = ''web-bot-auth'', pf_tag = ''web-bot-auth'',
      pf_required_params = PARAM_CREATED OR PARAM_EXPIRES OR PARAM_KEYID OR PARAM_TAG,
      pf_any_of_components = COMP_TARGET_URI OR COMP_AUTHORITY, pf_all_of_components = 0,
      pf_require_agent_covered = True, pf_expires_max = 86400, pf_max_skew = 60, pf_alg = ''ed25519'',
      pf_directory_path = ''/.well-known/http-message-signatures-directory'',
      pf_directory_media_type = ''application/http-message-signatures-directory+json''\<rparr>"

definition profiles :: "profile list" where "profiles = [web_bot_auth]"

definition profile_components :: "(bytes \<times> nat) list" where
  "profile_components =
     [(''@method'', COMP_METHOD), (''@target-uri'', COMP_TARGET_URI), (''@authority'', COMP_AUTHORITY),
      (''@scheme'', COMP_SCHEME), (''@request-target'', COMP_REQUEST_TARGET), (''@path'', COMP_PATH),
      (''@query'', COMP_QUERY), (''signature-agent'', COMP_SIGNATURE_AGENT)]"

definition profile_get :: "bytes \<Rightarrow> profile option" where
  "profile_get name = find (\<lambda>p. str_eq (pf_name p) name) profiles"

section \<open>Matching\<close>

definition profile_match :: "profile \<Rightarrow> signature \<Rightarrow> (httpsig_result, unit) rc" where
  "profile_match profile sig =
     (if sg_present sig AND pf_required_params profile \<noteq> pf_required_params profile then
        NGX_DECLINED RESULT_PROFILE_MISMATCH
      else if sg_present sig AND PARAM_ALG \<noteq> 0 \<and> 0 < length (pf_alg profile)
         \<and> (length (sg_alg sig) \<noteq> length (pf_alg profile)
            \<or> ngx_strncasecmp (sg_alg sig) (pf_alg profile) (length (pf_alg profile)) \<noteq> 0) then
        NGX_DECLINED RESULT_PROFILE_MISMATCH
      else if pf_any_of_components profile \<noteq> 0 \<and> sg_covered sig AND pf_any_of_components profile = 0 then
        NGX_DECLINED RESULT_PROFILE_MISMATCH
      else if sg_covered sig AND pf_all_of_components profile \<noteq> pf_all_of_components profile then
        NGX_DECLINED RESULT_PROFILE_MISMATCH
      else NGX_OK ())"

fun value_params :: "sfv_value \<Rightarrow> sfv_param list" where
  "value_params (MEMBER_INNER_LIST l) = il_params l"
| "value_params (MEMBER_ITEM i) = it_params i"

definition entry_has_tag :: "bytes \<Rightarrow> sfv_dict_entry \<Rightarrow> bool" where
  "entry_has_tag tag entry =
     (case param_get (value_params (e_value entry)) ''tag'' of
        Some (SFV_STRING t) \<Rightarrow> str_eq t tag
      | _ \<Rightarrow> False)"

definition select_entry :: "sfv_dictionary \<Rightarrow> bytes \<Rightarrow> sfv_dict_entry option" where
  "select_entry dict tag = find (entry_has_tag tag) (d_entries dict)"

definition join_lines :: "bytes list \<Rightarrow> (pool, unit, bytes) op" where
  "join_lines raws = bnd pool_alloc (\<lambda>_. ret (join_values raws))"

text \<open>Every matching header line is one push to the array.\<close>

fun collect_loop :: "header list \<Rightarrow> bytes \<Rightarrow> bytes list \<Rightarrow> (pool, 'e, bytes list) op" where
  "collect_loop [] name arr = ret arr"
| "collect_loop (h # hs) name arr =
     (if \<not> str_eq (h_name h) name then collect_loop hs name arr
      else bnd pool_alloc (\<lambda>_. collect_loop hs name (arr @ [h_value h])))"

definition collect :: "request \<Rightarrow> bytes \<Rightarrow> (pool, 'e, bytes list) op" where
  "collect req name = bnd pool_alloc (\<lambda>_. collect_loop (rq_headers req) name [])"

section \<open>Parameters and components\<close>

datatype param_kind =
    PARAM_INTEGER "int \<Rightarrow> signature \<Rightarrow> signature"
  | PARAM_STRING "bytes \<Rightarrow> signature \<Rightarrow> signature"

definition profile_params :: "(string \<times> param_kind \<times> nat) list" where
  "profile_params =
     [(''created'', PARAM_INTEGER (\<lambda>v sig. sig\<lparr>sg_created := v\<rparr>), PARAM_CREATED),
      (''expires'', PARAM_INTEGER (\<lambda>v sig. sig\<lparr>sg_expires := v\<rparr>), PARAM_EXPIRES),
      (''keyid'', PARAM_STRING (\<lambda>v sig. sig\<lparr>sg_keyid := v\<rparr>), PARAM_KEYID),
      (''alg'', PARAM_STRING (\<lambda>v sig. sig\<lparr>sg_alg := v\<rparr>), PARAM_ALG),
      (''nonce'', PARAM_STRING (\<lambda>v sig. sig\<lparr>sg_nonce := v\<rparr>), PARAM_NONCE),
      (''tag'', PARAM_STRING (\<lambda>v sig. sig\<lparr>sg_tag := v\<rparr>), PARAM_TAG)]"

fun set_param :: "param_kind \<Rightarrow> sfv_bare \<Rightarrow> signature \<Rightarrow> signature option" where
  "set_param (PARAM_INTEGER f) (SFV_INTEGER v) sig = Some (f v sig)"
| "set_param (PARAM_STRING f) (SFV_STRING s) sig = Some (f s sig)"
| "set_param _ _ sig = None"

fun extract_loop :: "(string \<times> param_kind \<times> nat) list \<Rightarrow> sfv_param list \<Rightarrow> (signature, unit, unit) op" where
  "extract_loop [] params sig = ret () sig"
| "extract_loop ((name, kind, flag) # table) params sig =
     (case param_get params name of
        None \<Rightarrow> extract_loop table params sig
      | Some v \<Rightarrow>
          (case set_param kind v sig of
             None \<Rightarrow> declined () sig
           | Some sig \<Rightarrow> extract_loop table params (sig\<lparr>sg_present := sg_present sig OR flag\<rparr>)))"

definition extract_params :: "sfv_param list \<Rightarrow> (signature, unit, unit) op" where
  "extract_params = extract_loop profile_params"

definition component_bit :: "sfv_item \<Rightarrow> nat" where
  "component_bit item =
     (if \<not> is_string (it_bare item) then 0
      else case find (\<lambda>(name, flag). str_eq (bare_value (it_bare item)) name) profile_components of
        None \<Rightarrow> 0
      | Some (name, flag) \<Rightarrow> flag)"

definition covered_components :: "sfv_item list \<Rightarrow> nat" where
  "covered_components items = fold (\<lambda>item covered. covered OR component_bit item) items 0"

section \<open>Selecting the label before verification\<close>

definition select_label :: "profile \<Rightarrow> bytes list \<Rightarrow> (pool, unit, bytes \<times> bytes) op" where
  "select_label profile signature_input =
     (if signature_input = [] then declined ()
      else bnd (join_lines signature_input) (\<lambda>joined.
        bnd (declined_as () (parse_dictionary joined)) (\<lambda>dict.
          if d_duplicate_keys dict then declined ()
          else case select_entry dict (pf_tag profile) of
            None \<Rightarrow> declined ()
          | Some entry \<Rightarrow>
              (case e_value entry of
                 MEMBER_ITEM _ \<Rightarrow> declined ()
               | MEMBER_INNER_LIST l \<Rightarrow>
                   (case extract_params (il_params l) signature_zero of
                      (NGX_OK _, sig) \<Rightarrow>
                        let sig = sig\<lparr>sg_covered := covered_components (il_items l)\<rparr> in
                        if profile_match profile sig \<noteq> NGX_OK () then declined ()
                        else if pf_require_agent_covered profile \<and> sg_covered sig AND COMP_SIGNATURE_AGENT = 0
                        then declined ()
                        else ret (e_key entry, sg_keyid sig)
                    | _ \<Rightarrow> declined ())))))"

section \<open>Verification\<close>

type_synonym 'a pv_op = "(pool \<times> signature, httpsig_result, 'a) op"

definition on_pool :: "(pool, 'e, 'a) op \<Rightarrow> (pool \<times> signature, 'e, 'a) op" where
  "on_pool m s = (case m (fst s) of (r, p) \<Rightarrow> (r, (p, snd s)))"

definition on_sig :: "(signature, 'e, 'a) op \<Rightarrow> (pool \<times> signature, 'e, 'a) op" where
  "on_sig m s = (case m (snd s) of (r, sig) \<Rightarrow> (r, (fst s, sig)))"

definition set_sig :: "(signature \<Rightarrow> signature) \<Rightarrow> unit pv_op" where
  "set_sig f s = (NGX_OK (), (fst s, f (snd s)))"

text \<open>Step 11.\<close>

definition window_ok :: "'jwks profile_ctx \<Rightarrow> int \<Rightarrow> signature \<Rightarrow> bool" where
  "window_ok pctx now sig =
     (if sg_present sig AND PARAM_CREATED \<noteq> 0 \<and> now + pc_max_skew pctx < sg_created sig then False
      else if sg_present sig AND PARAM_EXPIRES \<noteq> 0 then
        (if sg_expires sig < now - pc_max_skew pctx then False
         else if sg_present sig AND PARAM_CREATED \<noteq> 0
           \<and> (sg_expires sig < sg_created sig \<or> pc_expires_max pctx < sg_expires sig - sg_created sig) then False
         else True)
      else True)"

text \<open>Steps 14 and 15.\<close>

definition verify_finish :: "('json, 'jwks) jwx \<Rightarrow> 'jwks profile_ctx \<Rightarrow> bytes list \<Rightarrow> bytes \<Rightarrow> unit pv_op" where
  "verify_finish lib pctx agent_raws base s =
     (case verify_ed25519 lib (pc_keys pctx) (sg_keyid (snd s)) base (sg_signature (snd s))
             (pc_kid_fallback_keys pctx) of
        NGX_OK _ \<Rightarrow>
          if agent_raws \<noteq> [] then
            (case agent_host agent_raws (sg_label (snd s)) (fst s) of
               (host, p) \<Rightarrow> (NGX_OK (), (p, (snd s)\<lparr>sg_agent_host := host\<rparr>)))
          else (NGX_OK (), s)
      | NGX_DECLINED r \<Rightarrow> (NGX_DECLINED r, s)
      | NGX_ERROR \<Rightarrow> (NGX_ERROR, s))"

text \<open>Steps 12 to 15.\<close>

definition verify_signature :: "('json, 'jwks) jwx \<Rightarrow> 'jwks profile_ctx \<Rightarrow> request \<Rightarrow> sfv_dictionary \<Rightarrow>
    sfv_inner_list \<Rightarrow> bytes list \<Rightarrow> unit pv_op" where
  "verify_signature lib pctx req sig_dict components agent_raws s =
     (case dict_get sig_dict (sg_label (snd s)) of
        Some (MEMBER_ITEM item) \<Rightarrow>
          (case it_bare item of
             SFV_BYTE_SEQUENCE bs \<Rightarrow>
               bnd (set_sig (\<lambda>sig. sig\<lparr>sg_signature := bs\<rparr>)) (\<lambda>_.
                 bnd (declined_as RESULT_PARSE_ERROR (on_pool (base_build req components)))
                   (verify_finish lib pctx agent_raws)) s
           | _ \<Rightarrow> (NGX_DECLINED RESULT_PARSE_ERROR, s))
      | _ \<Rightarrow> (NGX_DECLINED RESULT_PARSE_ERROR, s))"

text \<open>Steps 6 to 15, for the selected entry.\<close>

definition verify_entry :: "('json, 'jwks) jwx \<Rightarrow> int \<Rightarrow> 'jwks profile_ctx \<Rightarrow> request \<Rightarrow> sfv_dictionary \<Rightarrow>
    sfv_dict_entry \<Rightarrow> unit pv_op" where
  "verify_entry lib clock pctx req sig_dict entry =
     (case e_value entry of
        MEMBER_ITEM _ \<Rightarrow> declined RESULT_PARSE_ERROR
      | MEMBER_INNER_LIST l \<Rightarrow>
          bnd (set_sig (\<lambda>sig. sig\<lparr>sg_label := e_key entry, sg_components := Some l\<rparr>)) (\<lambda>_.
          bnd (declined_as RESULT_PARSE_ERROR (on_sig (extract_params (il_params l)))) (\<lambda>_.
          bnd (set_sig (\<lambda>sig. sig\<lparr>sg_covered := covered_components (il_items l)\<rparr>)) (\<lambda>_.
          bnd (\<lambda>s. (profile_match (pc_profile pctx) (snd s), s)) (\<lambda>_.
          bnd (on_pool (collect req signature_agent)) (\<lambda>agent_raws s.
            if pf_require_agent_covered (pc_profile pctx) \<and> agent_raws \<noteq> []
               \<and> sg_covered (snd s) AND COMP_SIGNATURE_AGENT = 0 then declined RESULT_PROFILE_MISMATCH s
            else if \<not> window_ok pctx (if pc_now pctx \<noteq> 0 then pc_now pctx else clock) (snd s) then
              declined RESULT_EXPIRED s
            else verify_signature lib pctx req sig_dict l agent_raws s))))))"

definition profile_verify :: "('json, 'jwks) jwx \<Rightarrow> int \<Rightarrow> 'jwks profile_ctx \<Rightarrow> request \<Rightarrow> unit pv_op" where
  "profile_verify lib clock pctx req =
     bnd (set_sig (\<lambda>_. signature_zero)) (\<lambda>_.
     bnd (declined_as RESULT_NOT_SIGNED (on_pool (field_value req ''signature-input''))) (\<lambda>input_raw.
     bnd (declined_as RESULT_PARSE_ERROR (on_pool (field_value req ''signature''))) (\<lambda>sig_raw.
     bnd (declined_as RESULT_PARSE_ERROR (on_pool (parse_dictionary input_raw))) (\<lambda>input_dict.
     bnd (declined_as RESULT_PARSE_ERROR (on_pool (parse_dictionary sig_raw))) (\<lambda>sig_dict.
       if d_duplicate_keys input_dict \<or> d_duplicate_keys sig_dict then declined RESULT_PARSE_ERROR
       else case select_entry input_dict (pf_tag (pc_profile pctx)) of
         None \<Rightarrow> declined RESULT_NOT_SIGNED
       | Some entry \<Rightarrow> verify_entry lib clock pctx req sig_dict entry)))))"

end
