(* ===== verification/Profile_Props.thy ===== *)
theory Profile_Props
  imports Profile
begin

text \<open>
  What an accepted request guarantees: \<open>ngx_auth_httpsig_profile_verify\<close> against the web-bot-auth
  profile succeeds exactly when every requirement of the profile holds, and the label the fetch path
  selects before verification is the one verification selects.
\<close>

unbundle bit_operations_syntax

section \<open>Sequencing on the pool and the signature\<close>

lemma on_pool_OK [simp]: "on_pool m s = (NGX_OK x, t) \<longleftrightarrow> m (fst s) = (NGX_OK x, fst t) \<and> snd t = snd s"
  by (cases "m (fst s)"; cases t) (auto simp: on_pool_def)

lemma on_sig_OK [simp]: "on_sig m s = (NGX_OK x, t) \<longleftrightarrow> m (snd s) = (NGX_OK x, snd t) \<and> fst t = fst s"
  by (cases "m (snd s)"; cases t) (auto simp: on_sig_def)

lemma set_sig_OK [simp]: "set_sig f s = (NGX_OK x, t) \<longleftrightarrow> t = (fst s, f (snd s))"
  by (auto simp: set_sig_def)

lemma pool_OK_Nil:
  "transparent_at (\<lambda>p s. p) m [] \<Longrightarrow> m [] = (NGX_OK x, q) \<longleftrightarrow> q = [] \<and> m [] = (NGX_OK x, [])"
  by (auto simp: transparent_at_def)

lemma field_value_Nil: "field_value req n [] = (NGX_OK v, q) \<longleftrightarrow>
    q = [] \<and> field_values req n \<noteq> [] \<and> v = join_values (field_values req n)"
  by (auto simp: field_value_def Let_def bnd_def pool_alloc_Nil)

lemma parse_dictionary_pool: "parse_dictionary raw [] = (NGX_OK d, q) \<Longrightarrow> q = []"
  using parse_transparent(1) [of raw "[]"] by (simp add: transparent_at_def)

lemma base_build_pool: "base_build req l [] = (NGX_OK d, q) \<Longrightarrow> q = []"
  using transp_base_build [of req l "[]"] by (simp add: transparent_at_def)

lemma collect_loop_Nil: "collect_loop hs name arr [] =
    (NGX_OK (arr @ map h_value (filter (\<lambda>h. str_eq (h_name h) name) hs)), [])"
  by (induction hs arbitrary: arr) (simp_all add: ret_def bnd_def pool_alloc_Nil)

lemma collect_Nil: "collect req name [] = (NGX_OK (field_values req name), [])"
  by (simp add: collect_def bnd_def pool_alloc_Nil collect_loop_Nil field_values_def)

section \<open>Parameters\<close>

definition int_param :: "sfv_param list \<Rightarrow> string \<Rightarrow> int option" where
  "int_param ps n = (case param_get ps n of Some (SFV_INTEGER v) \<Rightarrow> Some v | _ \<Rightarrow> None)"

definition str_param :: "sfv_param list \<Rightarrow> string \<Rightarrow> bytes option" where
  "str_param ps n = (case param_get ps n of Some (SFV_STRING v) \<Rightarrow> Some v | _ \<Rightarrow> None)"

definition params_typed :: "sfv_param list \<Rightarrow> bool" where
  "params_typed ps \<longleftrightarrow>
     (\<forall>n\<in>{''created'', ''expires''}. param_get ps n \<noteq> None \<longrightarrow> int_param ps n \<noteq> None) \<and>
     (\<forall>n\<in>{''keyid'', ''alg'', ''nonce'', ''tag''}. param_get ps n \<noteq> None \<longrightarrow> str_param ps n \<noteq> None)"

definition flag_if :: "'a option \<Rightarrow> nat \<Rightarrow> nat" where
  "flag_if v f = (if v = None then 0 else f)"

definition put_int :: "(int \<Rightarrow> signature \<Rightarrow> signature) \<Rightarrow> int option \<Rightarrow> signature \<Rightarrow> signature" where
  "put_int f v sig = (case v of None \<Rightarrow> sig | Some i \<Rightarrow> f i sig)"

definition put_str :: "(bytes \<Rightarrow> signature \<Rightarrow> signature) \<Rightarrow> bytes option \<Rightarrow> signature \<Rightarrow> signature" where
  "put_str f v sig = (case v of None \<Rightarrow> sig | Some i \<Rightarrow> f i sig)"

lemma extract_int:
  assumes "\<And>v sig. sg_present (f v sig) = sg_present sig"
  shows "extract_loop ((n, PARAM_INTEGER f, flag) # table) ps sig =
    (if param_get ps n \<noteq> None \<and> int_param ps n = None then (NGX_DECLINED (), sig)
     else extract_loop table ps
       ((put_int f (int_param ps n) sig)\<lparr>sg_present := sg_present sig OR flag_if (int_param ps n) flag\<rparr>))"
  using assms by (auto simp: int_param_def put_int_def flag_if_def declined_def split: option.splits sfv_bare.splits)

lemma extract_str:
  assumes "\<And>v sig. sg_present (f v sig) = sg_present sig"
  shows "extract_loop ((n, PARAM_STRING f, flag) # table) ps sig =
    (if param_get ps n \<noteq> None \<and> str_param ps n = None then (NGX_DECLINED (), sig)
     else extract_loop table ps
       ((put_str f (str_param ps n) sig)\<lparr>sg_present := sg_present sig OR flag_if (str_param ps n) flag\<rparr>))"
  using assms by (auto simp: str_param_def put_str_def flag_if_def declined_def split: option.splits sfv_bare.splits)

definition param_flags :: "sfv_param list \<Rightarrow> nat" where
  "param_flags ps = flag_if (int_param ps ''created'') PARAM_CREATED OR flag_if (int_param ps ''expires'') PARAM_EXPIRES
     OR flag_if (str_param ps ''keyid'') PARAM_KEYID OR flag_if (str_param ps ''alg'') PARAM_ALG
     OR flag_if (str_param ps ''nonce'') PARAM_NONCE OR flag_if (str_param ps ''tag'') PARAM_TAG"

definition or_default :: "'a option \<Rightarrow> 'a \<Rightarrow> 'a" where
  "or_default v d = (case v of None \<Rightarrow> d | Some x \<Rightarrow> x)"

lemma or_default_simps [simp]: "or_default None d = d" "or_default (Some x) d = x"
  by (simp_all add: or_default_def)

definition filled :: "sfv_param list \<Rightarrow> signature \<Rightarrow> signature" where
  "filled ps sig = sig\<lparr>sg_created := or_default (int_param ps ''created'') (sg_created sig),
     sg_expires := or_default (int_param ps ''expires'') (sg_expires sig),
     sg_keyid := or_default (str_param ps ''keyid'') (sg_keyid sig),
     sg_alg := or_default (str_param ps ''alg'') (sg_alg sig),
     sg_nonce := or_default (str_param ps ''nonce'') (sg_nonce sig),
     sg_tag := or_default (str_param ps ''tag'') (sg_tag sig),
     sg_present := sg_present sig OR param_flags ps\<rparr>"

lemma puts:
  "put_int (\<lambda>v sig. sig\<lparr>sg_created := v\<rparr>) v sig = sig\<lparr>sg_created := or_default v (sg_created sig)\<rparr>"
  "put_int (\<lambda>v sig. sig\<lparr>sg_expires := v\<rparr>) v sig = sig\<lparr>sg_expires := or_default v (sg_expires sig)\<rparr>"
  "put_str (\<lambda>v sig. sig\<lparr>sg_keyid := v\<rparr>) w sig = sig\<lparr>sg_keyid := or_default w (sg_keyid sig)\<rparr>"
  "put_str (\<lambda>v sig. sig\<lparr>sg_alg := v\<rparr>) w sig = sig\<lparr>sg_alg := or_default w (sg_alg sig)\<rparr>"
  "put_str (\<lambda>v sig. sig\<lparr>sg_nonce := v\<rparr>) w sig = sig\<lparr>sg_nonce := or_default w (sg_nonce sig)\<rparr>"
  "put_str (\<lambda>v sig. sig\<lparr>sg_tag := v\<rparr>) w sig = sig\<lparr>sg_tag := or_default w (sg_tag sig)\<rparr>"
  by (cases v; cases w; simp add: put_int_def put_str_def)+

lemma extract_params_OK:
  "extract_params ps sig = (NGX_OK (), sig') \<longleftrightarrow> params_typed ps \<and> sig' = filled ps sig"
  unfolding extract_params_def profile_params_def params_typed_def filled_def param_flags_def
  by (subst extract_int extract_str, simp)+ (auto simp: puts or.assoc)

lemma param_flags_bits:
  "param_flags ps AND PARAM_CREATED \<noteq> 0 \<longleftrightarrow> int_param ps ''created'' \<noteq> None"
  "param_flags ps AND PARAM_EXPIRES \<noteq> 0 \<longleftrightarrow> int_param ps ''expires'' \<noteq> None"
  "param_flags ps AND PARAM_ALG \<noteq> 0 \<longleftrightarrow> str_param ps ''alg'' \<noteq> None"
  by (simp_all add: param_flags_def param_bits flag_if_def)

lemma param_flags_required:
  "param_flags ps AND pf_required_params web_bot_auth = pf_required_params web_bot_auth \<longleftrightarrow>
     int_param ps ''created'' \<noteq> None \<and> int_param ps ''expires'' \<noteq> None \<and>
     str_param ps ''keyid'' \<noteq> None \<and> str_param ps ''tag'' \<noteq> None"
  by (simp add: param_flags_def param_bits flag_if_def web_bot_auth_def)

lemma and_or_distrib_nat: "(a OR b) AND c = ((a AND c) OR (b AND c) :: nat)"
  by (rule bit_eqI) (auto simp: bit_simps)

lemma covered_fold:
  "fold (\<lambda>item covered. covered OR component_bit item) items c AND f = 0 \<longleftrightarrow>
     c AND f = 0 \<and> (\<forall>item\<in>set items. component_bit item AND f = 0)"
proof (induction items arbitrary: c)
  case Nil
  then show ?case by simp
next
  case (Cons item items)
  then show ?case by (auto simp: and_or_distrib_nat or_eq_0_iff)
qed

lemma covered_bits:
  "covered_components items AND f \<noteq> 0 \<longleftrightarrow> (\<exists>item\<in>set items. component_bit item AND f \<noteq> 0)"
  by (simp add: covered_components_def covered_fold)

lemma component_bit_agent:
  "component_bit item AND COMP_SIGNATURE_AGENT \<noteq> 0 \<longleftrightarrow> it_bare item = SFV_STRING ''signature-agent''"
  by (cases "it_bare item") (auto simp: component_bit_def profile_components_def comp_bits)

lemma component_bit_any:
  "component_bit item AND pf_any_of_components web_bot_auth \<noteq> 0 \<longleftrightarrow>
     it_bare item = SFV_STRING ''@authority'' \<or> it_bare item = SFV_STRING ''@target-uri''"
  by (cases "it_bare item") (auto simp: component_bit_def profile_components_def comp_bits web_bot_auth_def)

lemma alg_match: "length a \<noteq> length ''ed25519'' \<or> ngx_strncasecmp a ''ed25519'' (length ''ed25519'') \<noteq> 0 \<longleftrightarrow>
    ngx_strlow a \<noteq> ''ed25519''"
proof -
  have low: "map ngx_tolower ''ed25519'' = ''ed25519''" by code_simp
  have nul: "CHR 0x00 \<notin> set ''ed25519''" by simp
  show ?thesis
  proof (cases "length a = length ''ed25519''")
    case True
    from ngx_strncasecmp_eq [OF nul True refl] True show ?thesis unfolding low ngx_strlow_def by simp
  next
    case False
    then have "length (ngx_strlow a) \<noteq> length ''ed25519''" by simp
    with False show ?thesis by metis
  qed
qed

lemma match_web_bot_auth:
  assumes "sg_present sig = param_flags ps" and "sg_covered sig = covered_components items"
  shows "profile_match web_bot_auth sig = NGX_OK () \<longleftrightarrow>
    int_param ps ''created'' \<noteq> None \<and> int_param ps ''expires'' \<noteq> None \<and>
    str_param ps ''keyid'' \<noteq> None \<and> str_param ps ''tag'' \<noteq> None \<and>
    (str_param ps ''alg'' \<noteq> None \<longrightarrow> ngx_strlow (sg_alg sig) = ''ed25519'') \<and>
    (\<exists>item\<in>set items. it_bare item = SFV_STRING ''@authority'' \<or> it_bare item = SFV_STRING ''@target-uri'')"
proof -
  have alg: "pf_alg web_bot_auth = ''ed25519''" and any: "pf_any_of_components web_bot_auth \<noteq> 0"
    and al: "pf_all_of_components web_bot_auth = 0"
    by (simp_all add: web_bot_auth_def comp_bits)
  show ?thesis
    unfolding profile_match_def assms alg al param_flags_required param_flags_bits alg_match
    using any covered_bits [of items "pf_any_of_components web_bot_auth"] component_bit_any
    by auto
qed

section \<open>The steps in a pool that does not fail\<close>

lemma verify_signature_Nil:
  "fst (verify_signature lib pctx req sd l raws ([], sig)) = NGX_OK () \<longleftrightarrow>
     (\<exists>i bs base. dict_get sd (sg_label sig) = Some (MEMBER_ITEM i) \<and> it_bare i = SFV_BYTE_SEQUENCE bs \<and>
        base_build req l [] = (NGX_OK base, []) \<and>
        verify_ed25519 lib (pc_keys pctx) (sg_keyid sig) base bs (pc_kid_fallback_keys pctx) = NGX_OK ())"
  (is "?l \<longleftrightarrow> ?r")
proof (cases "\<exists>i bs. dict_get sd (sg_label sig) = Some (MEMBER_ITEM i) \<and> it_bare i = SFV_BYTE_SEQUENCE bs")
  case False
  have "\<not> ?l"
  proof (cases "dict_get sd (sg_label sig)")
    case (Some v)
    with False show ?thesis
      by (cases v) (auto simp: verify_signature_def split: sfv_bare.split)
  qed (simp add: verify_signature_def)
  with False show ?thesis by blast
next
  case True
  then obtain i bs where d: "dict_get sd (sg_label sig) = Some (MEMBER_ITEM i)" "it_bare i = SFV_BYTE_SEQUENCE bs" by blast
  obtain r q where b: "base_build req l [] = (r, q)" by fastforce
  show ?thesis
  proof (cases r)
    case (NGX_OK base)
    then have "q = []" using b base_build_pool by simp
    with d b NGX_OK show ?thesis
      by (auto simp: verify_signature_def verify_finish_def bnd_def set_sig_def declined_as_def on_pool_def
          split: rc.splits prod.splits)
  next
    case (NGX_DECLINED e)
    with d b show ?thesis by (simp add: verify_signature_def bnd_def set_sig_def declined_as_def on_pool_def)
  next
    case NGX_ERROR
    with d b show ?thesis by (simp add: verify_signature_def bnd_def set_sig_def declined_as_def on_pool_def)
  qed
qed

lemma fst_OK: "fst (m s) = NGX_OK x \<longleftrightarrow> (\<exists>t. m s = (NGX_OK x, t))"
  by (metis fst_conv prod.collapse)

definition entry_sig :: "sfv_dict_entry \<Rightarrow> sfv_inner_list \<Rightarrow> signature" where
  "entry_sig entry l = (filled (il_params l) (signature_zero\<lparr>sg_label := e_key entry, sg_components := Some l\<rparr>))
     \<lparr>sg_covered := covered_components (il_items l)\<rparr>"

lemma verify_entry_Nil:
  "fst (verify_entry lib clock pctx req sd entry ([], signature_zero)) = NGX_OK () \<longleftrightarrow>
     (\<exists>l. e_value entry = MEMBER_INNER_LIST l \<and> params_typed (il_params l) \<and>
        profile_match (pc_profile pctx) (entry_sig entry l) = NGX_OK () \<and>
        \<not> (pf_require_agent_covered (pc_profile pctx) \<and> field_values req signature_agent \<noteq> [] \<and>
           covered_components (il_items l) AND COMP_SIGNATURE_AGENT = 0) \<and>
        window_ok pctx (if pc_now pctx \<noteq> 0 then pc_now pctx else clock) (entry_sig entry l) \<and>
        fst (verify_signature lib pctx req sd l (field_values req signature_agent) ([], entry_sig entry l)) = NGX_OK ())"
proof (cases "e_value entry")
  case (MEMBER_ITEM i)
  then show ?thesis by (simp add: verify_entry_def declined_def)
next
  case (MEMBER_INNER_LIST l)
  have c: "sg_covered (entry_sig entry l) = covered_components (il_items l)" by (simp add: entry_sig_def)
  show ?thesis
    unfolding verify_entry_def MEMBER_INNER_LIST sfv_value.case fst_OK bnd_eq_OK
    by (auto simp: extract_params_OK collect_Nil entry_sig_def [symmetric] c split: if_splits)
qed

lemma parse_dictionary_Nil:
  "parse_dictionary raw [] = (NGX_OK d, q) \<longleftrightarrow> fst (parse_dictionary raw []) = NGX_OK d \<and> q = []"
  using parse_dictionary_pool [of raw d] by (cases "parse_dictionary raw []") auto

lemma profile_verify_Nil:
  "fst (profile_verify lib clock pctx req ([], sig0)) = NGX_OK () \<longleftrightarrow>
     (\<exists>input sd entry. field_values req ''signature-input'' \<noteq> [] \<and> field_values req ''signature'' \<noteq> [] \<and>
        parse_dictionary (join_values (field_values req ''signature-input'')) [] = (NGX_OK input, []) \<and>
        parse_dictionary (join_values (field_values req ''signature'')) [] = (NGX_OK sd, []) \<and>
        \<not> d_duplicate_keys input \<and> \<not> d_duplicate_keys sd \<and>
        select_entry input (pf_tag (pc_profile pctx)) = Some entry \<and>
        fst (verify_entry lib clock pctx req sd entry ([], signature_zero)) = NGX_OK ())"
  (is "?l \<longleftrightarrow> ?r")
proof
  assume ?l
  then obtain t where "profile_verify lib clock pctx req ([], sig0) = (NGX_OK (), t)" unfolding fst_OK ..
  then show ?r
    unfolding profile_verify_def bnd_eq_OK
    by (auto simp: field_value_Nil parse_dictionary_Nil split: if_splits option.splits)
next
  assume ?r
  then obtain input sd entry t where r: "field_values req ''signature-input'' \<noteq> []" "field_values req ''signature'' \<noteq> []"
    "parse_dictionary (join_values (field_values req ''signature-input'')) [] = (NGX_OK input, [])"
    "parse_dictionary (join_values (field_values req ''signature'')) [] = (NGX_OK sd, [])"
    "\<not> d_duplicate_keys input" "\<not> d_duplicate_keys sd" "select_entry input (pf_tag (pc_profile pctx)) = Some entry"
    "verify_entry lib clock pctx req sd entry ([], signature_zero) = (NGX_OK (), t)"
    unfolding fst_OK by blast
  have "profile_verify lib clock pctx req ([], sig0) = (NGX_OK (), t)"
    unfolding profile_verify_def bnd_eq_OK using r by (auto simp: field_value_Nil)
  then show ?l by simp
qed

section \<open>Allocation failure\<close>

interpretation pv_st: alloc_state fst "\<lambda>p s. (p, snd s)"
  by unfold_locales simp_all

text \<open>
  The outcome is transparent for allocation failure up to the agent host, whose extraction may lose
  the host silently.
\<close>

definition ok_transparent_at :: "(pool \<times> signature, 'e, unit) op \<Rightarrow> pool \<times> signature \<Rightarrow> bool" where
  "ok_transparent_at m s \<longleftrightarrow> (fst (m s) = NGX_OK () \<longrightarrow> fst (m ([], snd s)) = NGX_OK ())"

lemma transp_on_pool: "(\<And>p. transparent_at (\<lambda>p s. p) m p) \<Longrightarrow> transparent_at (\<lambda>p s. (p, snd s)) (on_pool m) s"
proof (rule transparentI)
  fix r s'
  assume t: "\<And>p. transparent_at (\<lambda>p s. p) m p" and "on_pool m s = (r, s')" and ne: "r \<noteq> NGX_ERROR"
  then have m: "m (fst s) = (r, fst s')" and s: "snd s' = snd s"
    by (cases "m (fst s)", auto simp: on_pool_def)+
  from transparentD [OF t m ne] s show "on_pool m ([], snd s) = (r, [], snd s')" by (simp add: on_pool_def)
qed

lemma transp_on_sig: "fst (m (snd s)) \<noteq> NGX_ERROR \<Longrightarrow> transparent_at (\<lambda>p s. (p, snd s)) (on_sig m) s"
  by (auto simp: transparent_at_def on_sig_def split: prod.splits)

lemma transp_set_sig: "transparent_at (\<lambda>p s. (p, snd s)) (set_sig f) s"
  by (simp add: transparent_at_def set_sig_def)

lemma transp_state: "transparent_at (\<lambda>p s. (p, snd s)) (\<lambda>s. (g (snd s), s)) s"
  by (simp add: transparent_at_def)

lemma ok_transp_bnd:
  assumes "transparent_at (\<lambda>p s. (p, snd s)) m s" and "\<And>x t. m s = (NGX_OK x, t) \<Longrightarrow> ok_transparent_at (f x) t"
  shows "ok_transparent_at (bnd m f) s"
  unfolding ok_transparent_at_def
proof
  assume "fst (bnd m f s) = NGX_OK ()"
  then obtain x t where m: "m s = (NGX_OK x, t)" and f: "fst (f x t) = NGX_OK ()"
    by (cases "m s") (auto simp: bnd_def split: rc.splits)
  from transparentD [OF assms(1) m] have "m ([], snd s) = (NGX_OK x, ([], snd t))" by simp
  with assms(2) [OF m] f show "fst (bnd m f ([], snd s)) = NGX_OK ()"
    by (simp add: bnd_def ok_transparent_at_def)
qed

lemma ok_transp_declined: "ok_transparent_at (declined e) s"
  by (simp add: ok_transparent_at_def declined_def)

lemma transp_collect: "transparent_at (\<lambda>p s. p) (collect req name) p"
proof -
  have "transparent_at (\<lambda>p s. p) (collect_loop hs name arr) p" for hs arr p
    by (induction hs arbitrary: arr p) (auto intro!: pool_intros)
  then show ?thesis unfolding collect_def by (intro pool_intros)
qed

lemma ok_transp_verify_signature: "ok_transparent_at (verify_signature lib pctx req sd l raws) s"
proof -
  have fin: "ok_transparent_at (verify_finish lib pctx raws base) s" for base s
    by (auto simp: ok_transparent_at_def verify_finish_def split: rc.splits prod.splits)
  have "ok_transparent_at (bnd (set_sig (\<lambda>sig. sig\<lparr>sg_signature := bs\<rparr>)) (\<lambda>_.
      bnd (declined_as RESULT_PARSE_ERROR (on_pool (base_build req l))) (verify_finish lib pctx raws))) s" for bs s
    by (intro ok_transp_bnd transp_set_sig transp_declined_as transp_on_pool transp_base_build fin)
  then show ?thesis
    unfolding ok_transparent_at_def verify_signature_def
    by (auto split: option.splits sfv_value.splits sfv_bare.splits)
qed

lemma extract_no_error: "fst (extract_loop table ps sig) \<noteq> NGX_ERROR"
  by (induction table ps sig rule: extract_loop.induct) (auto simp: declined_def split: option.splits)

lemma ok_transp_if:
  "P ([], snd s) = P s \<Longrightarrow> (P s \<Longrightarrow> ok_transparent_at m s) \<Longrightarrow> (\<not> P s \<Longrightarrow> ok_transparent_at n s) \<Longrightarrow>
   ok_transparent_at (\<lambda>s. if P s then m s else n s) s"
  by (simp add: ok_transparent_at_def)

lemma ok_transp_verify_entry: "ok_transparent_at (verify_entry lib clock pctx req sd entry) s"
proof (cases "e_value entry")
  case (MEMBER_ITEM i)
  then show ?thesis by (simp add: verify_entry_def ok_transp_declined)
next
  case (MEMBER_INNER_LIST l)
  show ?thesis
    unfolding verify_entry_def MEMBER_INNER_LIST sfv_value.case
    by (intro ok_transp_bnd transp_set_sig transp_declined_as transp_on_sig transp_on_pool transp_collect
        transp_state ok_transp_if ok_transp_declined ok_transp_verify_signature)
      (simp_all add: extract_params_def extract_no_error)
qed

lemma profile_verify_ok_Nil:
  assumes "fst (profile_verify lib clock pctx req (p, sig0)) = NGX_OK ()"
  shows "fst (profile_verify lib clock pctx req ([], sig0)) = NGX_OK ()"
proof -
  have "ok_transparent_at (case select_entry d (pf_tag (pc_profile pctx)) of
        None \<Rightarrow> declined RESULT_NOT_SIGNED
      | Some entry \<Rightarrow> verify_entry lib clock pctx req sd entry) s" for d sd s
    by (simp add: ok_transp_declined ok_transp_verify_entry split: option.split)
  then have "ok_transparent_at (if d_duplicate_keys d \<or> d_duplicate_keys sd then declined RESULT_PARSE_ERROR
      else case select_entry d (pf_tag (pc_profile pctx)) of
        None \<Rightarrow> declined RESULT_NOT_SIGNED
      | Some entry \<Rightarrow> verify_entry lib clock pctx req sd entry) s" for d sd s
    by (simp add: ok_transp_declined)
  then have "ok_transparent_at (profile_verify lib clock pctx req) (p, sig0)"
    unfolding profile_verify_def
    by (intro ok_transp_bnd transp_set_sig transp_declined_as transp_on_pool transp_field_value parse_transparent)
  with assms show ?thesis by (simp add: ok_transparent_at_def)
qed

section \<open>The profile\<close>

lemma window_iff:
  assumes "sg_present sig = param_flags ps" and "int_param ps ''created'' = Some created"
    and "int_param ps ''expires'' = Some expires" and "sg_created sig = created" and "sg_expires sig = expires"
  shows "window_ok pctx now sig \<longleftrightarrow> created \<le> now + pc_max_skew pctx \<and> now - pc_max_skew pctx \<le> expires \<and>
    created \<le> expires \<and> expires \<le> created + pc_expires_max pctx"
  unfolding window_ok_def assms(1) param_flags_bits using assms(2-) by auto

lemma entry_sig_fields:
  "sg_label (entry_sig entry l) = e_key entry"
  "sg_present (entry_sig entry l) = param_flags (il_params l)"
  "sg_covered (entry_sig entry l) = covered_components (il_items l)"
  "sg_created (entry_sig entry l) = or_default (int_param (il_params l) ''created'') 0"
  "sg_expires (entry_sig entry l) = or_default (int_param (il_params l) ''expires'') 0"
  "sg_keyid (entry_sig entry l) = or_default (str_param (il_params l) ''keyid'') []"
  "sg_alg (entry_sig entry l) = or_default (str_param (il_params l) ''alg'') []"
  by (simp_all add: entry_sig_def filled_def signature_zero_def)

text \<open>The requirements of web-bot-auth on a selected Inner List, in the terms of the protocol.\<close>

definition meets_profile :: "'jwks profile_ctx \<Rightarrow> int \<Rightarrow> request \<Rightarrow> sfv_inner_list \<Rightarrow> bytes \<Rightarrow> bool" where
  "meets_profile pctx now req l keyid \<longleftrightarrow>
     (\<exists>created expires.
        param_get (il_params l) ''created'' = Some (SFV_INTEGER created) \<and>
        param_get (il_params l) ''expires'' = Some (SFV_INTEGER expires) \<and>
        created \<le> now + pc_max_skew pctx \<and> now - pc_max_skew pctx \<le> expires \<and>
        created \<le> expires \<and> expires \<le> created + pc_expires_max pctx) \<and>
     param_get (il_params l) ''keyid'' = Some (SFV_STRING keyid) \<and>
     (\<exists>tag. param_get (il_params l) ''tag'' = Some (SFV_STRING tag)) \<and>
     (param_get (il_params l) ''nonce'' = None \<or> (\<exists>n. param_get (il_params l) ''nonce'' = Some (SFV_STRING n))) \<and>
     (param_get (il_params l) ''alg'' = None \<or>
        (\<exists>a. param_get (il_params l) ''alg'' = Some (SFV_STRING a) \<and> ngx_strlow a = ''ed25519'')) \<and>
     (\<exists>item\<in>set (il_items l). it_bare item = SFV_STRING ''@authority'' \<or> it_bare item = SFV_STRING ''@target-uri'') \<and>
     (field_values req signature_agent = [] \<or>
        (\<exists>item\<in>set (il_items l). it_bare item = SFV_STRING ''signature-agent''))"

lemma int_param_Some: "int_param ps n = Some v \<longleftrightarrow> param_get ps n = Some (SFV_INTEGER v)"
  by (auto simp: int_param_def split: option.splits sfv_bare.splits)

lemma str_param_Some: "str_param ps n = Some v \<longleftrightarrow> param_get ps n = Some (SFV_STRING v)"
  by (auto simp: str_param_def split: option.splits sfv_bare.splits)

lemma agent_covered: "covered_components items AND COMP_SIGNATURE_AGENT \<noteq> 0 \<longleftrightarrow>
    (\<exists>item\<in>set items. it_bare item = SFV_STRING ''signature-agent'')"
  using covered_bits [of items COMP_SIGNATURE_AGENT] component_bit_agent by auto

lemma meets_profile_fixed:
  assumes p: "int_param (il_params l) ''created'' = Some created" "int_param (il_params l) ''expires'' = Some expires"
    "str_param (il_params l) ''keyid'' = Some keyid" "str_param (il_params l) ''tag'' = Some tag"
  shows "params_typed (il_params l) \<and> profile_match web_bot_auth (entry_sig entry l) = NGX_OK () \<and>
     \<not> (pf_require_agent_covered web_bot_auth \<and> field_values req signature_agent \<noteq> [] \<and>
        covered_components (il_items l) AND COMP_SIGNATURE_AGENT = 0) \<and>
     window_ok pctx now (entry_sig entry l) \<longleftrightarrow> meets_profile pctx now req l keyid"
proof -
  let ?ps = "il_params l"
  have g: "param_get ?ps ''created'' = Some (SFV_INTEGER created)" "param_get ?ps ''expires'' = Some (SFV_INTEGER expires)"
    "param_get ?ps ''keyid'' = Some (SFV_STRING keyid)" "param_get ?ps ''tag'' = Some (SFV_STRING tag)"
    using p unfolding int_param_Some str_param_Some by simp_all
  have typed: "params_typed ?ps \<longleftrightarrow>
      (param_get ?ps ''alg'' = None \<or> (\<exists>a. str_param ?ps ''alg'' = Some a)) \<and>
      (param_get ?ps ''nonce'' = None \<or> (\<exists>a. str_param ?ps ''nonce'' = Some a))"
    using p by (auto simp: params_typed_def)
  have req: "pf_require_agent_covered web_bot_auth" by (simp add: web_bot_auth_def)
  have alg: "(str_param ?ps ''alg'' \<noteq> None \<longrightarrow> ngx_strlow (sg_alg (entry_sig entry l)) = ''ed25519'') \<longleftrightarrow>
      (\<forall>a. str_param ?ps ''alg'' = Some a \<longrightarrow> ngx_strlow a = ''ed25519'')"
    by (auto simp: entry_sig_fields)
  have none: "param_get ?ps n = None \<Longrightarrow> str_param ?ps n = None" for n by (simp add: str_param_def)
  have win: "window_ok pctx now (entry_sig entry l) \<longleftrightarrow>
      created \<le> now + pc_max_skew pctx \<and> now - pc_max_skew pctx \<le> expires \<and>
      created \<le> expires \<and> expires \<le> created + pc_expires_max pctx"
    by (rule window_iff [OF entry_sig_fields(2) p(1,2)]) (simp_all add: entry_sig_fields p)
  have agent: "\<not> (pf_require_agent_covered web_bot_auth \<and> field_values req signature_agent \<noteq> [] \<and>
        covered_components (il_items l) AND COMP_SIGNATURE_AGENT = 0) \<longleftrightarrow>
      field_values req signature_agent = [] \<or> (\<exists>item\<in>set (il_items l). it_bare item = SFV_STRING ''signature-agent'')"
    using req agent_covered [of "il_items l"] by blast
  have mtch: "profile_match web_bot_auth (entry_sig entry l) = NGX_OK () \<longleftrightarrow>
      (\<forall>a. str_param ?ps ''alg'' = Some a \<longrightarrow> ngx_strlow a = ''ed25519'') \<and>
      (\<exists>item\<in>set (il_items l). it_bare item = SFV_STRING ''@authority'' \<or> it_bare item = SFV_STRING ''@target-uri'')"
    unfolding match_web_bot_auth [OF entry_sig_fields(2,3)] alg using p by simp
  have algs: "(param_get ?ps ''alg'' = None \<or> (\<exists>a. str_param ?ps ''alg'' = Some a)) \<and>
      (\<forall>a. str_param ?ps ''alg'' = Some a \<longrightarrow> ngx_strlow a = ''ed25519'') \<longleftrightarrow>
      param_get ?ps ''alg'' = None \<or> (\<exists>a. str_param ?ps ''alg'' = Some a \<and> ngx_strlow a = ''ed25519'')"
    using none [of "''alg''"] by auto
  show ?thesis
    unfolding typed mtch agent win meets_profile_def g using algs unfolding str_param_Some by auto
qed

lemma meets_profile_iff:
  "params_typed (il_params l) \<and> profile_match web_bot_auth (entry_sig entry l) = NGX_OK () \<and>
     \<not> (pf_require_agent_covered web_bot_auth \<and> field_values req signature_agent \<noteq> [] \<and>
        covered_components (il_items l) AND COMP_SIGNATURE_AGENT = 0) \<and>
     window_ok pctx now (entry_sig entry l) \<longleftrightarrow>
   meets_profile pctx now req l (sg_keyid (entry_sig entry l))"
  (is "?l \<longleftrightarrow> ?r")
proof (cases "\<exists>created expires keyid tag. int_param (il_params l) ''created'' = Some created \<and>
    int_param (il_params l) ''expires'' = Some expires \<and> str_param (il_params l) ''keyid'' = Some keyid \<and>
    str_param (il_params l) ''tag'' = Some tag")
  case True
  then obtain created expires keyid tag where p: "int_param (il_params l) ''created'' = Some created"
    "int_param (il_params l) ''expires'' = Some expires" "str_param (il_params l) ''keyid'' = Some keyid"
    "str_param (il_params l) ''tag'' = Some tag" by blast
  have "sg_keyid (entry_sig entry l) = keyid" by (simp add: entry_sig_fields p)
  with meets_profile_fixed [OF p, of entry req pctx now] show ?thesis by simp
next
  case False
  have nl: "\<not> ?l"
  proof
    assume ?l
    then have "int_param (il_params l) ''created'' \<noteq> None \<and> int_param (il_params l) ''expires'' \<noteq> None \<and>
        str_param (il_params l) ''keyid'' \<noteq> None \<and> str_param (il_params l) ''tag'' \<noteq> None"
      using match_web_bot_auth [OF entry_sig_fields(2,3), of entry l] by blast
    with False show False by blast
  qed
  have nr: "\<not> ?r"
  proof
    assume ?r
    then have "\<exists>created expires keyid tag. int_param (il_params l) ''created'' = Some created \<and>
      int_param (il_params l) ''expires'' = Some expires \<and> str_param (il_params l) ''keyid'' = Some keyid \<and>
      str_param (il_params l) ''tag'' = Some tag"
      unfolding meets_profile_def int_param_Some str_param_Some by blast
    with False show False by (rule notE)
  qed
  show ?thesis by (rule iffI) (erule notE [OF nl], erule notE [OF nr])
qed

lemma verify_web_bot_auth_Nil:
  assumes "pc_profile pctx = web_bot_auth"
  shows "fst (verify_entry lib clock pctx req sd entry ([], signature_zero)) = NGX_OK () \<longleftrightarrow>
     (\<exists>l keyid i bs base. e_value entry = MEMBER_INNER_LIST l \<and>
        meets_profile pctx (if pc_now pctx \<noteq> 0 then pc_now pctx else clock) req l keyid \<and>
        dict_get sd (e_key entry) = Some (MEMBER_ITEM i) \<and> it_bare i = SFV_BYTE_SEQUENCE bs \<and>
        base_build req l [] = (NGX_OK base, []) \<and>
        verify_ed25519 lib (pc_keys pctx) keyid base bs (pc_kid_fallback_keys pctx) = NGX_OK ())"
proof -
  have key: "sg_keyid (entry_sig entry l) = keyid" if "meets_profile pctx now req l keyid" for l keyid now
    using that unfolding meets_profile_def str_param_Some [symmetric] by (auto simp: entry_sig_fields)
  have "fst (verify_entry lib clock pctx req sd entry ([], signature_zero)) = NGX_OK () \<longleftrightarrow>
     (\<exists>l. e_value entry = MEMBER_INNER_LIST l \<and>
        meets_profile pctx (if pc_now pctx \<noteq> 0 then pc_now pctx else clock) req l (sg_keyid (entry_sig entry l)) \<and>
        fst (verify_signature lib pctx req sd l (field_values req signature_agent) ([], entry_sig entry l)) = NGX_OK ())"
    unfolding verify_entry_Nil assms meets_profile_iff [symmetric] by (simp only: conj_assoc)
  also have "\<dots> \<longleftrightarrow> (\<exists>l keyid i bs base. e_value entry = MEMBER_INNER_LIST l \<and>
        meets_profile pctx (if pc_now pctx \<noteq> 0 then pc_now pctx else clock) req l keyid \<and>
        dict_get sd (e_key entry) = Some (MEMBER_ITEM i) \<and> it_bare i = SFV_BYTE_SEQUENCE bs \<and>
        base_build req l [] = (NGX_OK base, []) \<and>
        verify_ed25519 lib (pc_keys pctx) keyid base bs (pc_kid_fallback_keys pctx) = NGX_OK ())"
    unfolding verify_signature_Nil entry_sig_fields(1)
  proof (rule iffI; elim exE conjE)
    fix l i bs base
    assume "e_value entry = MEMBER_INNER_LIST l"
      "meets_profile pctx (if pc_now pctx \<noteq> 0 then pc_now pctx else clock) req l (sg_keyid (entry_sig entry l))"
      "dict_get sd (e_key entry) = Some (MEMBER_ITEM i)" "it_bare i = SFV_BYTE_SEQUENCE bs"
      "base_build req l [] = (NGX_OK base, [])"
      "verify_ed25519 lib (pc_keys pctx) (sg_keyid (entry_sig entry l)) base bs (pc_kid_fallback_keys pctx) = NGX_OK ()"
    then show "\<exists>l keyid i bs base. e_value entry = MEMBER_INNER_LIST l \<and>
        meets_profile pctx (if pc_now pctx \<noteq> 0 then pc_now pctx else clock) req l keyid \<and>
        dict_get sd (e_key entry) = Some (MEMBER_ITEM i) \<and> it_bare i = SFV_BYTE_SEQUENCE bs \<and>
        base_build req l [] = (NGX_OK base, []) \<and>
        verify_ed25519 lib (pc_keys pctx) keyid base bs (pc_kid_fallback_keys pctx) = NGX_OK ()"
      by (intro exI conjI)
  next
    fix l keyid i bs base
    assume a: "e_value entry = MEMBER_INNER_LIST l"
      "meets_profile pctx (if pc_now pctx \<noteq> 0 then pc_now pctx else clock) req l keyid"
      "dict_get sd (e_key entry) = Some (MEMBER_ITEM i)" "it_bare i = SFV_BYTE_SEQUENCE bs"
      "base_build req l [] = (NGX_OK base, [])"
      "verify_ed25519 lib (pc_keys pctx) keyid base bs (pc_kid_fallback_keys pctx) = NGX_OK ()"
    show "\<exists>l. e_value entry = MEMBER_INNER_LIST l \<and>
        meets_profile pctx (if pc_now pctx \<noteq> 0 then pc_now pctx else clock) req l (sg_keyid (entry_sig entry l)) \<and>
        (\<exists>i bs base. dict_get sd (e_key entry) = Some (MEMBER_ITEM i) \<and> it_bare i = SFV_BYTE_SEQUENCE bs \<and>
          base_build req l [] = (NGX_OK base, []) \<and>
          verify_ed25519 lib (pc_keys pctx) (sg_keyid (entry_sig entry l)) base bs (pc_kid_fallback_keys pctx) = NGX_OK ())"
      using a(1) a(2) [folded key [OF a(2)]] a(3-5) a(6) [folded key [OF a(2)]] by (intro exI conjI)
  qed
  finally show ?thesis .
qed

section \<open>The label\<close>

lemma profile_verify_run:
  assumes "profile_verify lib clock pctx req (p, sig0) = (NGX_OK (), t)"
  obtains input sd entry where
    "field_values req ''signature-input'' \<noteq> []"
    "parse_dictionary (join_values (field_values req ''signature-input'')) [] = (NGX_OK input, [])"
    "\<not> d_duplicate_keys input" "select_entry input (pf_tag (pc_profile pctx)) = Some entry"
    "\<exists>q. verify_entry lib clock pctx req sd entry (q, signature_zero) = (NGX_OK (), t)"
proof -
  have fv: "field_values req n \<noteq> [] \<and> v = join_values (field_values req n)" if "field_value req n q = (NGX_OK v, q')" for n q v q'
    using that by (auto simp: field_value_def Let_def bnd_eq_OK split: if_splits)
  from assms obtain input_raw q1 sig_raw q2 input q3 sd q4 where
    r: "field_value req ''signature-input'' p = (NGX_OK input_raw, q1)"
      "parse_dictionary input_raw q2 = (NGX_OK input, q3)"
    and d: "(if d_duplicate_keys input \<or> d_duplicate_keys sd then declined RESULT_PARSE_ERROR
       else case select_entry input (pf_tag (pc_profile pctx)) of
         None \<Rightarrow> declined RESULT_NOT_SIGNED
       | Some entry \<Rightarrow> verify_entry lib clock pctx req sd entry) (q4, signature_zero) = (NGX_OK (), t)"
    unfolding profile_verify_def bnd_eq_OK by auto
  from transparentD [OF parse_transparent(1) r(2)] have "parse_dictionary input_raw [] = (NGX_OK input, [])" by simp
  with fv [OF r(1)] d show thesis
    by (cases "select_entry input (pf_tag (pc_profile pctx))") (auto intro!: that [of input _ sd] split: if_splits)
qed

lemma verify_signature_sig:
  assumes "verify_signature lib pctx req sd l raws s = (NGX_OK (), t)"
  shows "sg_label (snd t) = sg_label (snd s) \<and> sg_keyid (snd t) = sg_keyid (snd s)"
proof -
  from assms obtain i bs where "dict_get sd (sg_label (snd s)) = Some (MEMBER_ITEM i)" "it_bare i = SFV_BYTE_SEQUENCE bs"
    by (auto simp: verify_signature_def split: option.splits sfv_value.splits sfv_bare.splits)
  with assms obtain base s1 where s1: "snd s1 = (snd s)\<lparr>sg_signature := bs\<rparr>"
    and v: "verify_finish lib pctx raws base s1 = (NGX_OK (), t)"
    by (auto simp: verify_signature_def bnd_eq_OK)
  show ?thesis
  proof (cases "verify_ed25519 lib (pc_keys pctx) (sg_keyid (snd s1)) base (sg_signature (snd s1)) (pc_kid_fallback_keys pctx)")
    case (NGX_OK u)
    with v have "snd t = snd s1 \<or> (\<exists>h. snd t = (snd s1)\<lparr>sg_agent_host := h\<rparr>)"
      by (auto simp: verify_finish_def split: if_splits prod.splits)
    with s1 show ?thesis by auto
  next
    case (NGX_DECLINED r)
    with v show ?thesis by (simp add: verify_finish_def)
  next
    case NGX_ERROR
    with v show ?thesis by (simp add: verify_finish_def)
  qed
qed

lemma verify_entry_run:
  assumes "verify_entry lib clock pctx req sd entry (q, signature_zero) = (NGX_OK (), t)"
  obtains l where "e_value entry = MEMBER_INNER_LIST l" "params_typed (il_params l)"
    "profile_match (pc_profile pctx) (entry_sig entry l) = NGX_OK ()"
    "sg_label (snd t) = e_key entry" "sg_keyid (snd t) = sg_keyid (entry_sig entry l)"
proof (cases "e_value entry")
  case (MEMBER_ITEM i)
  with assms show ?thesis by (simp add: verify_entry_def)
next
  case (MEMBER_INNER_LIST l)
  from assms obtain raws s where typed: "params_typed (il_params l)"
    and m: "profile_match (pc_profile pctx) (entry_sig entry l) = NGX_OK ()"
    and s: "snd s = entry_sig entry l" and v: "verify_signature lib pctx req sd l raws s = (NGX_OK (), t)"
    unfolding verify_entry_def MEMBER_INNER_LIST sfv_value.case bnd_eq_OK
    by (auto simp: extract_params_OK entry_sig_def [symmetric] split: if_splits)
  with verify_signature_sig [OF v] show ?thesis
    by (intro that [OF MEMBER_INNER_LIST typed m]) (simp_all add: entry_sig_fields)
qed

lemma match_filled:
  "profile_match profile ((filled (il_params l) signature_zero)\<lparr>sg_covered := covered_components (il_items l)\<rparr>) =
   profile_match profile (entry_sig entry l)"
  by (simp add: profile_match_def entry_sig_def filled_def signature_zero_def)

lemma verify_entry_agent:
  assumes "verify_entry lib clock pctx req sd entry (q, signature_zero) = (NGX_OK (), t)"
    and "e_value entry = MEMBER_INNER_LIST l" and "field_values req signature_agent \<noteq> []"
    and "pf_require_agent_covered (pc_profile pctx)"
  shows "covered_components (il_items l) AND COMP_SIGNATURE_AGENT \<noteq> 0"
proof -
  have c: "raws \<noteq> []"
    if "(collect req signature_agent :: (pool, httpsig_result, bytes list) op) q = (NGX_OK raws, q')" for q raws q'
    using transparentD [OF transp_collect that] assms(3) by (simp add: collect_Nil)
  show ?thesis
    using assms(1,4) c unfolding verify_entry_def assms(2) sfv_value.case bnd_eq_OK
    by (auto split: if_splits)
qed

section \<open>A signed request\<close>

definition signed_request :: request where
  "signed_request = example_request\<lparr>rq_headers :=
     [\<lparr>h_name = ''signature-input'', h_value = ''s=('' @ [CHR 0x22] @ ''@authority'' @ [CHR 0x22] @ '' '' @ [CHR 0x22]
         @ ''signature-agent'' @ [CHR 0x22] @ '');created=100;expires=200;keyid='' @ [CHR 0x22] @ ''k'' @ [CHR 0x22]
         @ '';tag='' @ [CHR 0x22] @ ''web-bot-auth'' @ [CHR 0x22]\<rparr>,
      \<lparr>h_name = ''signature'', h_value = ''s=:'' @ replicate 86 CHR ''A'' @ ''==:''\<rparr>,
      \<lparr>h_name = ''signature-agent'', h_value = [CHR 0x22] @ ''https://agent.example'' @ [CHR 0x22]\<rparr>]\<rparr>"

definition signed_ctx :: "bytes profile_ctx" where
  "signed_ctx = \<lparr>pc_profile = web_bot_auth, pc_keys = Some (KEYS_JWKS ''k''), pc_kid_fallback_keys = None,
     pc_expires_max = 86400, pc_max_skew = 60, pc_now = 150\<rparr>"

definition signed_list :: sfv_inner_list where
  "signed_list =
     \<lparr>il_items = [\<lparr>it_bare = SFV_STRING ''@authority'', it_params = []\<rparr>,
                 \<lparr>it_bare = SFV_STRING ''signature-agent'', it_params = []\<rparr>],
      il_params = [\<lparr>p_key = ''created'', p_value = SFV_INTEGER 100\<rparr>, \<lparr>p_key = ''expires'', p_value = SFV_INTEGER 200\<rparr>,
        \<lparr>p_key = ''keyid'', p_value = SFV_STRING ''k''\<rparr>, \<lparr>p_key = ''tag'', p_value = SFV_STRING ''web-bot-auth''\<rparr>]\<rparr>"

definition signed_values :: "bytes list" where
  "signed_values = [''example.com'', [CHR 0x22] @ ''https://agent.example'' @ [CHR 0x22]]"

lemma signed_parse:
  "parse_dictionary (join_values (field_values signed_request ''signature-input'')) [] =
     (NGX_OK \<lparr>d_entries = [\<lparr>e_key = ''s'', e_value = MEMBER_INNER_LIST signed_list\<rparr>], d_duplicate_keys = False\<rparr>, [])"
  by code_simp

lemma signed_parse_sig:
  "parse_dictionary (join_values (field_values signed_request ''signature'')) [] =
     (NGX_OK \<lparr>d_entries = [\<lparr>e_key = ''s'', e_value = MEMBER_ITEM \<lparr>it_bare = SFV_BYTE_SEQUENCE (replicate 64 CHR 0x00), it_params = []\<rparr>\<rparr>],
        d_duplicate_keys = False\<rparr>, [])"
  by code_simp

lemma signed_base: "base_build signed_request signed_list [] = (NGX_OK (base_text signed_list signed_values), [])"
proof -
  have "length (il_items signed_list) \<le> MAX_SFV_ITEMS" "distinct (map ser_item (il_items signed_list))"
    by code_simp+
  moreover have "base_values signed_request (il_items signed_list) signed_values"
    unfolding base_values_def by code_simp
  moreover have "length (base_text signed_list signed_values) \<le> 512" by code_simp
  ultimately show ?thesis unfolding base_build_run MAX_BASE_LENGTH_def by auto
qed

lemma signed_meets: "meets_profile signed_ctx 150 signed_request signed_list ''k''"
  unfolding meets_profile_def by (simp add: signed_ctx_def signed_list_def param_get_def)

lemma signed_fields: "field_values signed_request ''signature-input'' \<noteq> []" "field_values signed_request ''signature'' \<noteq> []"
  by code_simp+

lemma signed_ctx_simps: "pc_profile signed_ctx = web_bot_auth" "pc_now signed_ctx = 150" "pf_tag web_bot_auth = ''web-bot-auth''"
  by (simp_all add: signed_ctx_def web_bot_auth_def)

lemma signed_verifies:
  "verify_ed25519 toy_jwx (pc_keys signed_ctx) ''k'' base (replicate 64 CHR 0x00) (pc_kid_fallback_keys signed_ctx) = NGX_OK ()"
  by (simp add: verify_ed25519_def ED25519_SIGNATURE_LENGTH_def signed_ctx_def keys_has_def keys_verify_def toy_jwx_def)

lemma signed_accepts: "fst (profile_verify toy_jwx 0 signed_ctx signed_request ([], signature_zero)) = NGX_OK ()"
proof -
  let ?e = "\<lparr>e_key = ''s'', e_value = MEMBER_INNER_LIST signed_list\<rparr>"
  have sel: "select_entry \<lparr>d_entries = [?e], d_duplicate_keys = False\<rparr> ''web-bot-auth'' = Some ?e" by code_simp
  have entry: "fst (verify_entry toy_jwx 0 signed_ctx signed_request
      \<lparr>d_entries = [\<lparr>e_key = ''s'', e_value = MEMBER_ITEM \<lparr>it_bare = SFV_BYTE_SEQUENCE (replicate 64 CHR 0x00), it_params = []\<rparr>\<rparr>],
        d_duplicate_keys = False\<rparr> ?e ([], signature_zero)) = NGX_OK ()"
    unfolding verify_web_bot_auth_Nil [OF signed_ctx_simps(1)]
    by (rule exI [of _ signed_list], rule exI [of _ "''k''"], rule exI [of _ "\<lparr>it_bare = SFV_BYTE_SEQUENCE (replicate 64 CHR 0x00), it_params = []\<rparr>"],
        rule exI [of _ "replicate 64 CHR 0x00"], rule exI [of _ "base_text signed_list signed_values"])
      (simp only: sfv_dict_entry.simps sfv_item.simps sfv_value.simps signed_ctx_simps signed_meets signed_base
        signed_verifies dict_get_def find.simps str_eq_iff sfv_dictionary.simps if_True option.map, simp add: signed_meets)
  show ?thesis
    unfolding profile_verify_Nil signed_ctx_simps
    by (intro exI conjI) (rule signed_fields signed_parse signed_parse_sig sel entry | simp)+
qed
section \<open>Properties\<close>

text \<open>C9: The label chosen for the key fetch is the label verified: whenever verification accepts a request that
  carries Signature-Agent, \<open>ngx_auth_httpsig_profile_select_label\<close> on its Signature-Input lines returns
  the label and the keyid verification used (for a profile that requires the agent to be covered).\<close>

theorem select_label_agrees:
  assumes "profile_verify lib clock pctx req (p, sig0) = (NGX_OK (), (p', sig))"
    and "field_values req signature_agent \<noteq> []" and "pf_require_agent_covered (pc_profile pctx)"
  shows "select_label (pc_profile pctx) (field_values req ''signature-input'') [] =
    (NGX_OK (sg_label sig, sg_keyid sig), [])"
proof -
  from profile_verify_run [OF assms(1)] obtain input sd entry q where
    r: "field_values req ''signature-input'' \<noteq> []"
      "parse_dictionary (join_values (field_values req ''signature-input'')) [] = (NGX_OK input, [])"
      "\<not> d_duplicate_keys input" "select_entry input (pf_tag (pc_profile pctx)) = Some entry"
    and v: "verify_entry lib clock pctx req sd entry (q, signature_zero) = (NGX_OK (), (p', sig))"
    by metis
  from verify_entry_run [OF v] obtain l where l: "e_value entry = MEMBER_INNER_LIST l" "params_typed (il_params l)"
    "profile_match (pc_profile pctx) (entry_sig entry l) = NGX_OK ()" "sg_label sig = e_key entry"
    "sg_keyid sig = sg_keyid (entry_sig entry l)"
    by auto
  have x: "extract_params (il_params l) signature_zero = (NGX_OK (), filled (il_params l) signature_zero)"
    using l(2) by (simp add: extract_params_OK)
  have k: "sg_keyid (filled (il_params l) signature_zero) = sg_keyid sig"
    by (simp add: l(5) entry_sig_fields filled_def signature_zero_def)
  show ?thesis
    using r verify_entry_agent [OF v l(1) assms(2,3)] l(1,3,4) k
    unfolding select_label_def join_lines_def
    by (simp add: bnd_def pool_alloc_Nil ret_def declined_as_def x Let_def match_filled [of _ l entry])
qed

theorem select_label_agrees_witness:
  "\<exists>p sig. profile_verify toy_jwx 0 signed_ctx signed_request ([], signature_zero) = (NGX_OK (), (p, sig)) \<and>
     select_label web_bot_auth (field_values signed_request ''signature-input'') [] =
       (NGX_OK (sg_label sig, sg_keyid sig), [])"
proof -
  from signed_accepts obtain p sig where
    v: "profile_verify toy_jwx 0 signed_ctx signed_request ([], signature_zero) = (NGX_OK (), (p, sig))"
    unfolding fst_OK by auto
  have "field_values signed_request signature_agent \<noteq> []" "pf_require_agent_covered (pc_profile signed_ctx)"
    by code_simp+
  from select_label_agrees [OF v this] v show ?thesis unfolding signed_ctx_simps by blast
qed

text \<open>C4: Acceptance, exactly: against the web-bot-auth profile, in a pool that does not fail,
  \<open>ngx_auth_httpsig_profile_verify\<close> accepts a request if and only if both signature fields are there and
  parse without repeated labels, the first member tagged for the profile is an Inner List that meets the
  profile (required parameters with their types, the time window with clock skew and bounded non-negative
  lifetime, authority or target URI covered, Signature-Agent covered when sent), the Signature member of
  that label is a Byte Sequence, the signature base can be built, and the key with that keyid verifies it.\<close>

theorem profile_verify_exact:
  assumes "pc_profile pctx = web_bot_auth"
  shows "fst (profile_verify lib clock pctx req ([], sig0)) = NGX_OK () \<longleftrightarrow>
    (\<exists>input sd entry l keyid i bs base.
       field_values req ''signature-input'' \<noteq> [] \<and> field_values req ''signature'' \<noteq> [] \<and>
       parse_dictionary (join_values (field_values req ''signature-input'')) [] = (NGX_OK input, []) \<and>
       parse_dictionary (join_values (field_values req ''signature'')) [] = (NGX_OK sd, []) \<and>
       \<not> d_duplicate_keys input \<and> \<not> d_duplicate_keys sd \<and>
       find (entry_has_tag ''web-bot-auth'') (d_entries input) = Some entry \<and>
       e_value entry = MEMBER_INNER_LIST l \<and>
       meets_profile pctx (if pc_now pctx \<noteq> 0 then pc_now pctx else clock) req l keyid \<and>
       dict_get sd (e_key entry) = Some (MEMBER_ITEM i) \<and> it_bare i = SFV_BYTE_SEQUENCE bs \<and>
       base_build req l [] = (NGX_OK base, []) \<and>
       verify_ed25519 lib (pc_keys pctx) keyid base bs (pc_kid_fallback_keys pctx) = NGX_OK ())"
proof -
  have tag: "pf_tag (pc_profile pctx) = ''web-bot-auth''" by (simp add: assms web_bot_auth_def)
  show ?thesis
    unfolding profile_verify_Nil verify_web_bot_auth_Nil [OF assms] select_entry_def tag by iprover
qed

theorem profile_verify_exact_witness:
  "\<exists>l keyid base. meets_profile signed_ctx 150 signed_request l keyid \<and>
     base_build signed_request l [] = (NGX_OK base, [])"
  using profile_verify_exact [OF signed_ctx_simps(1), of toy_jwx 0 signed_request signature_zero] signed_accepts
  by (auto simp: signed_ctx_simps)

text \<open>C12: Running out of memory never admits a request: if verification accepts with some allocation failing, it
  accepts with none failing.\<close>

theorem profile_verify_no_alloc_bypass:
  assumes "fst (profile_verify lib clock pctx req (p, sig0)) = NGX_OK ()"
  shows "fst (profile_verify lib clock pctx req ([], sig0)) = NGX_OK ()"
proof -
  show ?thesis by (rule profile_verify_ok_Nil [OF assms])
qed

theorem profile_verify_no_alloc_bypass_witness:
  "fst (profile_verify toy_jwx 0 signed_ctx signed_request ([], signature_zero)) = NGX_OK ()"
proof (rule profile_verify_no_alloc_bypass)
  have "bnd pool_alloc f [True] = bnd pool_alloc f []" for f :: "unit \<Rightarrow> (pool, unit, bytes) op"
    by (simp add: bnd_def pool_alloc_def palloc_with_def)
  then have "field_value signed_request ''signature-input'' [True] = field_value signed_request ''signature-input'' []"
    using signed_fields(1) by (simp add: field_value_def Let_def)
  then show "fst (profile_verify toy_jwx 0 signed_ctx signed_request ([True], signature_zero)) = NGX_OK ()"
    using signed_accepts by (simp add: profile_verify_def bnd_def set_sig_def declined_as_def on_pool_def)
qed

end
