(* ===== verification/Directory.thy ===== *)
theory Directory
  imports Agent
begin

text \<open>
  The key directory rules (\<open>src/ngx_auth_httpsig_directory.h\<close>, \<open>src/ngx_auth_httpsig_directory.c\<close>):
  normalization of allow-list hosts, the allow-list test, the server name for TLS, the cache lifetime
  derived from \<open>Cache-Control\<close>, and the acceptance of a fetched response.

  \<open>time_t\<close> has 64 bits; \<open>Directory_Props\<close> shows that the numbers read stay far below its limit.
\<close>

section \<open>Hosts\<close>

datatype host_reason = HOST_EMPTY | HOST_HAS_SCHEME | HOST_WILDCARD | HOST_INVALID_CHAR

definition directory_is_host_char :: "char \<Rightarrow> bool" where
  "directory_is_host_char c \<longleftrightarrow> (CHR ''a'' \<le> c \<and> c \<le> CHR ''z'') \<or> (CHR ''A'' \<le> c \<and> c \<le> CHR ''Z'')
     \<or> (CHR ''0'' \<le> c \<and> c \<le> CHR ''9'') \<or> c = CHR ''.'' \<or> c = CHR ''-'' \<or> c = CHR '':''"

definition directory_is_ipv6_char :: "char \<Rightarrow> bool" where
  "directory_is_ipv6_char c \<longleftrightarrow> (CHR ''0'' \<le> c \<and> c \<le> CHR ''9'') \<or> (CHR ''a'' \<le> c \<and> c \<le> CHR ''f'')
     \<or> (CHR ''A'' \<le> c \<and> c \<le> CHR ''F'') \<or> c = CHR '':''"

fun has_scheme :: "bytes \<Rightarrow> bool" where
  "has_scheme (a # b # c # s) = (a = CHR '':'' \<and> b = CHR ''/'' \<and> c = CHR ''/'' \<or> has_scheme (b # c # s))"
| "has_scheme _ = False"

text \<open>What is left to check after a leading bracketed literal; \<open>None\<close> when the literal is malformed.\<close>

definition after_bracket :: "bytes \<Rightarrow> bytes option" where
  "after_bracket p =
     (if hd p = CHR ''['' then
        let body = takeWhile (\<lambda>c. c \<noteq> CHR '']'') (tl p); rest = dropWhile (\<lambda>c. c \<noteq> CHR '']'') (tl p)
        in if \<exists>c\<in>set body. \<not> directory_is_ipv6_char c then None
           else if rest = [] \<or> body = [] then None
           else Some (tl rest)
      else Some p)"

definition strip_default_port :: "bytes \<Rightarrow> bytes" where
  "strip_default_port s =
     (if 4 < length s \<and> drop (length s - 4) s = '':443'' then take (length s - 4) s else s)"

text \<open>
  \<open>Inl (Some reason)\<close> is \<open>NGX_ERROR\<close> with \<open>*reason\<close> written, \<open>Inl None\<close> the allocation failure, for
  which \<open>*reason\<close> is not.
\<close>

definition normalize_host :: "bytes \<Rightarrow> pool \<Rightarrow> (host_reason option + bytes) \<times> pool" where
  "normalize_host inp pool =
     (if inp = [] then (Inl (Some HOST_EMPTY), pool)
      else if has_scheme inp then (Inl (Some HOST_HAS_SCHEME), pool)
      else if CHR ''*'' \<in> set inp then (Inl (Some HOST_WILDCARD), pool)
      else case after_bracket inp of
        None \<Rightarrow> (Inl (Some HOST_INVALID_CHAR), pool)
      | Some rest \<Rightarrow>
          if \<exists>c\<in>set rest. \<not> directory_is_host_char c then (Inl (Some HOST_INVALID_CHAR), pool)
          else case palloc pool of
            (True, pool) \<Rightarrow> (Inr (strip_default_port (map ngx_tolower inp)), pool)
          | (False, pool) \<Rightarrow> (Inl None, pool))"

definition is_port_suffix :: "bytes \<Rightarrow> bool" where
  "is_port_suffix p \<longleftrightarrow> \<not> (length p < 2 \<or> hd p \<noteq> CHR '':'') \<and> (\<forall>c\<in>set (tl p). CHR ''0'' \<le> c \<and> c \<le> CHR ''9'')"

definition directory_hostname :: "bytes \<Rightarrow> bytes" where
  "directory_hostname host =
     (if host = [] then host
      else if hd host = CHR ''['' then
        let body = takeWhile (\<lambda>c. c \<noteq> CHR '']'') (tl host); rest = dropWhile (\<lambda>c. c \<noteq> CHR '']'') (tl host)
        in if rest = [] then host
           else if tl rest = [] \<or> is_port_suffix (tl rest) then take (length body + 2) host
           else host
      else
        let rest = dropWhile (\<lambda>c. c \<noteq> CHR '':'') host
        in if rest \<noteq> [] \<and> is_port_suffix rest then takeWhile (\<lambda>c. c \<noteq> CHR '':'') host else host)"

definition directory_allowed :: "bytes list \<Rightarrow> bytes \<Rightarrow> bool" where
  "directory_allowed allow host = (if allow = [] then False else \<exists>e\<in>set allow. str_eq e host)"

section \<open>Cache lifetime\<close>

definition NGX_MAX_INT_T_VALUE :: int where "NGX_MAX_INT_T_VALUE = 9223372036854775807"

definition TTL_PARSE_CAP :: int where "TTL_PARSE_CAP = NGX_MAX_INT_T_VALUE div 1000"

definition is_blank :: "char \<Rightarrow> bool" where
  "is_blank c \<longleftrightarrow> c = CHR '' '' \<or> c = CHR 0x09"

definition directory_trim :: "bytes \<Rightarrow> bytes" where
  "directory_trim s = rev (dropWhile is_blank (rev (dropWhile is_blank s)))"

definition token_is :: "bytes \<Rightarrow> string \<Rightarrow> bool" where
  "token_is token name \<longleftrightarrow> length token = length name \<and> ngx_strncasecmp token name (length name) = 0"

text \<open>The value and the rest; \<open>consumed\<close> is how much shorter the rest is.\<close>

fun parse_uint :: "int \<Rightarrow> bytes \<Rightarrow> int \<times> bytes" where
  "parse_uint value [] = (value, [])"
| "parse_uint value (c # cs) =
     (if \<not> (CHR ''0'' \<le> c \<and> c \<le> CHR ''9'') then (value, c # cs)
      else if value < TTL_PARSE_CAP then parse_uint (value * 10 + digit_val c) cs
      else parse_uint TTL_PARSE_CAP cs)"

text \<open>
  \<open>*value\<close> is written as soon as the number has been scanned, whatever is then returned: the result
  is whether it was \<open>NGX_OK\<close> and the value afterwards.
\<close>

definition parse_directive :: "bytes \<Rightarrow> string \<Rightarrow> int \<Rightarrow> bool \<times> int" where
  "parse_directive token name value =
     (if length token < length name \<or> ngx_strncasecmp token name (length name) \<noteq> 0 then (False, value)
      else
        let p = dropWhile is_blank (drop (length name) token)
        in if p = [] \<or> hd p \<noteq> CHR ''='' then (False, value)
           else
             let p = dropWhile is_blank (tl p); (v, q) = parse_uint 0 p
             in if length q = length p then (False, v)
                else if dropWhile is_blank q \<noteq> [] then (False, v)
                else (True, v))"

record ttl_state =
  t_forbid :: bool
  t_have_maxage :: bool
  t_maxage :: int
  t_have_smaxage :: bool
  t_smaxage :: int

definition apply_directive :: "bytes \<Rightarrow> ttl_state \<Rightarrow> ttl_state" where
  "apply_directive token st =
     (if token_is token ''no-store'' \<or> token_is token ''no-cache'' \<or> token_is token ''private'' then
        st\<lparr>t_forbid := True\<rparr>
      else case parse_directive token ''s-maxage'' (t_smaxage st) of
        (True, v) \<Rightarrow> st\<lparr>t_smaxage := v, t_have_smaxage := True\<rparr>
      | (False, v) \<Rightarrow>
          let st = st\<lparr>t_smaxage := v\<rparr>
          in (case parse_directive token ''max-age'' (t_maxage st) of
                (True, v) \<Rightarrow> st\<lparr>t_maxage := v, t_have_maxage := True\<rparr>
              | (False, v) \<Rightarrow> st\<lparr>t_maxage := v\<rparr>))"

function ttl_loop :: "bytes \<Rightarrow> ttl_state \<Rightarrow> ttl_state" where
  "ttl_loop p st =
     (if p = [] then st
      else
        let token = directory_trim (takeWhile (\<lambda>c. c \<noteq> CHR '','') p);
            st = (if 0 < length token then apply_directive token st else st)
        in ttl_loop (tl (dropWhile (\<lambda>c. c \<noteq> CHR '','') p)) st)"
  by pat_completeness auto
termination
proof (relation "measure (\<lambda>(p, st). length p)", goal_cases)
  case 1
  show ?case by simp
next
  case (2 p st)
  then show ?case by (cases p) (auto intro: le_imp_less_Suc order_trans [OF diff_le_self length_dropWhile_le])
qed

declare ttl_loop.simps [simp del]

definition ttl_clamp :: "int \<Rightarrow> int \<Rightarrow> int \<Rightarrow> int" where
  "ttl_clamp value min_ttl max_ttl =
     (let value = (if value < 0 then 0 else value);
          value = (if value < min_ttl then min_ttl else value)
      in if max_ttl < value then max_ttl else value)"

definition ttl_derived :: "ttl_state \<Rightarrow> int" where
  "ttl_derived st =
     (let derived = 0;
          derived = (if t_have_maxage st then t_maxage st else derived);
          derived = (if t_have_smaxage st then t_smaxage st else derived)
      in if t_forbid st then 0 else derived)"

definition ttl_start :: ttl_state where
  "ttl_start = \<lparr>t_forbid = False, t_have_maxage = False, t_maxage = 0, t_have_smaxage = False, t_smaxage = 0\<rparr>"

text \<open>An absent header is the empty one.\<close>

definition directory_ttl :: "bytes \<Rightarrow> int \<Rightarrow> int \<Rightarrow> int \<Rightarrow> int" where
  "directory_ttl cache_control age min_ttl max_ttl =
     ttl_clamp (ttl_derived (ttl_loop cache_control ttl_start) - age) min_ttl max_ttl"

section \<open>Responses\<close>

datatype fetch_reason =
    FETCH_OK | FETCH_NOT_HTTPS | FETCH_REDIRECT | FETCH_STATUS | FETCH_MEDIA_TYPE | FETCH_TOO_LARGE
  | FETCH_EMPTY | FETCH_NOT_ALLOWED | FETCH_BUSY | FETCH_UNAVAILABLE | FETCH_INVALID | FETCH_FAILED

definition media_type_matches :: "bytes \<Rightarrow> bytes \<Rightarrow> bool" where
  "media_type_matches type media_type =
     (if type = [] then False
      else if 0 < length media_type \<and> length type = length media_type
        \<and> ngx_strncasecmp type media_type (length type) = 0 then True
      else token_is type ''application/json'')"

text \<open>\<open>FETCH_OK\<close> is \<open>NGX_OK\<close>, every other reason \<open>NGX_DECLINED\<close>.\<close>

definition check_response :: "bytes \<Rightarrow> nat \<Rightarrow> bytes \<Rightarrow> bytes \<Rightarrow> nat \<Rightarrow> nat \<Rightarrow> fetch_reason" where
  "check_response schema status content_type media_type body_len max_size =
     (if length schema \<noteq> 5 \<or> ngx_strncasecmp schema ''https'' 5 \<noteq> 0 then FETCH_NOT_HTTPS
      else if 300 \<le> status \<and> status \<le> 399 then FETCH_REDIRECT
      else if status \<noteq> 200 then FETCH_STATUS
      else if \<not> media_type_matches (directory_trim (takeWhile (\<lambda>c. c \<noteq> CHR '';'') content_type)) media_type then
        FETCH_MEDIA_TYPE
      else if max_size < body_len then FETCH_TOO_LARGE
      else if body_len = 0 then FETCH_EMPTY
      else FETCH_OK)"

fun directory_reason_name :: "fetch_reason \<Rightarrow> string" where
  "directory_reason_name FETCH_OK = ''directory_ok''"
| "directory_reason_name FETCH_NOT_HTTPS = ''directory_not_https''"
| "directory_reason_name FETCH_REDIRECT = ''directory_redirect''"
| "directory_reason_name FETCH_STATUS = ''directory_status''"
| "directory_reason_name FETCH_MEDIA_TYPE = ''directory_media_type''"
| "directory_reason_name FETCH_TOO_LARGE = ''directory_too_large''"
| "directory_reason_name FETCH_EMPTY = ''directory_empty''"
| "directory_reason_name FETCH_NOT_ALLOWED = ''agent_not_allowed''"
| "directory_reason_name FETCH_BUSY = ''directory_busy''"
| "directory_reason_name FETCH_UNAVAILABLE = ''directory_unavailable''"
| "directory_reason_name FETCH_INVALID = ''directory_invalid''"
| "directory_reason_name FETCH_FAILED = ''directory_failed''"

end
