(* ===== verification/Directory_Props.thy ===== *)
theory Directory_Props
  imports Directory
begin

text \<open>
  What the directory rules guarantee: which host arguments are accepted and what they normalize to,
  that every authority extracted from Signature-Agent normalizes to a fixed point, that cache
  lifetimes stay within their limits and cannot overflow, and which responses are accepted.
\<close>

section \<open>Hosts\<close>

text \<open>The shape of an accepted host: an optional bracketed literal, then host characters.\<close>

definition host_shape :: "bytes \<Rightarrow> bool" where
  "host_shape s \<longleftrightarrow> s \<noteq> [] \<and>
     ((\<forall>c\<in>set s. directory_is_host_char c) \<or>
      (\<exists>body rest. s = CHR ''['' # body @ CHR '']'' # rest \<and> body \<noteq> [] \<and>
         (\<forall>c\<in>set body. directory_is_ipv6_char c) \<and> (\<forall>c\<in>set rest. directory_is_host_char c)))"

lemma not_host_chars:
  "\<not> directory_is_host_char CHR ''/''" "\<not> directory_is_host_char CHR ''*''" "\<not> directory_is_host_char CHR ''[''"
  "\<not> directory_is_ipv6_char CHR ''/''" "\<not> directory_is_ipv6_char CHR ''*''" "\<not> directory_is_ipv6_char CHR '']''"
  by code_simp+

lemma has_scheme_slash: "has_scheme s \<Longrightarrow> CHR ''/'' \<in> set s"
  by (induction s rule: has_scheme.induct) auto

lemma host_shape_chars: "host_shape s \<Longrightarrow> CHR ''/'' \<notin> set s \<and> CHR ''*'' \<notin> set s"
  unfolding host_shape_def using not_host_chars by fastforce

lemma takeWhile_split:
  assumes "x \<in> set xs"
  obtains ys zs where "xs = ys @ x # zs" "x \<notin> set ys"
    "takeWhile (\<lambda>c. c \<noteq> x) xs = ys" "dropWhile (\<lambda>c. c \<noteq> x) xs = x # zs"
proof -
  from split_list_first [OF assms] obtain ys zs where s: "xs = ys @ x # zs" "x \<notin> set ys" by blast
  then have "\<forall>c\<in>set ys. c \<noteq> x" by blast
  then have "takeWhile (\<lambda>c. c \<noteq> x) xs = ys" "dropWhile (\<lambda>c. c \<noteq> x) xs = x # zs"
    unfolding s(1) by (simp_all add: takeWhile_append_stop dropWhile_append_stop)
  with s that show ?thesis by blast
qed

text \<open>The closing bracket of a literal is the first one.\<close>

lemma bracket_unique:
  assumes "t = b @ CHR '']'' # r" "\<forall>c\<in>set b. directory_is_ipv6_char c"
  shows "takeWhile (\<lambda>c. c \<noteq> CHR '']'') t = b" "dropWhile (\<lambda>c. c \<noteq> CHR '']'') t = CHR '']'' # r"
proof -
  have "\<forall>c\<in>set b. c \<noteq> CHR '']''" using assms(2) not_host_chars(6) by blast
  then show "takeWhile (\<lambda>c. c \<noteq> CHR '']'') t = b" "dropWhile (\<lambda>c. c \<noteq> CHR '']'') t = CHR '']'' # r"
    unfolding assms(1) by (simp_all add: takeWhile_append_stop dropWhile_append_stop)
qed

lemma after_bracket_shape:
  assumes "s \<noteq> []"
  shows "(\<exists>rest. after_bracket s = Some rest \<and> (\<forall>c\<in>set rest. directory_is_host_char c)) \<longleftrightarrow> host_shape s"
proof (cases "hd s = CHR ''[''")
  case False
  then have "\<not> (\<exists>body rest. s = CHR ''['' # body @ CHR '']'' # rest)" by auto
  with False assms show ?thesis by (auto simp: after_bracket_def host_shape_def)
next
  case True
  then obtain t where s: "s = CHR ''['' # t" using assms by (cases s) auto
  have nh: "\<not> (\<forall>c\<in>set s. directory_is_host_char c)" using not_host_chars(3) by (simp add: s)
  show ?thesis
  proof (cases "CHR '']'' \<in> set t")
    case False
    then have "dropWhile (\<lambda>c. c \<noteq> CHR '']'') t = []" unfolding dropWhile_eq_Nil_conv by blast
    then have "after_bracket s = None" by (simp add: after_bracket_def s Let_def)
    moreover have "\<not> host_shape s"
    proof
      assume "host_shape s"
      with nh obtain body rest where "s = CHR ''['' # body @ CHR '']'' # rest" unfolding host_shape_def by blast
      with False show False by (simp add: s)
    qed
    ultimately show ?thesis by simp
  next
    case True
    then obtain b r where t: "t = b @ CHR '']'' # r" "CHR '']'' \<notin> set b"
      "takeWhile (\<lambda>c. c \<noteq> CHR '']'') t = b" "dropWhile (\<lambda>c. c \<noteq> CHR '']'') t = CHR '']'' # r" by (rule takeWhile_split)
    have "after_bracket s = (if (\<exists>c\<in>set b. \<not> directory_is_ipv6_char c) \<or> b = [] then None else Some r)"
      by (simp add: after_bracket_def s t(3,4) Let_def)
    moreover have "host_shape s \<longleftrightarrow> b \<noteq> [] \<and> (\<forall>c\<in>set b. directory_is_ipv6_char c) \<and> (\<forall>c\<in>set r. directory_is_host_char c)"
    proof
      assume "host_shape s"
      with nh obtain b' r' where h: "s = CHR ''['' # b' @ CHR '']'' # r'" "b' \<noteq> []"
        "\<forall>c\<in>set b'. directory_is_ipv6_char c" "\<forall>c\<in>set r'. directory_is_host_char c" unfolding host_shape_def by blast
      then have "t = b' @ CHR '']'' # r'" by (simp add: s)
      note bracket_unique [OF this h(3)]
      with h t(3,4) show "b \<noteq> [] \<and> (\<forall>c\<in>set b. directory_is_ipv6_char c) \<and> (\<forall>c\<in>set r. directory_is_host_char c)" by simp
    next
      assume "b \<noteq> [] \<and> (\<forall>c\<in>set b. directory_is_ipv6_char c) \<and> (\<forall>c\<in>set r. directory_is_host_char c)"
      then show "host_shape s" unfolding host_shape_def s t(1) by blast
    qed
    ultimately show ?thesis by auto
  qed
qed

lemma normalize_host_Inr:
  "fst (normalize_host inp p) = Inr out \<longleftrightarrow>
     host_shape inp \<and> fst (palloc p) \<and> out = strip_default_port (map ngx_tolower inp)"
proof (cases "inp = [] \<or> has_scheme inp \<or> CHR ''*'' \<in> set inp")
  case True
  then have "\<not> host_shape inp" using host_shape_chars [of inp] has_scheme_slash [of inp] by (auto simp: host_shape_def)
  with True show ?thesis by (auto simp: normalize_host_def)
next
  case False
  with after_bracket_shape [of inp] show ?thesis
    by (auto simp: normalize_host_def split: option.splits prod.splits bool.splits)
qed

text \<open>A scheme separator, and the reasons of a refusal, in the order they are looked for.\<close>

lemma has_scheme_iff: "has_scheme s \<longleftrightarrow> (\<exists>pre post. s = pre @ ''://'' @ post)"
proof
  show "has_scheme s \<Longrightarrow> \<exists>pre post. s = pre @ ''://'' @ post"
  proof (induction s rule: has_scheme.induct)
    case (1 a b c s)
    then consider "a # b # c # s = [] @ ''://'' @ s" | pre post where "b # c # s = pre @ ''://'' @ post" by auto
    then show ?case by cases (metis, metis append_Cons)
  qed auto
next
  have sep: "has_scheme (''://'' @ post)" for post by simp
  have keep: "has_scheme s \<Longrightarrow> has_scheme (x # s)" for x s by (cases s rule: has_scheme.cases) auto
  have "has_scheme (pre @ ''://'' @ post)" for pre post by (induction pre) (use sep in \<open>auto intro: keep simp del: has_scheme.simps\<close>)
  then show "\<exists>pre post. s = pre @ ''://'' @ post \<Longrightarrow> has_scheme s" by blast
qed

lemma normalize_host_refusals:
  "(fst (normalize_host inp p) = Inl (Some HOST_EMPTY) \<longleftrightarrow> inp = []) \<and>
   (fst (normalize_host inp p) = Inl (Some HOST_HAS_SCHEME) \<longleftrightarrow> has_scheme inp) \<and>
   (fst (normalize_host inp p) = Inl (Some HOST_WILDCARD) \<longleftrightarrow> \<not> has_scheme inp \<and> CHR ''*'' \<in> set inp) \<and>
   (fst (normalize_host inp p) = Inl (Some HOST_INVALID_CHAR) \<longleftrightarrow>
      inp \<noteq> [] \<and> \<not> has_scheme inp \<and> CHR ''*'' \<notin> set inp \<and> \<not> host_shape inp) \<and>
   (fst (normalize_host inp p) = Inl None \<longleftrightarrow> host_shape inp \<and> \<not> fst (palloc p))"
proof (cases "inp = [] \<or> has_scheme inp \<or> CHR ''*'' \<in> set inp")
  case True
  then have "\<not> host_shape inp" using host_shape_chars [of inp] has_scheme_slash [of inp] by (auto simp: host_shape_def)
  with True show ?thesis by (auto simp: normalize_host_def)
next
  case False
  with after_bracket_shape [of inp] show ?thesis
    by (cases "after_bracket inp"; cases "palloc p"; cases "fst (palloc p)") (auto simp: normalize_host_def)
qed

lemma normalize_host_Nil: "normalize_host inp [] = (r, p) \<Longrightarrow> p = []"
  by (auto simp: normalize_host_def split: if_splits option.splits)

text \<open>What Signature-Agent yields has this shape and is already in lower case.\<close>

lemma low_chars:
  "low_host_char c \<Longrightarrow> directory_is_host_char c \<and> ngx_tolower c = c \<and> c \<noteq> CHR '':'' \<and> c \<noteq> CHR ''[''"
  "low_v6_char c \<Longrightarrow> directory_is_ipv6_char c \<and> ngx_tolower c = c"
  "is_digit c \<Longrightarrow> directory_is_host_char c \<and> ngx_tolower c = c"
  by (auto simp: low_host_char_def low_v6_char_def is_lcalpha_def is_digit_def directory_is_host_char_def
      directory_is_ipv6_char_def ngx_tolower_def less_eq_char_def)

lemma low_map: "\<forall>c\<in>set s. P c \<Longrightarrow> (\<And>c. P c \<Longrightarrow> ngx_tolower c = c) \<Longrightarrow> map ngx_tolower s = s"
  by (induction s) auto

lemma safe_host_cases:
  assumes "safe_host h"
  obtains (name) "h \<noteq> []" "\<forall>c\<in>set h. low_host_char c"
    | (literal) b where "h = CHR ''['' # b @ '']''" "b \<noteq> []" "\<forall>c\<in>set b. low_v6_char c"
  using assms unfolding safe_host_def by blast

lemma safe_host_low: "safe_host h \<Longrightarrow> map ngx_tolower h = h"
proof (elim safe_host_cases)
  assume "\<forall>c\<in>set h. low_host_char c"
  then show ?thesis using low_chars(1) by (intro low_map) auto
next
  fix b assume h: "h = CHR ''['' # b @ '']''" "\<forall>c\<in>set b. low_v6_char c"
  then have "map ngx_tolower b = b" using low_chars(2) by (intro low_map) auto
  with h(1) show ?thesis by (simp add: tolower_fixed)
qed

lemma digits_host: "all_digits ds \<Longrightarrow> (\<forall>c\<in>set ds. directory_is_host_char c) \<and> map ngx_tolower ds = ds"
  using low_chars(3) by (induction ds) auto

lemma safe_host_shape:
  assumes "safe_host h" and "\<forall>c\<in>set ds. directory_is_host_char c"
  shows "host_shape (h @ ds)"
  using assms(1)
proof (cases rule: safe_host_cases)
  case name
  then have "\<forall>c\<in>set (h @ ds). directory_is_host_char c" using low_chars(1) assms(2) by auto
  with name show ?thesis unfolding host_shape_def by blast
next
  case (literal b)
  then have "\<forall>c\<in>set b. directory_is_ipv6_char c" using low_chars(2) by auto
  with literal(2) assms(2) have "host_shape (CHR ''['' # b @ CHR '']'' # ds)" unfolding host_shape_def by blast
  with literal(1) show ?thesis by simp
qed

lemma last_safe_host: "safe_host h \<Longrightarrow> h \<noteq> [] \<and> last h \<noteq> CHR ''3'' \<or> (\<forall>c\<in>set h. c \<noteq> CHR '':'')"
  by (elim safe_host_cases) (auto dest: low_chars)

lemma strip_default_port_append: "h \<noteq> [] \<Longrightarrow> strip_default_port (h @ '':443'') = h"
  by (cases h) (simp_all add: strip_default_port_def)

lemma strip_default_port_id:
  assumes "\<And>u. s \<noteq> u @ '':443''"
  shows "strip_default_port s = s"
proof -
  have "drop (length s - 4) s \<noteq> '':443''" using assms [of "take (length s - 4) s"] append_take_drop_id [of "length s - 4" s] by metis
  then show ?thesis by (simp add: strip_default_port_def)
qed

lemma safe_host_no_port: "safe_host h \<Longrightarrow> h \<noteq> u @ '':443''"
proof
  assume "safe_host h" and h: "h = u @ '':443''"
  have "last h = CHR ''3''" "CHR '':'' \<in> set h" unfolding h by simp_all
  with last_safe_host [OF \<open>safe_host h\<close>] show False by blast
qed

lemma split_port: "CHR '':'' \<notin> set ds \<Longrightarrow> CHR '':'' \<notin> set es \<Longrightarrow> h @ CHR '':'' # ds = u @ CHR '':'' # es \<Longrightarrow> ds = es \<and> h = u"
proof -
  assume a: "CHR '':'' \<notin> set ds" "CHR '':'' \<notin> set es" "h @ CHR '':'' # ds = u @ CHR '':'' # es"
  then have r: "rev ds @ CHR '':'' # rev h = rev es @ CHR '':'' # rev u" by (metis append.assoc append_Cons append_Nil rev.simps(2) rev_append)
  have "\<forall>c\<in>set (rev ds). c \<noteq> CHR '':''" "\<forall>c\<in>set (rev es). c \<noteq> CHR '':''" using a(1,2) by auto
  then have "takeWhile (\<lambda>c. c \<noteq> CHR '':'') (rev ds @ CHR '':'' # rev h) = rev ds"
    "takeWhile (\<lambda>c. c \<noteq> CHR '':'') (rev es @ CHR '':'' # rev u) = rev es"
    by (simp_all add: takeWhile_append_stop)
  with r a(3) show ?thesis by (metis append_same_eq rev_rev_ident)
qed

lemma digits_no_colon: "all_digits ds \<Longrightarrow> CHR '':'' \<notin> set ds"
  by (auto simp: is_digit_def less_eq_char_def)

lemma strip_port_cases:
  assumes "all_digits ds" and "h \<noteq> []"
  shows "strip_default_port (h @ CHR '':'' # ds) = (if ds = ''443'' then h else h @ CHR '':'' # ds)"
proof (cases "ds = ''443''")
  case True
  with strip_default_port_append [OF assms(2)] show ?thesis by simp
next
  case False
  have "CHR '':'' \<notin> set ''443''" by simp
  with split_port [OF digits_no_colon [OF assms(1)], of "''443''" h] False
  have "h @ CHR '':'' # ds \<noteq> u @ '':443''" for u by metis
  from strip_default_port_id [OF this] False show ?thesis by simp
qed

lemma hostname_port:
  assumes "safe_host h" and "rest = [] \<or> is_port_suffix rest"
  shows "directory_hostname (h @ rest) = h"
  using assms(1)
proof (cases rule: safe_host_cases)
  case name
  have a: "\<forall>c\<in>set h. c \<noteq> CHR '':''" using name low_chars(1) by blast
  have b: "rest = [] \<or> \<not> hd rest \<noteq> CHR '':''" using assms(2) by (auto simp: is_port_suffix_def)
  have "hd (h @ rest) \<noteq> CHR ''[''" using name low_chars(1) [of "hd h"] by auto
  with a b name show ?thesis
    using assms(2) takeWhile_append_stop [of h "\<lambda>c. c \<noteq> CHR '':''" rest] dropWhile_append_stop [of h "\<lambda>c. c \<noteq> CHR '':''" rest]
    by (auto simp: directory_hostname_def Let_def)
next
  case (literal b)
  have "\<forall>c\<in>set b. c \<noteq> CHR '']''" using literal(3) low_chars(2) not_host_chars(6) by blast
  then have "takeWhile (\<lambda>c. c \<noteq> CHR '']'') (b @ CHR '']'' # rest) = b"
    "dropWhile (\<lambda>c. c \<noteq> CHR '']'') (b @ CHR '']'' # rest) = CHR '']'' # rest"
    by (simp_all add: takeWhile_append_stop dropWhile_append_stop)
  with assms(2) literal(1) show ?thesis by (auto simp: directory_hostname_def Let_def)
qed

lemma port_suffix: "ds \<noteq> [] \<Longrightarrow> all_digits ds \<Longrightarrow> is_port_suffix (CHR '':'' # ds)"
  by (cases ds) (auto simp: is_port_suffix_def is_digit_def)

lemma normalize_ok:
  "host_shape s \<Longrightarrow> map ngx_tolower s = s \<Longrightarrow> normalize_host s [] = (Inr (strip_default_port s), [])"
  using normalize_host_Inr [of s "[]" "strip_default_port s"] normalize_host_Nil [of s] by (cases "normalize_host s []") simp

section \<open>Numbers\<close>

fun decimal :: "int \<Rightarrow> bytes \<Rightarrow> int" where
  "decimal v [] = v"
| "decimal v (c # cs) = decimal (v * 10 + digit_val c) cs"

lemma digit_val_range: "is_digit c \<Longrightarrow> 0 \<le> digit_val c \<and> digit_val c \<le> 9"
  by (auto simp: is_digit_def digit_val_def less_eq_char_def)

lemma TTL_PARSE_CAP_eq: "TTL_PARSE_CAP = 9223372036854775"
  by (simp add: TTL_PARSE_CAP_def NGX_MAX_INT_T_VALUE_def)

lemma decimal_ge: "all_digits ds \<Longrightarrow> 0 \<le> v \<Longrightarrow> v \<le> decimal v ds"
proof (induction ds arbitrary: v)
  case Nil
  then show ?case by simp
next
  case (Cons c cs)
  then have "v \<le> v * 10 + digit_val c" "0 \<le> v * 10 + digit_val c" using digit_val_range [of c] by auto
  with Cons.IH [of "v * 10 + digit_val c"] Cons.prems show ?case by simp
qed

lemma parse_uint_range:
  "0 \<le> v \<Longrightarrow> v \<le> 10 * TTL_PARSE_CAP \<Longrightarrow>
   0 \<le> fst (parse_uint v s) \<and> fst (parse_uint v s) \<le> 10 * TTL_PARSE_CAP"
proof (induction v s rule: parse_uint.induct)
  case (1 v)
  then show ?case by simp
next
  case (2 v c cs)
  then show ?case using digit_val_range [of c] by (auto simp: is_digit_def TTL_PARSE_CAP_eq)
qed

lemma parse_uint_digits:
  assumes "all_digits ds" and "s = [] \<or> \<not> is_digit (hd s)" and "0 \<le> v"
  shows "snd (parse_uint v (ds @ s)) = s \<and>
    (if decimal v ds < TTL_PARSE_CAP then fst (parse_uint v (ds @ s)) = decimal v ds
     else ds \<noteq> [] \<longrightarrow> TTL_PARSE_CAP \<le> fst (parse_uint v (ds @ s)))"
  using assms(1,3)
proof (induction ds arbitrary: v)
  case Nil
  with assms(2) show ?case by (cases s) (auto simp: is_digit_def)
next
  case (Cons c cs)
  have d: "CHR ''0'' \<le> c \<and> c \<le> CHR ''9''" using Cons.prems(1) by (simp add: is_digit_def)
  have r: "0 \<le> v * 10 + digit_val c" using Cons.prems digit_val_range [of c] by simp
  show ?case
  proof (cases "v < TTL_PARSE_CAP")
    case True
    have "parse_uint v ((c # cs) @ s) = parse_uint (v * 10 + digit_val c) (cs @ s)" using d True by simp
    moreover have "cs = [] \<Longrightarrow> parse_uint (v * 10 + digit_val c) (cs @ s) = (v * 10 + digit_val c, s)"
      using assms(2) by (cases s) (auto simp: is_digit_def)
    ultimately show ?thesis using Cons.IH [of "v * 10 + digit_val c"] Cons.prems r by (cases "cs = []") auto
  next
    case False
    have "parse_uint v ((c # cs) @ s) = parse_uint TTL_PARSE_CAP (cs @ s)" using d False by simp
    moreover have "\<not> decimal v (c # cs) < TTL_PARSE_CAP" using decimal_ge [of "c # cs" v] Cons.prems False by simp
    moreover have "cs = [] \<Longrightarrow> parse_uint TTL_PARSE_CAP (cs @ s) = (TTL_PARSE_CAP, s)"
      using assms(2) by (cases s) (auto simp: is_digit_def)
    moreover have "0 \<le> TTL_PARSE_CAP" "TTL_PARSE_CAP \<le> decimal TTL_PARSE_CAP cs"
      using decimal_ge [of cs TTL_PARSE_CAP] Cons.prems by (simp_all add: TTL_PARSE_CAP_eq)
    ultimately show ?thesis using Cons.IH [of TTL_PARSE_CAP] Cons.prems by (cases "cs = []") auto
  qed
qed

section \<open>Directives\<close>

lemma strncasecmp_prefix: "ngx_strncasecmp (name @ s) name (length name) = 0"
  by (induction name) (simp_all add: Let_def)

lemma strncasecmp_differ:
  "ngx_tolower c \<noteq> ngx_tolower d \<Longrightarrow> ngx_strncasecmp (c # s) (d # t) (Suc n) \<noteq> 0"
  by (simp add: Let_def)

lemma dropWhile_blank_id: "s = [] \<or> \<not> is_blank (hd s) \<Longrightarrow> dropWhile is_blank s = s"
  by (cases s) auto

lemma digit_not_blank: "is_digit c \<Longrightarrow> \<not> is_blank c"
  by (auto simp: is_digit_def is_blank_def less_eq_char_def)

lemma trim_id: "s \<noteq> [] \<Longrightarrow> \<not> is_blank (hd s) \<Longrightarrow> \<not> is_blank (last s) \<Longrightarrow> directory_trim s = s"
  by (simp add: directory_trim_def dropWhile_blank_id hd_rev)

lemma parse_directive_digits:
  assumes "ds \<noteq> []" and "all_digits ds"
  shows "parse_directive (name @ CHR ''='' # ds) name v = (True, fst (parse_uint 0 ds))"
proof -
  have "snd (parse_uint 0 ds) = []" using parse_uint_digits [OF assms(2), of "[]" 0] by simp
  then obtain w where w: "parse_uint 0 ds = (w, [])" by (metis prod.collapse)
  have b: "dropWhile is_blank ds = ds" using assms digit_not_blank by (cases ds) auto
  have "dropWhile is_blank (CHR ''='' # ds) = CHR ''='' # ds" by (simp add: is_blank_def)
  with w b assms(1) strncasecmp_prefix [of name "CHR ''='' # ds"] show ?thesis
    by (simp add: parse_directive_def)
qed

lemma token_is_iff: "CHR 0x00 \<notin> set name \<Longrightarrow> token_is t name \<longleftrightarrow> ngx_strlow t = ngx_strlow name"
proof (cases "length t = length name")
  case True
  assume "CHR 0x00 \<notin> set name"
  from ngx_strncasecmp_eq [OF this True refl] True show ?thesis by (simp add: token_is_def ngx_strlow_def)
next
  case False
  then have "ngx_strlow t \<noteq> ngx_strlow name" by (metis length_ngx_strlow)
  with False show ?thesis by (simp add: token_is_def)
qed

lemma media_type_matches_token:
  "media_type_matches t m \<longleftrightarrow> t \<noteq> [] \<and> (m \<noteq> [] \<and> token_is t m \<or> token_is t ''application/json'')"
  by (auto simp: media_type_matches_def token_is_def simp del: ngx_strncasecmp.simps)

lemma token_is_differ: "ngx_tolower c \<noteq> ngx_tolower d \<Longrightarrow> \<not> token_is (c # s) (d # t)"
  by (simp add: token_is_def Let_def)

lemma parse_directive_differ: "ngx_tolower c \<noteq> ngx_tolower d \<Longrightarrow> parse_directive (c # s) (d # t) v = (False, v)"
  by (simp add: parse_directive_def Let_def)

lemma apply_max_age:
  assumes "ds \<noteq> []" and "all_digits ds"
  shows "apply_directive (''max-age='' @ ds) st = st\<lparr>t_maxage := fst (parse_uint 0 ds), t_have_maxage := True\<rparr>"
proof -
  have d: "ngx_tolower CHR ''m'' \<noteq> ngx_tolower CHR ''n''" "ngx_tolower CHR ''m'' \<noteq> ngx_tolower CHR ''p''"
    "ngx_tolower CHR ''m'' \<noteq> ngx_tolower CHR ''s''" by code_simp+
  have m: "''max-age='' @ ds = CHR ''m'' # (''ax-age='' @ ds)" by simp
  have "\<not> token_is (''max-age='' @ ds) ''no-store''" "\<not> token_is (''max-age='' @ ds) ''no-cache''"
    "\<not> token_is (''max-age='' @ ds) ''private''"
    unfolding m by (rule token_is_differ [OF d(1)] token_is_differ [OF d(2)])+
  moreover have "parse_directive (''max-age='' @ ds) ''s-maxage'' v = (False, v)" for v
    unfolding m by (rule parse_directive_differ [OF d(3)])
  moreover have "parse_directive (''max-age='' @ ds) ''max-age'' v = (True, fst (parse_uint 0 ds))" for v
    using parse_directive_digits [OF assms, of "''max-age''"] by simp
  ultimately show ?thesis unfolding apply_directive_def by simp
qed





text \<open>Both running values stay in the range of the number reader.\<close>

definition ttl_ok :: "ttl_state \<Rightarrow> bool" where
  "ttl_ok st \<longleftrightarrow> 0 \<le> t_maxage st \<and> t_maxage st \<le> 10 * TTL_PARSE_CAP \<and> 0 \<le> t_smaxage st \<and> t_smaxage st \<le> 10 * TTL_PARSE_CAP"

lemma parse_directive_range:
  "parse_directive token name v = (ok, w) \<Longrightarrow> 0 \<le> v \<Longrightarrow> v \<le> 10 * TTL_PARSE_CAP \<Longrightarrow> 0 \<le> w \<and> w \<le> 10 * TTL_PARSE_CAP"
  using parse_uint_range [of 0 "dropWhile is_blank (tl (dropWhile is_blank (drop (length name) token)))"]
  by (auto simp: parse_directive_def Let_def TTL_PARSE_CAP_eq split: if_splits prod.splits)

lemma apply_directive_ok: "ttl_ok st \<Longrightarrow> ttl_ok (apply_directive token st)"
  using parse_directive_range [of token "''s-maxage''" "t_smaxage st"] parse_directive_range [of token "''max-age''" "t_maxage st"]
  by (auto simp: apply_directive_def ttl_ok_def Let_def split: prod.splits bool.splits)

lemma ttl_loop_ok: "ttl_ok st \<Longrightarrow> ttl_ok (ttl_loop p st)"
proof (induction p st rule: ttl_loop.induct)
  case (1 p st)
  then show ?case by (subst ttl_loop.simps) (simp add: Let_def apply_directive_ok)
qed

section \<open>Properties\<close>

text \<open>C16: The SSRF gate's normalization, exactly: an allow-list entry or agent host is accepted if and only if it
  is an optional non-empty bracketed literal of hex digits and colons followed by letters, digits, dots,
  hyphens and colons (so no scheme, path, userinfo, query, wildcard or space), and the result is it in
  lower case without a final \<open>:443\<close>.  A refusal says why: nothing was given; a scheme separator \<open>://\<close> occurs;
  there is none but an asterisk occurs; or neither occurs and the shape is wrong.  There is no
  other refusal as long as memory lasts, and without memory only a well-shaped host fails, without a reason.\<close>

theorem normalize_host_exact:
  "(fst (normalize_host inp []) = Inr out \<longleftrightarrow> host_shape inp \<and> out = strip_default_port (map ngx_tolower inp)) \<and>
   (fst (normalize_host inp pool) = Inl (Some HOST_EMPTY) \<longleftrightarrow> inp = []) \<and>
   (fst (normalize_host inp pool) = Inl (Some HOST_HAS_SCHEME) \<longleftrightarrow> (\<exists>pre post. inp = pre @ ''://'' @ post)) \<and>
   (fst (normalize_host inp pool) = Inl (Some HOST_WILDCARD) \<longleftrightarrow> (\<nexists>pre post. inp = pre @ ''://'' @ post) \<and> CHR ''*'' \<in> set inp) \<and>
   (fst (normalize_host inp pool) = Inl (Some HOST_INVALID_CHAR) \<longleftrightarrow>
      inp \<noteq> [] \<and> (\<nexists>pre post. inp = pre @ ''://'' @ post) \<and> CHR ''*'' \<notin> set inp \<and> \<not> host_shape inp) \<and>
   (fst (normalize_host inp pool) = Inl None \<longleftrightarrow> host_shape inp \<and> \<not> fst (palloc pool))"
proof -
  have "fst (normalize_host inp []) = Inr out \<longleftrightarrow> host_shape inp \<and> out = strip_default_port (map ngx_tolower inp)"
    by (simp add: normalize_host_Inr)
  with normalize_host_refusals [of inp pool] show ?thesis unfolding has_scheme_iff by blast
qed

text \<open>C15: Every authority extracted from Signature-Agent passes the normalization unharmed: the result is the
  authority without a port 443, normalizing it again changes nothing, and the server name derived for TLS is
  exactly the host part.\<close>

theorem agent_authority_normalizes:
  assumes "fst (agent_authority raws label pool) = a" and "a \<noteq> []"
  shows "\<exists>h out. safe_host h \<and> (a = h \<or> (\<exists>port. a = h @ CHR '':'' # port)) \<and>
    normalize_host a [] = (Inr out, []) \<and> out = (if a = h @ '':443'' then h else a) \<and>
    normalize_host out [] = (Inr out, []) \<and> directory_hostname out = h"
proof -
  have host: "normalize_host h [] = (Inr h, [])" "directory_hostname h = h" "h \<noteq> h @ '':443''" "h \<noteq> []" if "safe_host h" for h
    using normalize_ok [OF safe_host_shape [OF that, of "[]"]] safe_host_low [OF that] hostname_port [OF that, of "[]"]
      strip_default_port_id [OF safe_host_no_port [OF that]] that by (auto simp: safe_host_def)
  from agent_authority_safe [of raws label pool] assms obtain h where h: "safe_host h"
    and "a = h \<or> (\<exists>ds. ds \<noteq> [] \<and> all_digits ds \<and> a = h @ CHR '':'' # ds)" by auto
  then consider "a = h" | ds where "ds \<noteq> []" "all_digits ds" "a = h @ CHR '':'' # ds" by blast
  then show ?thesis
  proof cases
    case 1
    with host [OF h] h show ?thesis by (intro exI [of _ h] exI [of _ a]) simp
  next
    case (2 ds)
    have shape: "host_shape a" "map ngx_tolower a = a"
      using safe_host_shape [OF h, of "CHR '':'' # ds"] digits_host [OF 2(2)] safe_host_low [OF h] 2(3)
      by (simp_all add: tolower_fixed directory_is_host_char_def)
    have strip: "strip_default_port a = (if ds = ''443'' then h else a)"
      using strip_port_cases [OF 2(2) host(4) [OF h]] 2(3) by simp
    have name: "directory_hostname a = h" using hostname_port [OF h] port_suffix [OF 2(1,2)] 2(3) by simp
    show ?thesis
      using normalize_ok [OF shape] strip name host [OF h] h 2(3) by (intro exI [of _ h] exI [of _ "strip_default_port a"]) auto
  qed
qed

theorem agent_authority_normalizes_witness:
  "\<exists>h out. safe_host h \<and> normalize_host ''bot.example:443'' [] = (Inr out, []) \<and> normalize_host out [] = (Inr out, []) \<and>
     directory_hostname out = h"
proof -
  have "fst (agent_authority [''https://Bot.Example:443/''] [] []) = ''bot.example:443''" by code_simp
  from agent_authority_normalizes [OF this] show ?thesis by blast
qed

text \<open>C19: The cache lifetime stays within the configured limits whatever the origin sends, and nothing overflows on
  the way: the value derived from the header fits \<open>time_t\<close> with room to subtract any \<open>Age\<close> up to
  \<open>9 * 10 ^ 18\<close>, and with \<open>no-store\<close>, \<open>no-cache\<close> or \<open>private\<close> the lifetime is the floor.\<close>

theorem directory_ttl_within:
  assumes "0 \<le> min_ttl" and "min_ttl \<le> max_ttl" and "0 \<le> age"
  shows "min_ttl \<le> directory_ttl cc age min_ttl max_ttl \<and> directory_ttl cc age min_ttl max_ttl \<le> max_ttl \<and>
    0 \<le> ttl_derived (ttl_loop cc ttl_start) \<and> ttl_derived (ttl_loop cc ttl_start) \<le> NGX_MAX_INT_T_VALUE div 100 \<and>
    (t_forbid (ttl_loop cc ttl_start) \<longrightarrow> directory_ttl cc age min_ttl max_ttl = min_ttl)"
proof -
  have "ttl_ok ttl_start" by (simp add: ttl_ok_def ttl_start_def TTL_PARSE_CAP_eq)
  from ttl_loop_ok [OF this, of cc] have "ttl_ok (ttl_loop cc ttl_start)" .
  with assms show ?thesis
    by (auto simp: directory_ttl_def ttl_clamp_def ttl_derived_def ttl_ok_def TTL_PARSE_CAP_eq NGX_MAX_INT_T_VALUE_def Let_def)
qed

theorem directory_ttl_within_witness:
  "60 \<le> directory_ttl ''max-age=9'' 5 60 86400 \<and> directory_ttl ''no-store'' 5 60 86400 = 60"
proof -
  have "t_forbid (ttl_loop ''no-store'' ttl_start)" by code_simp
  with directory_ttl_within [of 60 86400 5 "''max-age=9''"] directory_ttl_within [of 60 86400 5 "''no-store''"]
  show ?thesis by simp
qed

text \<open>\<open>max-age\<close> is read as the number it denotes, however long: the lifetime is the value less the age, within
  the limits, and a number too large for \<open>time_t\<close> gives the upper limit (the saturation is above any
  configured limit).\<close>

lemma directory_ttl_max_age:
  assumes "ds \<noteq> []" and "all_digits ds" and "0 \<le> min_ttl" and "min_ttl \<le> max_ttl" and "0 \<le> age"
    and "max_ttl + age \<le> TTL_PARSE_CAP"
  shows "directory_ttl (''max-age='' @ ds) age min_ttl max_ttl = max min_ttl (min max_ttl (decimal 0 ds - age))"
proof -
  have "\<not> is_digit CHR '',''" by code_simp
  with assms(2) have "CHR '','' \<notin> set ds" by blast
  then have "CHR '','' \<notin> set (''max-age='' @ ds)" by simp
  then have nc: "\<forall>c\<in>set (''max-age='' @ ds). c \<noteq> CHR '',''" by blast
  have tk: "takeWhile (\<lambda>c. c \<noteq> CHR '','') (''max-age='' @ ds) = ''max-age='' @ ds"
    "dropWhile (\<lambda>c. c \<noteq> CHR '','') (''max-age='' @ ds) = []"
    by (rule iffD2 [OF takeWhile_eq_all_conv nc] iffD2 [OF dropWhile_eq_Nil_conv nc])+
  have "\<not> is_blank (last ds)" using assms(1,2) digit_not_blank last_in_set by blast
  then have tr: "directory_trim (''max-age='' @ ds) = ''max-age='' @ ds"
    using assms(1) by (intro trim_id) (simp_all add: is_blank_def)
  have loop: "ttl_loop (''max-age='' @ ds) ttl_start = ttl_start\<lparr>t_maxage := fst (parse_uint 0 ds), t_have_maxage := True\<rparr>"
    by (subst ttl_loop.simps) (simp only: Let_def tk tr apply_max_age [OF assms(1,2)] ttl_loop.simps [of "[]"] list.sel(2) if_True, simp)
  have "if decimal 0 ds < TTL_PARSE_CAP then fst (parse_uint 0 ds) = decimal 0 ds else TTL_PARSE_CAP \<le> fst (parse_uint 0 ds)"
    using parse_uint_digits [OF assms(2), of "[]" 0] assms(1) by (simp split: if_splits)
  then show ?thesis
    unfolding directory_ttl_def loop
    using assms(3-6) by (auto simp: ttl_clamp_def ttl_derived_def ttl_start_def Let_def split: if_splits)
qed

lemma directory_ttl_max_age_example:
  "directory_ttl ''max-age=3600'' 600 60 86400 = 3000 \<and> directory_ttl ''max-age=99999999999999999999999999'' 600 60 86400 = 86400"
proof -
  have "decimal 0 ''3600'' = 3600" "decimal 0 ''99999999999999999999999999'' = 99999999999999999999999999"
    "all_digits ''3600''" "all_digits ''99999999999999999999999999''" by code_simp+
  with directory_ttl_max_age [of "''3600''" 60 86400 600]
    directory_ttl_max_age [of "''99999999999999999999999999''" 60 86400 600]
  show ?thesis by (simp add: TTL_PARSE_CAP_eq)
qed



text \<open>C18: A fetched key directory is accepted if and only if it came over HTTPS with status 200, its media type
  (what precedes the first semicolon, trimmed, in any case) is the profile's or \<open>application/json\<close>, and
  its body is neither empty nor above the limit; a 3xx status is refused as a redirect.\<close>

theorem check_response_accepts:
  assumes "CHR 0x00 \<notin> set media_type"
  shows "check_response schema status ctype media_type n mx = FETCH_OK \<longleftrightarrow>
     ngx_strlow schema = ''https'' \<and> status = 200 \<and> 0 < n \<and> n \<le> mx \<and>
     (let t = ngx_strlow (directory_trim (takeWhile (\<lambda>c. c \<noteq> CHR '';'') ctype))
      in t = ''application/json'' \<or> t \<noteq> [] \<and> t = ngx_strlow media_type)"
proof -
  have low: "ngx_strlow ''https'' = ''https''" "ngx_strlow ''application/json'' = ''application/json''" by code_simp+
  have "CHR 0x00 \<notin> set ''https''" "CHR 0x00 \<notin> set ''application/json''" by simp_all
  note c = token_is_iff [OF this(1)] token_is_iff [OF this(2)]
  have len: "length ''https'' = 5" by simp
  have scheme: "\<not> (length schema \<noteq> 5 \<or> ngx_strncasecmp schema ''https'' 5 \<noteq> 0) \<longleftrightarrow> ngx_strlow schema = ''https''"
    using c(1) [of schema, unfolded low] unfolding token_is_def len by blast
  have nil: "ngx_strlow t = [] \<longleftrightarrow> t = []" for t by (simp add: ngx_strlow_def)
  have media: "media_type_matches t media_type \<longleftrightarrow>
      ngx_strlow t = ''application/json'' \<or> ngx_strlow t \<noteq> [] \<and> ngx_strlow t = ngx_strlow media_type" for t
    unfolding media_type_matches_token c(2) low token_is_iff [OF assms] using nil [of t] nil [of media_type] by auto
  show ?thesis
    unfolding check_response_def using scheme media by (auto simp: Let_def)
qed

theorem check_response_accepts_witness:
  "check_response ''HTTPS'' 200 ''application/JSON; charset=utf-8'' ''application/x'' 10 100 = FETCH_OK"
proof -
  have "ngx_strlow (directory_trim (takeWhile (\<lambda>c. c \<noteq> CHR '';'') ''application/JSON; charset=utf-8'')) = ''application/json''"
    "ngx_strlow ''HTTPS'' = ''https''" by code_simp+
  with check_response_accepts [of "''application/x''" "''HTTPS''" 200 "''application/JSON; charset=utf-8''" 10 100]
  show ?thesis by (simp add: Let_def)
qed

text \<open>The header promises to reject anything that is not a bare \<open>host[:port]\<close>, but a colon is a host character
  wherever it stands: texts with several colons, with no port behind one, or with a bracketed literal
  followed by more text are accepted, and the default port is removed only once.\<close>

lemma normalize_host_colons:
  "fst (normalize_host ''a:b:c'' []) = Inr ''a:b:c'' \<and>
   fst (normalize_host '':'' []) = Inr '':'' \<and>
   fst (normalize_host ''[::1]x'' []) = Inr ''[::1]x'' \<and>
   fst (normalize_host ''a:443:443'' []) = Inr ''a:443'' \<and>
   fst (normalize_host ''a:443'' []) = Inr ''a''"
  by code_simp

end
