(* ===== verification/Keys_Cache.thy ===== *)
theory Keys_Cache
  imports Keys "HOL-Library.AList"
begin

text \<open>
  The worker-local cache of parsed key directories (\<open>src/ngx_auth_httpsig_keys_cache.h\<close>,
  \<open>src/ngx_auth_httpsig_keys_cache.c\<close>): a fixed array of slots searched linearly, with the least recently
  touched one as victim.

  A free slot (\<open>pool == NULL\<close>) is \<open>None\<close>.  The clock is a natural number: \<open>ngx_uint_t\<close> would need
  \<open>2 ^ 64\<close> touches to wrap.  The pool an entry owns is created and filled within one call, so its
  allocations are outcomes of the one pool the call runs on.
\<close>

section \<open>Data\<close>

definition MAX_KEYS_CACHE_ENTRIES :: nat where "MAX_KEYS_CACHE_ENTRIES = 16"

record 'jwks kc_slot =
  sl_host :: bytes
  sl_generation :: nat
  sl_keys :: "'jwks keys"
  sl_touched :: nat

record 'jwks keys_cache =
  kc_slots :: "'jwks kc_slot option list"
  kc_clock :: nat

definition kc_empty :: "'jwks keys_cache" where
  "kc_empty = \<lparr>kc_slots = replicate MAX_KEYS_CACHE_ENTRIES None, kc_clock = 0\<rparr>"

text \<open>\<open>NULL\<close> when the object or its cleanup handler cannot be allocated.\<close>

definition kc_create :: "pool \<Rightarrow> 'jwks keys_cache option \<times> pool" where
  "kc_create pool =
     (case palloc pool of
        (False, pool) \<Rightarrow> (None, pool)
      | (True, pool) \<Rightarrow>
          (case palloc pool of
             (False, pool) \<Rightarrow> (None, pool)
           | (True, pool) \<Rightarrow> (Some kc_empty, pool)))"

section \<open>Operations\<close>

definition slot_holds :: "'jwks kc_slot option list \<Rightarrow> bytes \<Rightarrow> nat \<Rightarrow> bool" where
  "slot_holds slots host i = (case slots ! i of None \<Rightarrow> False | Some s \<Rightarrow> sl_host s = host)"

definition kc_find :: "'jwks keys_cache \<Rightarrow> bytes \<Rightarrow> nat option" where
  "kc_find kc host = find (slot_holds (kc_slots kc) host) [0..<MAX_KEYS_CACHE_ENTRIES]"

text \<open>The second loop of \<open>slot_for\<close>: the first free slot, else the slot with the smallest \<open>touched\<close>.\<close>

fun slot_loop :: "'jwks kc_slot option list \<Rightarrow> nat list \<Rightarrow> (nat \<times> 'jwks kc_slot) option \<Rightarrow> nat option" where
  "slot_loop slots [] victim = map_option fst victim"
| "slot_loop slots (i # js) victim =
     (case slots ! i of
        None \<Rightarrow> Some i
      | Some s \<Rightarrow>
          slot_loop slots js
            (case victim of
               None \<Rightarrow> Some (i, s)
             | Some (j, v) \<Rightarrow> if sl_touched s < sl_touched v then Some (i, s) else victim))"

definition kc_evict :: "nat \<Rightarrow> 'jwks keys_cache \<Rightarrow> 'jwks keys_cache" where
  "kc_evict i kc = kc\<lparr>kc_slots := (kc_slots kc)[i := None]\<rparr>"

text \<open>The slot for a new entry, freed.  The loop runs over at least one slot, so it finds one.\<close>

definition slot_for :: "'jwks keys_cache \<Rightarrow> bytes \<Rightarrow> nat \<times> 'jwks keys_cache" where
  "slot_for kc host =
     (case kc_find kc host of
        Some i \<Rightarrow> (i, kc_evict i kc)
      | None \<Rightarrow>
          (case slot_loop (kc_slots kc) [0..<MAX_KEYS_CACHE_ENTRIES] None of
             Some i \<Rightarrow> (i, if kc_slots kc ! i = None then kc else kc_evict i kc)
           | None \<Rightarrow> (0, kc)))"

definition kc_get :: "'jwks keys_cache \<Rightarrow> bytes \<Rightarrow> nat \<Rightarrow> 'jwks keys option \<times> 'jwks keys_cache" where
  "kc_get kc host generation =
     (if generation = 0 then (None, kc)
      else case kc_find kc host of
        None \<Rightarrow> (None, kc)
      | Some i \<Rightarrow>
          (case kc_slots kc ! i of
             None \<Rightarrow> (None, kc)
           | Some s \<Rightarrow>
               if sl_generation s \<noteq> generation then (None, kc)
               else let clock = kc_clock kc + 1 in
                 (Some (sl_keys s),
                  \<lparr>kc_slots = (kc_slots kc)[i := Some (s\<lparr>sl_touched := clock\<rparr>)], kc_clock = clock\<rparr>)))"

text \<open>What \<open>put\<close> does once the document has been parsed and the host copied.\<close>

definition kc_insert :: "'jwks keys_cache \<Rightarrow> bytes \<Rightarrow> nat \<Rightarrow> 'jwks keys \<Rightarrow> 'jwks keys_cache" where
  "kc_insert kc host generation parsed =
     (case slot_for kc host of
        (i, kc) \<Rightarrow>
          let clock = kc_clock kc + 1 in
          \<lparr>kc_slots = (kc_slots kc)[i := Some \<lparr>sl_host = host, sl_generation = generation, sl_keys = parsed, sl_touched = clock\<rparr>],
           kc_clock = clock\<rparr>)"

text \<open>The return value with \<open>*keys\<close>, and the cache and pool afterwards.\<close>

definition kc_put :: "('json, 'jwks) jwx \<Rightarrow> 'jwks keys_cache \<Rightarrow> bytes \<Rightarrow> bytes \<Rightarrow> nat \<Rightarrow> pool \<Rightarrow>
    (unit, 'jwks keys) rc \<times> 'jwks keys_cache \<times> pool" where
  "kc_put lib kc host jwks generation pool =
     (if generation = 0 then (NGX_ERROR, kc, pool)
      else case palloc pool of
        (False, pool) \<Rightarrow> (NGX_ERROR, kc, pool)
      | (True, pool) \<Rightarrow>
          (case load_jwks lib jwks pool of
             (NGX_OK parsed, pool) \<Rightarrow>
               (case palloc pool of
                  (False, pool) \<Rightarrow> (NGX_ERROR, kc, pool)
                | (True, pool) \<Rightarrow> (NGX_OK parsed, kc_insert kc host generation parsed, pool))
           | (_, pool) \<Rightarrow> (NGX_DECLINED (), kc, pool)))"

section \<open>Invariant\<close>

definition somes :: "'a option list \<Rightarrow> 'a list" where
  "somes xs = List.map_filter (\<lambda>x. x) xs"

lemma somes_simps [simp]:
  "somes [] = []" "somes (None # xs) = somes xs" "somes (Some x # xs) = x # somes xs"
  "somes (xs @ ys) = somes xs @ somes ys"
  by (simp_all add: somes_def List.map_filter_def)

lemma somes_replicate [simp]: "somes (replicate n None) = []"
  by (induction n) simp_all

lemma length_somes: "length (somes xs) \<le> length xs"
  by (simp add: somes_def List.map_filter_def)

lemma in_somes: "s \<in> set (somes xs) \<longleftrightarrow> Some s \<in> set xs"
  by (induction xs) (auto simp: somes_def List.map_filter_def split: option.splits)

definition kc_inv :: "'jwks keys_cache \<Rightarrow> bool" where
  "kc_inv kc \<longleftrightarrow> length (kc_slots kc) = MAX_KEYS_CACHE_ENTRIES \<and>
     distinct (map sl_host (somes (kc_slots kc))) \<and> distinct (map sl_touched (somes (kc_slots kc))) \<and>
     (\<forall>s\<in>set (somes (kc_slots kc)). sl_touched s \<le> kc_clock kc \<and> sl_generation s \<noteq> 0)"

lemma kc_inv_empty: "kc_inv kc_empty"
  by (simp add: kc_inv_def kc_empty_def)

text \<open>The array around one of its slots.\<close>

lemma slots_split:
  assumes "i < length xs"
  obtains us vs where "xs = us @ xs ! i # vs" "length us = i" "\<And>y. xs[i := y] = us @ y # vs"
  using id_take_nth_drop [OF assms] upd_conv_take_nth_drop [OF assms] assms
  by (intro that [of "take i xs" "drop (Suc i) xs"]) simp_all

lemma slot_holds_iff: "slot_holds slots host i \<longleftrightarrow> (\<exists>s. slots ! i = Some s \<and> sl_host s = host)"
  by (simp add: slot_holds_def split: option.split)

lemma kc_find_Some:
  assumes "length (kc_slots kc) = MAX_KEYS_CACHE_ENTRIES" and "kc_find kc host = Some i"
  obtains s where "i < length (kc_slots kc)" "kc_slots kc ! i = Some s" "sl_host s = host"
proof -
  from assms(2) obtain k where k: "k < length [0..<MAX_KEYS_CACHE_ENTRIES]" "i = [0..<MAX_KEYS_CACHE_ENTRIES] ! k"
    "slot_holds (kc_slots kc) host i"
    unfolding kc_find_def find_Some_iff by auto
  then have "i < length (kc_slots kc)" by (simp add: assms(1))
  with k(3) that show ?thesis unfolding slot_holds_iff by blast
qed

lemma kc_find_None:
  assumes "length (kc_slots kc) = MAX_KEYS_CACHE_ENTRIES" and "kc_find kc host = None"
  shows "\<forall>s\<in>set (somes (kc_slots kc)). sl_host s \<noteq> host"
proof
  fix s assume "s \<in> set (somes (kc_slots kc))"
  then have "Some s \<in> set (kc_slots kc)" by (simp add: in_somes)
  then obtain i where "i < MAX_KEYS_CACHE_ENTRIES" "kc_slots kc ! i = Some s"
    unfolding in_set_conv_nth assms(1) by blast
  with assms(2) show "sl_host s \<noteq> host" unfolding kc_find_def find_None_iff slot_holds_iff by auto
qed

lemma slot_loop_spec:
  assumes "\<forall>j\<in>set js. j < length slots" and "\<forall>j v. victim = Some (j, v) \<longrightarrow> j < length slots \<and> slots ! j = Some v"
    and "js \<noteq> [] \<or> victim \<noteq> None"
  obtains i where "slot_loop slots js victim = Some i" "i < length slots"
    "slots ! i = None \<or> (\<forall>j\<in>set js. slots ! j \<noteq> None) \<and> (\<exists>s. slots ! i = Some s \<and>
       (\<forall>j\<in>set js. sl_touched s \<le> sl_touched (the (slots ! j))) \<and> (\<forall>j v. victim = Some (j, v) \<longrightarrow> sl_touched s \<le> sl_touched v))"
  using assms
proof (induction slots js victim arbitrary: thesis rule: slot_loop.induct)
  case (1 slots victim)
  from "1.prems"(4) obtain j v where v: "victim = Some (j, v)" by auto
  with "1.prems"(3) have "j < length slots" "slots ! j = Some v" by simp_all
  then show ?case by (intro "1.prems"(1) [of j]) (simp_all add: v)
next
  case (2 slots i js victim)
  show ?case
  proof (cases "slots ! i")
    case None
    with "2.prems"(2) show ?thesis by (intro "2.prems"(1) [of i]) simp_all
  next
    case (Some s)
    let ?w = "case victim of None \<Rightarrow> Some (i, s) | Some (j, v) \<Rightarrow> if sl_touched s < sl_touched v then Some (i, s) else victim"
    have w: "\<forall>j v. ?w = Some (j, v) \<longrightarrow> j < length slots \<and> slots ! j = Some v"
      using "2.prems"(2,3) Some by (auto split: option.splits if_splits)
    have wn: "?w \<noteq> None" by (auto split: option.splits)
    then obtain j0 v0 where w0: "?w = Some (j0, v0)" by (metis option.exhaust prod.exhaust)
    have le: "sl_touched v0 \<le> sl_touched s" "\<And>j v. victim = Some (j, v) \<Longrightarrow> sl_touched v0 \<le> sl_touched v"
      using w0 by (auto split: option.splits if_splits)
    have js: "\<forall>j\<in>set js. j < length slots" using "2.prems"(2) by simp
    obtain k where k: "slot_loop slots js ?w = Some k" "k < length slots"
      "slots ! k = None \<or> (\<forall>j\<in>set js. slots ! j \<noteq> None) \<and> (\<exists>t. slots ! k = Some t \<and>
         (\<forall>j\<in>set js. sl_touched t \<le> sl_touched (the (slots ! j))) \<and> (\<forall>j v. ?w = Some (j, v) \<longrightarrow> sl_touched t \<le> sl_touched v))"
      using "2.IH" [OF Some _ js w] wn by blast
    have run: "slot_loop slots (i # js) victim = Some k" using Some k(1) by simp
    show ?thesis
    proof (rule "2.prems"(1) [OF run k(2)])
      show "slots ! k = None \<or> (\<forall>j\<in>set (i # js). slots ! j \<noteq> None) \<and> (\<exists>t. slots ! k = Some t \<and>
         (\<forall>j\<in>set (i # js). sl_touched t \<le> sl_touched (the (slots ! j))) \<and> (\<forall>j v. victim = Some (j, v) \<longrightarrow> sl_touched t \<le> sl_touched v))"
        using k(3) w0 le Some by (auto intro: order_trans)
    qed
  qed
qed

end
