(* ===== verification/Keys_Cache_Props.thy ===== *)
theory Keys_Cache_Props
  imports Keys_Cache
begin

text \<open>
  The worker-local key cache is a least-recently-used store of at most 16 hosts.

  The specification is a list of entries, the most recently touched first: a hit moves its entry to
  the front, an insertion puts its entry in front and keeps the first 16.  \<open>recent\<close> reads that list off
  the slots, and \<open>get\<close> and \<open>put\<close> commute with it.  What a client relies on is proved once, from the
  specification, in the locale \<open>lru\<close>.
\<close>

section \<open>The specification\<close>

type_synonym 'k entries = "(bytes \<times> nat \<times> 'k) list"

definition lru_get :: "bytes \<Rightarrow> nat \<Rightarrow> 'k entries \<Rightarrow> 'k option \<times> 'k entries" where
  "lru_get host generation xs =
     (case map_of xs host of
        Some (g, k) \<Rightarrow> if generation \<noteq> 0 \<and> g = generation then (Some k, (host, g, k) # AList.delete host xs) else (None, xs)
      | None \<Rightarrow> (None, xs))"

definition lru_put :: "nat \<Rightarrow> bytes \<Rightarrow> nat \<Rightarrow> 'k \<Rightarrow> 'k entries \<Rightarrow> 'k entries" where
  "lru_put n host generation k xs = take n ((host, generation, k) # AList.delete host xs)"

datatype 'k lru_op = OP_GET bytes nat | OP_PUT bytes nat 'k

fun put_hosts :: "'k lru_op list \<Rightarrow> bytes set" where
  "put_hosts [] = {}"
| "put_hosts (OP_GET h g # es) = insert h (put_hosts es)"
| "put_hosts (OP_PUT h g k # es) = insert h (put_hosts es)"

lemma finite_put_hosts [simp]: "finite (put_hosts es)"
  by (induction es rule: put_hosts.induct) simp_all

text \<open>The generation and keyset last put for a host.\<close>

fun last_put :: "bytes \<Rightarrow> 'k lru_op list \<Rightarrow> (nat \<times> 'k) option" where
  "last_put h [] = None"
| "last_put h (OP_GET x g # es) = last_put h es"
| "last_put h (OP_PUT x g k # es) =
     (case last_put h es of
        Some v \<Rightarrow> Some v
      | None \<Rightarrow> if x = h \<and> g \<noteq> 0 then Some (g, k) else None)"

text \<open>The hosts in front of one entry.\<close>

definition ahead :: "bytes \<Rightarrow> 'k entries \<Rightarrow> bytes set" where
  "ahead h xs = fst ` set (takeWhile (\<lambda>e. fst e \<noteq> h) xs)"

lemma ahead_simps [simp]: "ahead h [] = {}" "ahead h (e # xs) = (if fst e = h then {} else insert (fst e) (ahead h xs))"
  by (auto simp: ahead_def)

lemma ahead_delete: "x \<noteq> h \<Longrightarrow> ahead h (AList.delete x xs) = ahead h xs - {x}"
proof (induction xs)
  case Nil
  then show ?case by simp
next
  case (Cons e xs)
  then show ?case by (cases e; cases "fst e = h"; cases "fst e = x") auto
qed

lemma map_of_take: "distinct (map fst xs) \<Longrightarrow> map_of xs h = Some v \<Longrightarrow> card (ahead h xs) < n \<Longrightarrow>
    map_of (take n xs) h = Some v \<and> ahead h (take n xs) = ahead h xs"
proof (induction xs arbitrary: n)
  case Nil
  then show ?case by simp
next
  case (Cons e xs)
  show ?case
  proof (cases "fst e = h")
    case True
    with Cons.prems show ?thesis by (cases n) (auto simp: ahead_def)
  next
    case False
    from False Cons.prems have "fst e \<notin> ahead h xs" by (auto simp: ahead_def dest: set_takeWhileD)
    moreover have "finite (ahead h xs)" by (simp add: ahead_def)
    ultimately obtain m where m: "n = Suc m" "card (ahead h xs) < m" using Cons.prems(3) False by (cases n) auto
    with Cons.IH [of m] Cons.prems False show ?thesis by (simp add: map_of_eq_None_iff)
  qed
qed

lemma delete_keys: "fst ` set (AList.delete x xs) = fst ` set xs - {x}"
  by (induction xs) auto

lemma lru_get_entries:
  "lru_get x y xs = (r, ys) \<Longrightarrow> ys = xs \<or> (\<exists>v. map_of xs x = Some v \<and> ys = (x, v) # AList.delete x xs)"
  by (auto simp: lru_get_def split: option.splits if_splits prod.splits)

lemma map_of_delete: "x \<noteq> h \<Longrightarrow> map_of (AList.delete x xs) h = map_of xs h"
  by (simp add: AList.delete_conv)

lemma map_of_take_Some: "map_of (take n xs) h = Some v \<Longrightarrow> map_of xs h = Some v"
  by (induction xs arbitrary: n) (auto simp: take_Cons' split: if_splits)

text \<open>The contract of a least-recently-used store with \<open>n\<close> places.\<close>

locale lru =
  fixes capacity :: nat and inv :: "'s \<Rightarrow> bool" and entries :: "'s \<Rightarrow> (bytes \<times> nat \<times> 'k) list"
    and get :: "'s \<Rightarrow> bytes \<Rightarrow> nat \<Rightarrow> 'k option \<times> 's" and put :: "'s \<Rightarrow> bytes \<Rightarrow> nat \<Rightarrow> 'k \<Rightarrow> 's"
  assumes inv_entries: "inv s \<Longrightarrow> distinct (map fst (entries s)) \<and> length (entries s) \<le> capacity"
    and get_spec: "inv s \<Longrightarrow> get s h g = (r, t) \<Longrightarrow> inv t \<and> lru_get h g (entries s) = (r, entries t)"
    and put_spec: "inv s \<Longrightarrow> g \<noteq> 0 \<Longrightarrow> inv (put s h g k) \<and> entries (put s h g k) = lru_put capacity h g k (entries s)"
    and capacity_pos: "0 < capacity"
begin

fun run :: "'k lru_op list \<Rightarrow> 's \<Rightarrow> 's" where
  "run [] s = s"
| "run (OP_GET h g # es) s = run es (snd (get s h g))"
| "run (OP_PUT h g k # es) s = run es (if g = 0 then s else put s h g k)"

lemma get_after_put: "inv s \<Longrightarrow> g \<noteq> 0 \<Longrightarrow> fst (get (put s h g k) h g) = Some k"
proof -
  assume a: "inv s" "g \<noteq> 0"
  obtain r t where gt: "get (put s h g k) h g = (r, t)" by fastforce
  from capacity_pos obtain n where "capacity = Suc n" by (cases capacity) auto
  with get_spec [OF _ gt] put_spec [OF a, of h k] a(2) show ?thesis
    unfolding gt by (simp add: lru_get_def lru_put_def)
qed

lemma hit_stored: "inv s \<Longrightarrow> fst (get s h g) = Some k \<Longrightarrow> g \<noteq> 0 \<and> map_of (entries s) h = Some (g, k)"
proof -
  assume a: "inv s" "fst (get s h g) = Some k"
  then obtain t where "get s h g = (Some k, t)" by (cases "get s h g") simp
  from get_spec [OF a(1) this] have "lru_get h g (entries s) = (Some k, entries t)" by simp
  then show ?thesis by (auto simp: lru_get_def split: option.splits if_splits prod.splits)
qed

text \<open>An operation on another host keeps an entry and puts at most that host ahead of it.\<close>

lemma get_keeps:
  assumes "inv s" and "get s x y = (r, t)" and x: "x \<noteq> h" and "map_of (entries s) h = Some v"
  shows "inv t \<and> map_of (entries t) h = Some v \<and> ahead h (entries t) \<subseteq> insert x (ahead h (entries s))"
proof -
  from get_spec [OF assms(1,2)] have t: "inv t" "lru_get x y (entries s) = (r, entries t)" by auto
  have "map_of (entries t) h = Some v \<and> ahead h (entries t) \<subseteq> insert x (ahead h (entries s))"
    using lru_get_entries [OF t(2)]
  proof (elim disjE exE conjE)
    assume "entries t = entries s"
    with assms(4) show ?thesis by auto
  next
    fix w assume "entries t = (x, w) # AList.delete x (entries s)"
    with assms(4) x ahead_delete [OF x, of "entries s"] map_of_delete [OF x, of "entries s"] show ?thesis by auto
  qed
  with t(1) show ?thesis by simp
qed

lemma put_keeps:
  assumes "inv s" and "y \<noteq> 0" and x: "x \<noteq> h" and "map_of (entries s) h = Some v"
    and room: "card (insert x (ahead h (entries s))) < capacity"
  shows "inv (put s x y z) \<and> map_of (entries (put s x y z)) h = Some v \<and> ahead h (entries (put s x y z)) \<subseteq> insert x (ahead h (entries s))"
proof -
  let ?l = "(x, y, z) # AList.delete x (entries s)"
  from put_spec [OF assms(1,2), of x z] have t: "inv (put s x y z)" "entries (put s x y z) = take capacity ?l"
    by (auto simp: lru_put_def)
  have d: "distinct (map fst ?l)" using inv_entries [OF assms(1)] by (simp add: AList.distinct_delete delete_keys)
  have m: "map_of ?l h = Some v" using assms(4) x by (simp add: map_of_delete)
  have a: "ahead h ?l \<subseteq> insert x (ahead h (entries s))" using x ahead_delete [OF x, of "entries s"] by auto
  from card_mono [OF _ this] room have "card (ahead h ?l) < capacity" by (simp add: ahead_def)
  from map_of_take [OF d m this] t a show ?thesis by simp
qed

text \<open>An entry survives any operations on fewer than \<open>capacity\<close> other hosts.\<close>

lemma survives_from:
  assumes "inv s" and "map_of (entries s) h = Some (g, k)" and "h \<notin> put_hosts es"
    and "card (ahead h (entries s) \<union> put_hosts es) < capacity"
  shows "inv (run es s) \<and> map_of (entries (run es s)) h = Some (g, k)"
  using assms
proof (induction es arbitrary: s rule: put_hosts.induct)
  case 1
  then show ?case by simp
next
  case (2 x y es)
  obtain r t where gt: "get s x y = (r, t)" by fastforce
  have x: "x \<noteq> h" using "2.prems"(3) by auto
  note t = get_keeps [OF "2.prems"(1) gt x "2.prems"(2)]
  then have "card (ahead h (entries t) \<union> put_hosts es) \<le> card (ahead h (entries s) \<union> put_hosts (OP_GET x y # es))"
    by (intro card_mono) (auto simp: ahead_def)
  with "2.IH" [of t] t "2.prems"(3,4) show ?case by (simp add: gt)
next
  case (3 x y z es)
  have x: "x \<noteq> h" using "3.prems"(3) by auto
  have fin: "finite (ahead h (entries s) \<union> put_hosts (OP_PUT x y z # es))" by (simp add: ahead_def)
  show ?case
  proof (cases "y = 0")
    case True
    have "card (ahead h (entries s) \<union> put_hosts es) \<le> card (ahead h (entries s) \<union> put_hosts (OP_PUT x y z # es))"
      by (rule card_mono [OF fin]) auto
    with "3.IH" [of s] "3.prems" True show ?thesis by simp
  next
    case False
    have "card (insert x (ahead h (entries s))) \<le> card (ahead h (entries s) \<union> put_hosts (OP_PUT x y z # es))"
      by (rule card_mono [OF fin]) auto
    with "3.prems"(4) have "card (insert x (ahead h (entries s))) < capacity" by simp
    note t = put_keeps [OF "3.prems"(1) False x "3.prems"(2) this, of z]
    then have "card (ahead h (entries (put s x y z)) \<union> put_hosts es) \<le> card (ahead h (entries s) \<union> put_hosts (OP_PUT x y z # es))"
      by (intro card_mono [OF fin]) auto
    with "3.IH" [of "put s x y z"] t "3.prems"(3,4) False show ?thesis by simp
  qed
qed

lemma run_inv: "inv s \<Longrightarrow> inv (run es s)"
proof (induction es arbitrary: s rule: put_hosts.induct)
  case 1
  then show ?case by simp
next
  case (2 h g es)
  then show ?case using get_spec [OF "2.prems", of h g] by (cases "get s h g") simp
next
  case (3 h g k es)
  then show ?case using put_spec [of s g h k] by simp
qed

lemma run_last_put:
  "inv s \<Longrightarrow> map_of (entries (run es s)) h = Some v \<Longrightarrow>
   last_put h es = Some v \<or> last_put h es = None \<and> map_of (entries s) h = Some v"
proof (induction es arbitrary: s rule: put_hosts.induct)
  case 1
  then show ?case by simp
next
  case (2 x y es)
  obtain r t where gt: "get s x y = (r, t)" by fastforce
  from get_spec [OF "2.prems"(1) gt] have t: "inv t" "lru_get x y (entries s) = (r, entries t)" by auto
  have "map_of (entries t) h = map_of (entries s) h"
    using lru_get_entries [OF t(2)] map_of_delete [of x h "entries s"] by (cases "x = h") auto
  with "2.IH" [OF t(1)] "2.prems"(2) show ?case by (simp add: gt)
next
  case (3 x y z es)
  show ?case
  proof (cases "y = 0")
    case True
    with "3.IH" [OF "3.prems"(1)] "3.prems"(2) show ?thesis by (auto split: option.split)
  next
    case False
    from put_spec [OF "3.prems"(1) False, of x z] have t: "inv (put s x y z)"
      "entries (put s x y z) = take capacity ((x, y, z) # AList.delete x (entries s))" by (auto simp: lru_put_def)
    have "x \<noteq> h \<Longrightarrow> map_of (entries (put s x y z)) h = Some v \<Longrightarrow> map_of (entries s) h = Some v"
      "x = h \<Longrightarrow> map_of (entries (put s x y z)) h = Some v \<Longrightarrow> v = (y, z)"
      using map_of_take_Some [of capacity "(x, y, z) # AList.delete x (entries s)" h v] map_of_delete [of x h "entries s"]
      unfolding t(2) by auto
    with "3.IH" [OF t(1)] "3.prems"(2) False show ?thesis by (cases "x = h") (auto split: option.split)
  qed
qed

lemma survives:
  assumes "inv s" and "g \<noteq> 0" and "h \<notin> put_hosts es" and "card (put_hosts es) < capacity"
  shows "fst (get (run es (put s h g k)) h g) = Some k"
proof -
  from capacity_pos obtain n where n: "capacity = Suc n" by (cases capacity) auto
  from put_spec [OF assms(1,2), of h k] have p: "inv (put s h g k)" "map_of (entries (put s h g k)) h = Some (g, k)"
    "ahead h (entries (put s h g k)) = {}" by (simp_all add: lru_put_def n)
  from survives_from [OF p(1,2) assms(3)] p(3) assms(4)
  have r: "inv (run es (put s h g k))" "map_of (entries (run es (put s h g k))) h = Some (g, k)" by simp_all
  obtain x t where gt: "get (run es (put s h g k)) h g = (x, t)" by fastforce
  from get_spec [OF r(1) gt] r(2) assms(2) show ?thesis by (simp add: gt lru_get_def)
qed

end

section \<open>The slots implement it\<close>

definition entry_of :: "'jwks kc_slot \<Rightarrow> bytes \<times> nat \<times> 'jwks keys" where
  "entry_of s = (sl_host s, sl_generation s, sl_keys s)"

definition recent :: "'jwks keys_cache \<Rightarrow> 'jwks keys entries" where
  "recent kc = map entry_of (rev (sort_key sl_touched (somes (kc_slots kc))))"

lemma sort_key_unique:
  assumes "distinct (map f xs)" and "sorted (map f ys)" and "distinct (map f ys)" and "set ys = set xs"
  shows "sort_key f xs = ys"
proof (rule map_sorted_distinct_set_unique [of f])
  show "inj_on f (set (sort_key f xs) \<union> set ys)" using assms(1,4) by (simp add: distinct_map)
  show "distinct (map f (sort_key f xs))" using assms(1) by (simp add: distinct_map)
qed (use assms in simp_all)

lemma sort_key_newest:
  assumes "distinct (map f (us @ vs))" and "\<forall>x\<in>set (us @ vs). f x < f n"
  shows "sort_key f (us @ n # vs) = sort_key f (us @ vs) @ [n]"
proof (rule sort_key_unique)
  have "f n \<notin> f ` set (us @ vs)" using assms(2) by auto
  moreover have "distinct (map f (sort_key f xs))" if "distinct (map f xs)" for xs using that by (simp add: distinct_map)
  from this [OF assms(1)] have "distinct (map f (sort_key f (us @ vs)))" .
  ultimately show "distinct (map f (us @ n # vs))" "distinct (map f (sort_key f (us @ vs) @ [n]))"
    using assms(1) by auto
  show "sorted (map f (sort_key f (us @ vs) @ [n]))"
    using assms(2) by (auto simp: sorted_append intro: less_imp_le)
qed auto

lemma delete_map_entry: "AList.delete h (map entry_of xs) = map entry_of (filter (\<lambda>s. sl_host s \<noteq> h) xs)"
  by (induction xs) (auto simp: entry_of_def)

lemma recent_delete:
  "AList.delete h (recent kc) = map entry_of (rev (sort_key sl_touched (filter (\<lambda>s. sl_host s \<noteq> h) (somes (kc_slots kc)))))"
  by (simp add: recent_def delete_map_entry rev_filter [symmetric] filter_sort)

lemma map_of_entries: "distinct (map sl_host xs) \<Longrightarrow> s \<in> set xs \<Longrightarrow> map_of (map entry_of xs) (sl_host s) = Some (sl_generation s, sl_keys s)"
  by (induction xs) (auto simp: entry_of_def image_iff)

lemma map_of_entries_None: "\<forall>s\<in>set xs. sl_host s \<noteq> h \<Longrightarrow> map_of (map entry_of xs) h = None"
  by (induction xs) (auto simp: entry_of_def)

lemma distinct_recent_hosts:
  "distinct (map sl_host xs) \<Longrightarrow> distinct (map sl_host (rev (sort_key f xs)))"
  by (simp add: distinct_map)

lemma map_of_recent:
  assumes "kc_inv kc"
  shows "s \<in> set (somes (kc_slots kc)) \<Longrightarrow> map_of (recent kc) (sl_host s) = Some (sl_generation s, sl_keys s)"
    and "\<forall>s\<in>set (somes (kc_slots kc)). sl_host s \<noteq> h \<Longrightarrow> map_of (recent kc) h = None"
  using assms unfolding recent_def kc_inv_def
  by (auto intro!: map_of_entries map_of_entries_None distinct_recent_hosts)

text \<open>Replacing one slot by a newest entry.\<close>

lemma replace_slot:
  assumes inv: "kc_inv kc" and slots: "kc_slots kc = us @ z # vs"
    and n: "sl_host n = h" "sl_touched n = Suc (kc_clock kc)" "sl_generation n \<noteq> 0"
    and rest: "\<forall>s\<in>set (somes (us @ vs)). sl_host s \<noteq> h"
    and kc': "kc' = \<lparr>kc_slots = us @ Some n # vs, kc_clock = Suc (kc_clock kc)\<rparr>"
  shows "kc_inv kc' \<and> recent kc' = entry_of n # map entry_of (rev (sort_key sl_touched (somes (us @ vs))))"
proof -
  have sub: "set (somes (us @ vs)) \<subseteq> set (somes (kc_slots kc))" unfolding slots by (cases z) auto
  have d: "distinct (map sl_host (somes (us @ vs)))" "distinct (map sl_touched (somes (us @ vs)))"
    using inv unfolding kc_inv_def slots by (cases z; simp)+
  have lt: "\<forall>s\<in>set (somes (us @ vs)). sl_touched s < sl_touched n"
    "\<forall>s\<in>set (somes (us @ vs)). sl_touched s \<le> kc_clock kc \<and> sl_generation s \<noteq> 0"
    using inv sub n(2) unfolding kc_inv_def by (auto simp: less_Suc_eq_le)
  have "kc_inv kc'"
    using d lt rest n inv unfolding kc_inv_def kc' slots by (auto simp: le_SucI)
  moreover have "recent kc' = entry_of n # map entry_of (rev (sort_key sl_touched (somes (us @ vs))))"
    using sort_key_newest [of sl_touched "somes us" "somes vs" n] d(2) lt(1) by (simp add: recent_def kc')
  ultimately show ?thesis ..
qed

lemma distinct_others: "distinct (map f (us @ s # vs)) \<Longrightarrow> \<forall>t\<in>set (us @ vs). f t \<noteq> f s"
  by (auto simp: image_iff)

lemma kc_get_spec:
  assumes inv: "kc_inv kc" and g: "kc_get kc h g = (r, kc')"
  shows "kc_inv kc' \<and> lru_get h g (recent kc) = (r, recent kc')"
proof (cases "kc_find kc h")
  case None
  have len: "length (kc_slots kc) = MAX_KEYS_CACHE_ENTRIES" using inv by (simp add: kc_inv_def)
  from map_of_recent(2) [OF inv kc_find_None [OF len None]] None g inv show ?thesis
    by (auto simp: kc_get_def lru_get_def split: if_splits)
next
  case (Some i)
  have len: "length (kc_slots kc) = MAX_KEYS_CACHE_ENTRIES" using inv by (simp add: kc_inv_def)
  from kc_find_Some [OF len Some] obtain s where s: "i < length (kc_slots kc)" "kc_slots kc ! i = Some s" "sl_host s = h" by blast
  from slots_split [OF s(1)] obtain us vs where sp: "kc_slots kc = us @ Some s # vs"
    "\<And>y. (kc_slots kc)[i := y] = us @ y # vs" by (metis s(2))
  have mem: "s \<in> set (somes (kc_slots kc))" by (simp add: sp(1))
  from map_of_recent(1) [OF inv mem] s(3) have m: "map_of (recent kc) h = Some (sl_generation s, sl_keys s)" by simp
  show ?thesis
  proof (cases "g \<noteq> 0 \<and> sl_generation s = g")
    case False
    with g Some s(2) have "r = None" "kc' = kc" by (auto simp: kc_get_def split: if_splits)
    with False m inv show ?thesis by (auto simp: lru_get_def)
  next
    case True
    let ?n = "s\<lparr>sl_touched := Suc (kc_clock kc)\<rparr>"
    from g Some s(2) True have r: "r = Some (sl_keys s)" and kc': "kc' = \<lparr>kc_slots = us @ Some ?n # vs, kc_clock = Suc (kc_clock kc)\<rparr>"
      by (auto simp: kc_get_def Let_def sp(2))
    have d: "distinct (map sl_host (somes (kc_slots kc)))" using inv by (simp add: kc_inv_def)
    have rest: "\<forall>t\<in>set (somes (us @ vs)). sl_host t \<noteq> h"
      using distinct_others [of sl_host "somes us" s "somes vs"] d s(3) by (simp add: sp(1))
    have "filter (\<lambda>t. sl_host t \<noteq> h) (somes (kc_slots kc)) = somes (us @ vs)"
      using rest s(3) by (simp add: sp(1))
    with replace_slot [OF inv sp(1), of ?n h kc'] s(3) True rest kc' r m recent_delete [of h kc]
    show ?thesis by (simp add: lru_get_def entry_of_def)
  qed
qed

lemma kc_insert_cases:
  assumes inv: "kc_inv kc"
  obtains us z vs where "kc_slots kc = us @ z # vs"
    "kc_insert kc h g k = \<lparr>kc_slots = us @ Some \<lparr>sl_host = h, sl_generation = g, sl_keys = k, sl_touched = Suc (kc_clock kc)\<rparr> # vs,
       kc_clock = Suc (kc_clock kc)\<rparr>"
    "(\<exists>s. z = Some s \<and> sl_host s = h) \<or> (\<forall>s\<in>set (somes (kc_slots kc)). sl_host s \<noteq> h) \<and>
       (z = None \<or> (\<exists>s. z = Some s \<and> None \<notin> set (kc_slots kc) \<and> (\<forall>t\<in>set (somes (us @ vs)). sl_touched s \<le> sl_touched t)))"
proof -
  have len: "length (kc_slots kc) = MAX_KEYS_CACHE_ENTRIES" using inv by (simp add: kc_inv_def)
  show thesis
  proof (cases "kc_find kc h")
    case (Some i)
    from kc_find_Some [OF len Some] obtain s where s: "i < length (kc_slots kc)" "kc_slots kc ! i = Some s" "sl_host s = h" by blast
    from slots_split [OF s(1)] obtain us vs where sp: "kc_slots kc = us @ Some s # vs" "length us = i"
      by (metis s(2))
    show thesis
      by (rule that [OF sp(1)]) (use Some s(3) sp in \<open>auto simp: kc_insert_def slot_for_def kc_evict_def Let_def\<close>)
  next
    case None
    note no = kc_find_None [OF len None]
    have js: "\<forall>j\<in>set [0..<MAX_KEYS_CACHE_ENTRIES]. j < length (kc_slots kc)" by (simp add: len)
    obtain i where i: "slot_loop (kc_slots kc) [0..<MAX_KEYS_CACHE_ENTRIES] None = Some i" "i < length (kc_slots kc)"
      "kc_slots kc ! i = None \<or> (\<forall>j\<in>set [0..<MAX_KEYS_CACHE_ENTRIES]. kc_slots kc ! j \<noteq> None) \<and> (\<exists>s. kc_slots kc ! i = Some s \<and>
         (\<forall>j\<in>set [0..<MAX_KEYS_CACHE_ENTRIES]. sl_touched s \<le> sl_touched (the (kc_slots kc ! j))))"
      using slot_loop_spec [OF js, of None] by (auto simp: MAX_KEYS_CACHE_ENTRIES_def)
    from slots_split [OF i(2)] obtain us z vs where sp: "kc_slots kc = us @ z # vs" "length us = i" "kc_slots kc ! i = z"
      by metis
    have min: "z = None \<or> (\<exists>s. z = Some s \<and> None \<notin> set (kc_slots kc) \<and> (\<forall>t\<in>set (somes (us @ vs)). sl_touched s \<le> sl_touched t))"
    proof (cases z)
      case (Some s)
      with i(3) sp(3) have full: "\<forall>j < length (kc_slots kc). kc_slots kc ! j \<noteq> None"
        and le: "\<forall>j < length (kc_slots kc). sl_touched s \<le> sl_touched (the (kc_slots kc ! j))" by (auto simp: len)
      have "None \<notin> set (kc_slots kc)" using full by (auto simp: in_set_conv_nth)
      moreover have "sl_touched s \<le> sl_touched t" if "t \<in> set (somes (us @ vs))" for t
      proof -
        from that have "Some t \<in> set (kc_slots kc)" unfolding in_somes sp(1) by auto
        then obtain j where "j < length (kc_slots kc)" "kc_slots kc ! j = Some t" by (auto simp: in_set_conv_nth)
        with le show ?thesis by fastforce
      qed
      ultimately show ?thesis using Some by blast
    qed simp
    show thesis
      by (rule that [OF sp(1)]) (use None i(1) no min sp in \<open>auto simp: kc_insert_def slot_for_def kc_evict_def Let_def\<close>)
  qed
qed

text \<open>A full cache loses its slot of the oldest use, which is the last of the recency order.\<close>

lemma oldest_slot:
  assumes inv: "kc_inv kc" and sp: "kc_slots kc = us @ Some s # vs" and full: "None \<notin> set (kc_slots kc)"
    and oldest: "\<forall>t\<in>set (somes (us @ vs)). sl_touched s \<le> sl_touched t"
  shows "sort_key sl_touched (somes (kc_slots kc)) = s # sort_key sl_touched (somes (us @ vs))"
    and "length (somes (us @ vs)) = MAX_KEYS_CACHE_ENTRIES - 1"
proof -
  have d: "distinct (map sl_touched (somes (kc_slots kc)))" and len: "length (kc_slots kc) = MAX_KEYS_CACHE_ENTRIES"
    using inv by (simp_all add: kc_inv_def)
  show "sort_key sl_touched (somes (kc_slots kc)) = s # sort_key sl_touched (somes (us @ vs))"
  proof (rule sort_key_unique [OF d])
    show "sorted (map sl_touched (s # sort_key sl_touched (somes (us @ vs))))" using oldest by simp
    have "distinct (map sl_touched (sort_key sl_touched xs))" if "distinct (map sl_touched xs)"
      for xs :: "'a kc_slot list" using that by (simp add: distinct_map)
    from this [of "somes (us @ vs)"] d
    show "distinct (map sl_touched (s # sort_key sl_touched (somes (us @ vs))))" by (auto simp: sp)
  qed (auto simp: sp)
  have "length (somes xs) = length xs" if "None \<notin> set xs" for xs :: "'a kc_slot option list"
    using that by (induction xs) (auto simp: neq_commute)
  from this [OF full] show "length (somes (us @ vs)) = MAX_KEYS_CACHE_ENTRIES - 1" using len by (simp add: sp)
qed

lemma kc_insert_spec:
  assumes inv: "kc_inv kc" and g: "g \<noteq> 0"
  shows "kc_inv (kc_insert kc h g k) \<and> recent (kc_insert kc h g k) = lru_put MAX_KEYS_CACHE_ENTRIES h g k (recent kc)"
proof -
  let ?n = "\<lparr>sl_host = h, sl_generation = g, sl_keys = k, sl_touched = Suc (kc_clock kc)\<rparr>"
  obtain us z vs where sp: "kc_slots kc = us @ z # vs"
    and kc': "kc_insert kc h g k = \<lparr>kc_slots = us @ Some ?n # vs, kc_clock = Suc (kc_clock kc)\<rparr>"
    and z: "(\<exists>s. z = Some s \<and> sl_host s = h) \<or> (\<forall>s\<in>set (somes (kc_slots kc)). sl_host s \<noteq> h) \<and>
       (z = None \<or> (\<exists>s. z = Some s \<and> None \<notin> set (kc_slots kc) \<and> (\<forall>t\<in>set (somes (us @ vs)). sl_touched s \<le> sl_touched t)))"
    by (rule kc_insert_cases [OF inv, of h g k])
  have d: "distinct (map sl_host (somes (kc_slots kc)))" "distinct (map sl_touched (somes (kc_slots kc)))"
    and len: "length (kc_slots kc) = MAX_KEYS_CACHE_ENTRIES" using inv by (simp_all add: kc_inv_def)
  have rest: "\<forall>s\<in>set (somes (us @ vs)). sl_host s \<noteq> h"
    using z
  proof
    assume "\<exists>s. z = Some s \<and> sl_host s = h"
    then obtain s where "z = Some s" "sl_host s = h" by blast
    with distinct_others [of sl_host "somes us" s "somes vs"] d(1) show ?thesis by (simp add: sp)
  next
    assume "(\<forall>s\<in>set (somes (kc_slots kc)). sl_host s \<noteq> h) \<and>
       (z = None \<or> (\<exists>s. z = Some s \<and> None \<notin> set (kc_slots kc) \<and> (\<forall>t\<in>set (somes (us @ vs)). sl_touched s \<le> sl_touched t)))"
    then show ?thesis unfolding sp by (cases z) auto
  qed
  let ?old = "rev (sort_key sl_touched (somes (us @ vs)))"
  from replace_slot [OF inv sp, of ?n h "kc_insert kc h g k"] rest g kc'
  have r: "kc_inv (kc_insert kc h g k)" "recent (kc_insert kc h g k) = entry_of ?n # map entry_of ?old" by simp_all
  have lo: "length (somes (us @ vs)) < MAX_KEYS_CACHE_ENTRIES"
    using length_somes [of "us @ vs"] len by (simp add: sp)
  have "take MAX_KEYS_CACHE_ENTRIES (entry_of ?n # AList.delete h (recent kc)) = entry_of ?n # map entry_of ?old"
    using z
  proof (elim disjE conjE exE)
    fix s assume "z = Some s" "sl_host s = h"
    then have "filter (\<lambda>t. sl_host t \<noteq> h) (somes (kc_slots kc)) = somes (us @ vs)" using rest by (simp add: sp)
    with lo show ?thesis by (simp add: recent_delete)
  next
    assume "\<forall>s\<in>set (somes (kc_slots kc)). sl_host s \<noteq> h" "z = None"
    then have "filter (\<lambda>t. sl_host t \<noteq> h) (somes (kc_slots kc)) = somes (us @ vs)" by (simp add: sp)
    with lo show ?thesis by (simp add: recent_delete)
  next
    fix s
    assume no: "\<forall>s\<in>set (somes (kc_slots kc)). sl_host s \<noteq> h" and s: "z = Some s" "None \<notin> set (kc_slots kc)"
      "\<forall>t\<in>set (somes (us @ vs)). sl_touched s \<le> sl_touched t"
    have "filter (\<lambda>t. sl_host t \<noteq> h) (somes (kc_slots kc)) = somes (kc_slots kc)" using no by simp
    moreover note oldest_slot [OF inv sp [unfolded s(1)] s(2,3)]
    ultimately show ?thesis by (simp add: recent_delete take_Cons' MAX_KEYS_CACHE_ENTRIES_def)
  qed
  with r show ?thesis by (simp add: lru_put_def entry_of_def)
qed

interpretation keys_lru: lru MAX_KEYS_CACHE_ENTRIES kc_inv recent kc_get kc_insert
proof unfold_locales
  fix s :: "'a keys_cache" assume inv: "kc_inv s"
  then have "distinct (map sl_host (rev (sort_key sl_touched (somes (kc_slots s)))))"
    unfolding kc_inv_def by (intro distinct_recent_hosts) simp
  moreover have "fst \<circ> entry_of = (sl_host :: 'a kc_slot \<Rightarrow> bytes)" by (simp add: fun_eq_iff entry_of_def)
  ultimately show "distinct (map fst (recent s)) \<and> length (recent s) \<le> MAX_KEYS_CACHE_ENTRIES"
    using inv length_somes [of "kc_slots s"] by (simp add: recent_def kc_inv_def)
next
  show "0 < MAX_KEYS_CACHE_ENTRIES" by (simp add: MAX_KEYS_CACHE_ENTRIES_def)
qed (use kc_get_spec kc_insert_spec in blast)+

lemma recent_empty: "recent kc_empty = []"
  by (simp add: recent_def kc_empty_def)

text \<open>A worker's sequence of lookups and successful insertions.\<close>

fun kc_run :: "'jwks keys lru_op list \<Rightarrow> 'jwks keys_cache \<Rightarrow> 'jwks keys_cache" where
  "kc_run [] kc = kc"
| "kc_run (OP_GET h g # es) kc = kc_run es (snd (kc_get kc h g))"
| "kc_run (OP_PUT h g k # es) kc = kc_run es (if g = 0 then kc else kc_insert kc h g k)"

lemma kc_run_eq: "kc_run es kc = keys_lru.run es kc"
  by (induction es kc rule: kc_run.induct) (simp_all add: keys_lru.run.simps)

lemma kc_put_cases:
  "kc_put lib kc h doc g pool = (r, kc', pool') \<Longrightarrow>
   g \<noteq> 0 \<and> (\<exists>k. r = NGX_OK k \<and> kc' = kc_insert kc h g k) \<or> (\<forall>k. r \<noteq> NGX_OK k) \<and> kc' = kc"
  by (auto simp: kc_put_def split: if_splits prod.splits bool.splits rc.splits)

section \<open>Properties\<close>

text \<open>C17: The slot array is a least-recently-used store: a lookup returns what the specification returns and moves
  its entry to the front, a successful put places the parsed keyset in front and keeps the first 16
  entries, and a put that fails, to parse or to allocate, changes nothing.\<close>

theorem keys_cache_refines_lru:
  assumes "kc_inv kc" and "kc_put lib kc h doc g pool = (r, kc', pool')"
  shows "kc_inv (snd (kc_get kc host gen)) \<and>
    lru_get host gen (recent kc) = (fst (kc_get kc host gen), recent (snd (kc_get kc host gen))) \<and>
    kc_inv kc' \<and>
    (case r of NGX_OK k \<Rightarrow> g \<noteq> 0 \<and> recent kc' = lru_put MAX_KEYS_CACHE_ENTRIES h g k (recent kc) | _ \<Rightarrow> kc' = kc)"
proof (intro conjI)
  from kc_get_spec [OF assms(1), of host gen]
  show "kc_inv (snd (kc_get kc host gen))"
    "lru_get host gen (recent kc) = (fst (kc_get kc host gen), recent (snd (kc_get kc host gen)))"
    by (cases "kc_get kc host gen"; simp)+
  from kc_put_cases [OF assms(2)] kc_insert_spec [OF assms(1), of g h] assms(1)
  show "kc_inv kc'" "case r of NGX_OK k \<Rightarrow> g \<noteq> 0 \<and> recent kc' = lru_put MAX_KEYS_CACHE_ENTRIES h g k (recent kc) | _ \<Rightarrow> kc' = kc"
    by (auto split: rc.splits)
qed

theorem keys_cache_refines_lru_witness:
  "\<exists>kc'. kc_put toy_jwx kc_empty ''a.example'' ''doc'' 7 [] = (NGX_OK (KEYS_JWKS ''doc''), kc', []) \<and>
     recent kc' = [(''a.example'', 7, KEYS_JWKS ''doc'')]"
proof -
  have "check_ed25519_only toy_jwx ''doc''"
    by (simp add: check_ed25519_only_def check_ed25519_only_body_def check_keys_loop_all key_is_ed25519_iff
        toy_jwx_def Let_def MAX_JWKS_KEYS_def)
  then have "load_jwks toy_jwx ''doc'' [] = (NGX_OK (KEYS_JWKS ''doc''), [])"
    by (simp add: load_jwks_def MAX_JWKS_SIZE_def) (simp add: toy_jwx_def bnd_def pool_alloc_Nil ret_def)
  then have put: "kc_put toy_jwx kc_empty ''a.example'' ''doc'' 7 [] =
      (NGX_OK (KEYS_JWKS ''doc''), kc_insert kc_empty ''a.example'' 7 (KEYS_JWKS ''doc''), [])"
    by (simp add: kc_put_def)
  from put keys_cache_refines_lru [OF kc_inv_empty put]
  show ?thesis by (simp add: lru_put_def MAX_KEYS_CACHE_ENTRIES_def recent_empty)
qed

text \<open>The worker cache never serves a stale or foreign keyset, and it does serve a fresh one: whatever lookups
  and puts came before, a hit for a host and generation is the keyset of the last put for that host and was
  put with that generation; and an entry is still found after any operations on up to 15 other hosts.\<close>

lemma keys_cache_hits:
  "(fst (kc_get (kc_run es kc_empty) h g) = Some k \<longrightarrow> last_put h es = Some (g, k)) \<and>
   (g \<noteq> 0 \<and> h \<notin> put_hosts fs \<and> card (put_hosts fs) < 16 \<longrightarrow>
      fst (kc_get (kc_run fs (kc_insert (kc_run es kc_empty) h g k)) h g) = Some k)"
proof (intro conjI impI)
  have inv: "kc_inv (kc_run es kc_empty)" unfolding kc_run_eq by (rule keys_lru.run_inv [OF kc_inv_empty])
  show "last_put h es = Some (g, k)" if "fst (kc_get (kc_run es kc_empty) h g) = Some k"
    using keys_lru.run_last_put [OF kc_inv_empty, of es h "(g, k)"] keys_lru.hit_stored [OF inv that]
    unfolding kc_run_eq by (auto simp: recent_empty)
  show "fst (kc_get (kc_run fs (kc_insert (kc_run es kc_empty) h g k)) h g) = Some k"
    if "g \<noteq> 0 \<and> h \<notin> put_hosts fs \<and> card (put_hosts fs) < 16"
    using keys_lru.survives [OF inv, of g h fs k] that unfolding kc_run_eq MAX_KEYS_CACHE_ENTRIES_def by blast
qed

lemma keys_cache_hits_example:
  "last_put ''a'' [OP_PUT ''a'' 1 (KEYS_JWKS ''x''), OP_PUT ''b'' 2 (KEYS_JWKS ''y'')] = Some (1, KEYS_JWKS ''x'') \<and>
   fst (kc_get (kc_run [OP_PUT ''b'' 2 (KEYS_JWKS ''y''), OP_GET ''c'' 3]
     (kc_insert (kc_run [OP_GET ''d'' 4] kc_empty) ''a'' 1 (KEYS_JWKS ''x''))) ''a'' 1) = Some (KEYS_JWKS ''x'')"
proof -
  have "fst (kc_get (kc_run [OP_PUT ''a'' 1 (KEYS_JWKS ''x''), OP_PUT ''b'' 2 (KEYS_JWKS ''y'')] kc_empty) ''a'' 1)
      = Some (KEYS_JWKS ''x'')" by code_simp
  with keys_cache_hits [of "[OP_PUT ''a'' 1 (KEYS_JWKS ''x''), OP_PUT ''b'' 2 (KEYS_JWKS ''y'')]" "''a''" 1 "KEYS_JWKS ''x''"]
    keys_cache_hits [of "[OP_GET ''d'' 4]" "''a''" 1 "KEYS_JWKS ''x''" "[OP_PUT ''b'' 2 (KEYS_JWKS ''y''), OP_GET ''c'' 3]"]
  show ?thesis by simp
qed

end
