(* ===== verification/Rbtree.thy ===== *)
theory Rbtree
  imports Ngx
begin

text \<open>
  The red-black tree of nginx (\<open>ngx_rbtree.c\<close>, of which the repository carries a copy under
  \<open>tests/unit/ngx_compat\<close>), which the two shared-memory stores are built on.

  A node is reached through the path from the root: where the code follows parent pointers, the model
  walks up a list of frames, each holding a parent, its colour and its other subtree.  A pointer to a
  node of the tree is its content, which is unique in the trees of this module.
\<close>

section \<open>Trees and paths\<close>

datatype color = RB_BLACK | RB_RED

datatype 'a rbtree = Sentinel | Node "'a rbtree" color 'a "'a rbtree"

datatype 'a frame =
    In_left color 'a "'a rbtree"
  | In_right "'a rbtree" color 'a

type_synonym 'a path = "'a frame list"

fun rb_color :: "'a rbtree \<Rightarrow> color" where
  "rb_color Sentinel = RB_BLACK"
| "rb_color (Node l c x r) = c"

fun rb_paint :: "color \<Rightarrow> 'a rbtree \<Rightarrow> 'a rbtree" where
  "rb_paint c Sentinel = Sentinel"
| "rb_paint c (Node l d x r) = Node l c x r"

fun plug :: "'a rbtree \<Rightarrow> 'a frame \<Rightarrow> 'a rbtree" where
  "plug t (In_left c x r) = Node t c x r"
| "plug t (In_right l c x) = Node l c x t"

fun rebuild :: "'a rbtree \<Rightarrow> 'a path \<Rightarrow> 'a rbtree" where
  "rebuild t [] = t"
| "rebuild t (f # path) = rebuild (plug t f) path"

fun frame_color :: "'a frame \<Rightarrow> color" where
  "frame_color (In_left c x r) = c"
| "frame_color (In_right l c x) = c"

fun inorder :: "'a rbtree \<Rightarrow> 'a list" where
  "inorder Sentinel = []"
| "inorder (Node l c x r) = inorder l @ x # inorder r"

section \<open>Insertion\<close>

text \<open>The walk of an insert callback: \<open>lt node temp\<close> chooses \<open>temp->left\<close>.\<close>

fun rb_descend :: "('a \<Rightarrow> 'a \<Rightarrow> bool) \<Rightarrow> 'a \<Rightarrow> 'a rbtree \<Rightarrow> 'a path \<Rightarrow> 'a path" where
  "rb_descend lt x Sentinel path = path"
| "rb_descend lt x (Node l c y r) path =
     (if lt x y then rb_descend lt x l (In_left c y r # path)
      else rb_descend lt x r (In_right l c y # path))"

text \<open>
  Rotations at the grandparent once the uncle is black.  \<open>t\<close> is \<open>node\<close>, the red parent holds it on the
  side of the first frame; an inner child is first rotated to the outside.
\<close>

fun rotate_left_side :: "'a rbtree \<Rightarrow> 'a frame \<Rightarrow> 'a \<Rightarrow> 'a rbtree \<Rightarrow> 'a rbtree" where
  "rotate_left_side t (In_left pc px pr) gx u = Node t RB_BLACK px (Node pr RB_RED gx u)"
| "rotate_left_side (Node a c x b) (In_right pl pc px) gx u = Node (Node pl pc px a) RB_BLACK x (Node b RB_RED gx u)"
| "rotate_left_side Sentinel (In_right pl pc px) gx u = Node (Node pl pc px Sentinel) RB_RED gx u"

fun rotate_right_side :: "'a rbtree \<Rightarrow> 'a frame \<Rightarrow> 'a rbtree \<Rightarrow> 'a \<Rightarrow> 'a rbtree" where
  "rotate_right_side t (In_right pl pc px) u gx = Node (Node u RB_RED gx pl) RB_BLACK px t"
| "rotate_right_side (Node a c x b) (In_left pc px pr) u gx = Node (Node u RB_RED gx a) RB_BLACK x (Node b pc px pr)"
| "rotate_right_side Sentinel (In_left pc px pr) u gx = Node u RB_RED gx (Node Sentinel pc px pr)"

fun frame_black :: "'a frame \<Rightarrow> 'a frame" where
  "frame_black (In_left c x r) = In_left RB_BLACK x r"
| "frame_black (In_right l c x) = In_right l RB_BLACK x"

text \<open>The rebalancing loop of \<open>ngx_rbtree_insert\<close> and the final \<open>ngx_rbt_black(*root)\<close>.\<close>

fun insert_fixup :: "'a rbtree \<Rightarrow> 'a path \<Rightarrow> 'a rbtree" where
  "insert_fixup t [] = rb_paint RB_BLACK t"
| "insert_fixup t [p] = rb_paint RB_BLACK (plug t p)"
| "insert_fixup t (p # g # path) =
     (if frame_color p = RB_BLACK then rb_paint RB_BLACK (rebuild t (p # g # path))
      else case g of
        In_left gc gx u \<Rightarrow>
          if rb_color u = RB_RED then
            insert_fixup (Node (plug t (frame_black p)) RB_RED gx (rb_paint RB_BLACK u)) path
          else rb_paint RB_BLACK (rebuild (rotate_left_side t p gx u) path)
      | In_right u gc gx \<Rightarrow>
          if rb_color u = RB_RED then
            insert_fixup (Node (rb_paint RB_BLACK u) RB_RED gx (plug t (frame_black p))) path
          else rb_paint RB_BLACK (rebuild (rotate_right_side t p u gx) path))"

definition ngx_rbtree_insert :: "('a \<Rightarrow> 'a \<Rightarrow> bool) \<Rightarrow> 'a \<Rightarrow> 'a rbtree \<Rightarrow> 'a rbtree" where
  "ngx_rbtree_insert lt x t =
     (if t = Sentinel then Node Sentinel RB_BLACK x Sentinel
      else insert_fixup (Node Sentinel RB_RED x Sentinel) (rb_descend lt x t []))"

section \<open>Deletion\<close>

fun rb_locate :: "'a \<Rightarrow> 'a rbtree \<Rightarrow> 'a path \<Rightarrow> ('a rbtree \<times> color \<times> 'a rbtree \<times> 'a path) option" where
  "rb_locate x Sentinel path = None"
| "rb_locate x (Node l c y r) path =
     (if x = y then Some (l, c, r, path)
      else case rb_locate x l (In_left c y r # path) of
        Some z \<Rightarrow> Some z
      | None \<Rightarrow> rb_locate x r (In_right l c y # path))"

text \<open>\<open>ngx_rbtree_min\<close>: the leftmost node of a non-empty subtree, its colour and right child, and its path.\<close>

fun rb_min_path :: "'a rbtree \<Rightarrow> color \<Rightarrow> 'a \<Rightarrow> 'a rbtree \<Rightarrow> 'a path \<Rightarrow> color \<times> 'a \<times> 'a rbtree \<times> 'a path" where
  "rb_min_path Sentinel c x r path = (c, x, r, path)"
| "rb_min_path (Node ll lc lx lr) c x r path = rb_min_path ll lc lx lr (In_left c x r # path)"

fun ngx_rbtree_min :: "'a rbtree \<Rightarrow> 'a option" where
  "ngx_rbtree_min Sentinel = None"
| "ngx_rbtree_min (Node Sentinel c x r) = Some x"
| "ngx_rbtree_min (Node l c x r) = ngx_rbtree_min l"

text \<open>
  One turn of the fixup loop below a parent of colour \<open>pc\<close> with a black sibling.  \<open>Inl\<close> is the subtree to
  continue with one level up, \<open>Inr\<close> the finished one (\<open>temp = *root\<close>).  A sentinel has no children: the
  sibling is a node in every balanced tree.
\<close>

fun sibling_right :: "'a rbtree \<Rightarrow> color \<Rightarrow> 'a \<Rightarrow> 'a rbtree \<Rightarrow> 'a rbtree + 'a rbtree" where
  "sibling_right t pc px Sentinel = Inr (Node t pc px Sentinel)"
| "sibling_right t pc px (Node wl wc wx wr) =
     (if rb_color wl = RB_BLACK \<and> rb_color wr = RB_BLACK then Inl (Node t pc px (Node wl RB_RED wx wr))
      else if rb_color wr = RB_BLACK then
        (case wl of
           Node a d y b \<Rightarrow> Inr (Node (Node t RB_BLACK px a) pc y (Node b RB_BLACK wx wr))
         | Sentinel \<Rightarrow> Inr (Node t pc px (Node wl wc wx wr)))
      else Inr (Node (Node t RB_BLACK px wl) pc wx (rb_paint RB_BLACK wr)))"

fun sibling_left :: "'a rbtree \<Rightarrow> color \<Rightarrow> 'a \<Rightarrow> 'a rbtree \<Rightarrow> 'a rbtree + 'a rbtree" where
  "sibling_left Sentinel pc px t = Inr (Node Sentinel pc px t)"
| "sibling_left (Node wl wc wx wr) pc px t =
     (if rb_color wl = RB_BLACK \<and> rb_color wr = RB_BLACK then Inl (Node (Node wl RB_RED wx wr) pc px t)
      else if rb_color wl = RB_BLACK then
        (case wr of
           Node a d y b \<Rightarrow> Inr (Node (Node wl RB_BLACK wx a) pc y (Node b RB_BLACK px t))
         | Sentinel \<Rightarrow> Inr (Node (Node wl wc wx wr) pc px t))
      else Inr (Node (rb_paint RB_BLACK wl) pc wx (Node wr RB_BLACK px t)))"

lemma sibling_right_Inl: "sibling_right t pc px w = Inl s \<Longrightarrow> rb_color s = pc"
  by (cases w) (auto split: if_splits rbtree.splits)

lemma sibling_left_Inl: "sibling_left w pc px t = Inl s \<Longrightarrow> rb_color s = pc"
  by (cases w) (auto split: if_splits rbtree.splits)

function delete_fixup :: "'a rbtree \<Rightarrow> 'a path \<Rightarrow> 'a rbtree" where
  "delete_fixup t path =
     (if path = [] \<or> rb_color t = RB_RED then rebuild (rb_paint RB_BLACK t) path
      else case (hd path, tl path) of
        (In_left pc px (Node wl RB_RED wx wr), rest) \<Rightarrow>
          (case sibling_right t RB_RED px wl of
             Inl s \<Rightarrow> delete_fixup s (In_left RB_BLACK wx wr # rest)
           | Inr s \<Rightarrow> rb_paint RB_BLACK (rebuild s (In_left RB_BLACK wx wr # rest)))
      | (In_left pc px w, rest) \<Rightarrow>
          (case sibling_right t pc px w of
             Inl s \<Rightarrow> delete_fixup s rest
           | Inr s \<Rightarrow> rb_paint RB_BLACK (rebuild s rest))
      | (In_right (Node wl RB_RED wx wr) pc px, rest) \<Rightarrow>
          (case sibling_left wr RB_RED px t of
             Inl s \<Rightarrow> delete_fixup s (In_right wl RB_BLACK wx # rest)
           | Inr s \<Rightarrow> rb_paint RB_BLACK (rebuild s (In_right wl RB_BLACK wx # rest)))
      | (In_right w pc px, rest) \<Rightarrow>
          (case sibling_left w pc px t of
             Inl s \<Rightarrow> delete_fixup s rest
           | Inr s \<Rightarrow> rb_paint RB_BLACK (rebuild s rest)))"
  by pat_completeness auto

termination
  by (relation "measure (\<lambda>(t, path). 2 * length path + (if rb_color t = RB_RED then 0 else 1))")
    (auto dest!: sibling_right_Inl sibling_left_Inl simp: neq_Nil_conv)

declare delete_fixup.simps [simp del]

text \<open>\<open>subst\<close> is the node itself when it lacks a child, else the successor, which takes its place and colour.\<close>

definition ngx_rbtree_delete :: "'a \<Rightarrow> 'a rbtree \<Rightarrow> 'a rbtree" where
  "ngx_rbtree_delete x t =
     (case rb_locate x t [] of
        None \<Rightarrow> t
      | Some (l, c, r, path) \<Rightarrow>
          if l = Sentinel \<or> r = Sentinel then
            let temp = (if l = Sentinel then r else l) in
            if path = [] then rb_paint RB_BLACK temp
            else if c = RB_RED then rebuild temp path
            else delete_fixup temp path
          else case r of
            Node rl rc ry rr \<Rightarrow>
              (case rb_min_path rl rc ry rr [] of
                 (red, y, temp, down) \<Rightarrow>
                   if red = RB_RED then rebuild temp (down @ In_right l c y # path)
                   else delete_fixup temp (down @ In_right l c y # path))
          | Sentinel \<Rightarrow> t)"

section \<open>Writing to a node\<close>

text \<open>Assignments through a pointer to a node of the tree: the node \<open>x\<close> becomes \<open>y\<close> where it stands.\<close>

definition rb_write :: "'a \<Rightarrow> 'a \<Rightarrow> 'a rbtree \<Rightarrow> 'a rbtree" where
  "rb_write x y t = map_rbtree (\<lambda>z. if z = x then y else z) t"

end
