(* ===== verification/Rbtree_Props.thy ===== *)
theory Rbtree_Props
  imports Rbtree
begin

text \<open>
  What the rebalancing operations do to the sequence of nodes: insertion puts the node where the insert
  callback's order says, deletion takes it out, and nothing else moves.  The locale \<open>ordered_tree\<close> gives
  the map interface the stores use the trees through.
\<close>

section \<open>Paths\<close>

fun nodes_before :: "'a path \<Rightarrow> 'a list" where
  "nodes_before [] = []"
| "nodes_before (In_left c x r # p) = nodes_before p"
| "nodes_before (In_right l c x # p) = nodes_before p @ inorder l @ [x]"

fun nodes_after :: "'a path \<Rightarrow> 'a list" where
  "nodes_after [] = []"
| "nodes_after (In_left c x r # p) = x # inorder r @ nodes_after p"
| "nodes_after (In_right l c x # p) = nodes_after p"

lemma inorder_paint [simp]: "inorder (rb_paint c t) = inorder t"
  by (cases t) simp_all

lemma inorder_rebuild [simp]: "inorder (rebuild t p) = nodes_before p @ inorder t @ nodes_after p"
  by (induction p arbitrary: t rule: nodes_before.induct) simp_all

lemma nodes_append [simp]:
  "nodes_before (p @ q) = nodes_before q @ nodes_before p"
  "nodes_after (p @ q) = nodes_after p @ nodes_after q"
  by (induction p rule: nodes_before.induct) simp_all

lemma set_inorder [simp]: "set (inorder t) = set_rbtree t"
  by (induction t) auto

section \<open>Insertion\<close>

lemma inorder_rotate [simp]:
  "inorder (rotate_left_side t p gx u) = inorder (plug t p) @ gx # inorder u"
  "inorder (rotate_right_side t p u gx) = inorder u @ gx # inorder (plug t p)"
  by (cases "(t, p, gx, u)" rule: rotate_left_side.cases; simp)
    (cases "(t, p, u, gx)" rule: rotate_right_side.cases; simp)

lemma frame_black_plug [simp]: "inorder (plug t (frame_black p)) = inorder (plug t p)"
  by (cases p) simp_all

lemma plug_nodes:
  "nodes_before (p # q) @ inorder t @ nodes_after (p # q) = nodes_before q @ inorder (plug t p) @ nodes_after q"
  by (cases p) simp_all

lemma inorder_insert_fixup: "inorder (insert_fixup t p) = nodes_before p @ inorder t @ nodes_after p"
proof (induction t p rule: insert_fixup.induct)
  case (3 t p g path)
  show ?case
  proof (cases "frame_color p = RB_BLACK")
    case False
    with 3 show ?thesis
      by (cases g; cases p) (simp_all split: if_splits)
  qed (cases g; cases p; simp)
qed (simp_all add: plug_nodes [of _ "[]", simplified] del: nodes_before.simps(2,3) nodes_after.simps(2,3))

text \<open>Once a node is not below \<open>x\<close>, none after it is.\<close>

definition splits_at :: "('a \<Rightarrow> 'a \<Rightarrow> bool) \<Rightarrow> 'a \<Rightarrow> 'a list \<Rightarrow> bool" where
  "splits_at lt x xs \<longleftrightarrow> sorted_wrt (\<lambda>y z. lt x y \<longrightarrow> lt x z) xs"

lemma splits_at_append:
  "splits_at lt x (xs @ y # ys) \<longleftrightarrow> splits_at lt x xs \<and> splits_at lt x ys \<and> (if lt x y then \<forall>z\<in>set ys. lt x z else \<forall>z\<in>set xs. \<not> lt x z)
    \<and> (\<forall>z\<in>set xs. \<forall>w\<in>set ys. lt x z \<longrightarrow> lt x w)"
  unfolding splits_at_def sorted_wrt_append by (auto split: if_splits)

lemma takeWhile_all: "\<forall>y\<in>set xs. P y \<Longrightarrow> takeWhile P (xs @ ys) = xs @ takeWhile P ys \<and> dropWhile P (xs @ ys) = dropWhile P ys"
  by (induction xs) simp_all

lemma takeWhile_none: "\<forall>y\<in>set ys. \<not> P y \<Longrightarrow> takeWhile P (xs @ ys) = takeWhile P xs \<and> dropWhile P (xs @ ys) = dropWhile P xs @ ys"
proof (induction xs)
  case Nil
  then show ?case by (cases ys) simp_all
qed simp

lemma descend_split:
  "splits_at lt x (inorder t) \<Longrightarrow>
    nodes_before (rb_descend lt x t p) = nodes_before p @ takeWhile (\<lambda>y. \<not> lt x y) (inorder t) \<and>
    nodes_after (rb_descend lt x t p) = dropWhile (\<lambda>y. \<not> lt x y) (inorder t) @ nodes_after p"
proof (induction t arbitrary: p)
  case (Node l c y r)
  note sp = Node.prems [unfolded inorder.simps splits_at_append]
  show ?case
  proof (cases "lt x y")
    case True
    with sp have "\<forall>z\<in>set (y # inorder r). \<not> \<not> lt x z" by simp
    from takeWhile_none [OF this, of "inorder l"] Node.IH(1) [OF sp [THEN conjunct1], of "In_left c y r # p"] True
    show ?thesis by (simp del: takeWhile_append dropWhile_append)
  next
    case False
    with sp have "\<forall>z\<in>set (inorder l). \<not> lt x z" by simp
    from takeWhile_all [OF this, of "y # inorder r"] Node.IH(2) [OF sp [THEN conjunct2, THEN conjunct1], of "In_right l c y # p"] False
    show ?thesis by simp
  qed
qed simp

lemma inorder_insert:
  assumes "splits_at lt x (inorder t)"
  shows "inorder (ngx_rbtree_insert lt x t) =
    takeWhile (\<lambda>y. \<not> lt x y) (inorder t) @ x # dropWhile (\<lambda>y. \<not> lt x y) (inorder t)"
proof (cases "t = Sentinel")
  case False
  have "nodes_before (rb_descend lt x t []) = takeWhile (\<lambda>y. \<not> lt x y) (inorder t)"
    "nodes_after (rb_descend lt x t []) = dropWhile (\<lambda>y. \<not> lt x y) (inorder t)"
    using descend_split [OF assms, of "[]"] by simp_all
  with False show ?thesis by (simp add: ngx_rbtree_insert_def inorder_insert_fixup)
qed (simp add: ngx_rbtree_insert_def)

section \<open>Deletion\<close>

lemma inorder_sibling_right: "sibling_right t pc px w = r \<Longrightarrow> (case r of Inl s \<Rightarrow> inorder s | Inr s \<Rightarrow> inorder s) = inorder t @ px # inorder w"
  by (cases w) (auto split: if_splits rbtree.splits)

lemma inorder_sibling_left: "sibling_left w pc px t = r \<Longrightarrow> (case r of Inl s \<Rightarrow> inorder s | Inr s \<Rightarrow> inorder s) = inorder w @ px # inorder t"
  by (cases w) (auto split: if_splits rbtree.splits)

lemma delete_fixup_side:
  assumes "rb_color t \<noteq> RB_RED"
  shows "delete_fixup t (In_left pc px w # rest) =
      (case w of
         Node wl RB_RED wx wr \<Rightarrow>
           (case sibling_right t RB_RED px wl of
              Inl s \<Rightarrow> delete_fixup s (In_left RB_BLACK wx wr # rest)
            | Inr s \<Rightarrow> rb_paint RB_BLACK (rebuild s (In_left RB_BLACK wx wr # rest)))
       | _ \<Rightarrow> (case sibling_right t pc px w of
              Inl s \<Rightarrow> delete_fixup s rest
            | Inr s \<Rightarrow> rb_paint RB_BLACK (rebuild s rest)))"
    and "delete_fixup t (In_right w pc px # rest) =
      (case w of
         Node wl RB_RED wx wr \<Rightarrow>
           (case sibling_left wr RB_RED px t of
              Inl s \<Rightarrow> delete_fixup s (In_right wl RB_BLACK wx # rest)
            | Inr s \<Rightarrow> rb_paint RB_BLACK (rebuild s (In_right wl RB_BLACK wx # rest)))
       | _ \<Rightarrow> (case sibling_left w pc px t of
              Inl s \<Rightarrow> delete_fixup s rest
            | Inr s \<Rightarrow> rb_paint RB_BLACK (rebuild s rest)))"
  using assms
  by (subst delete_fixup.simps; simp split: rbtree.split color.split)+

lemma inorder_delete_fixup: "inorder (delete_fixup t p) = nodes_before p @ inorder t @ nodes_after p"
proof (induction t p rule: delete_fixup.induct)
  case (1 t path)
  show ?case
  proof (cases "path = [] \<or> rb_color t = RB_RED")
    case True
    then show ?thesis by (simp add: delete_fixup.simps [of t path])
  next
    case False
    then obtain f rest where p: "path = f # rest" by (cases path) auto
    have nr: "rb_color t \<noteq> RB_RED" using False by simp
    show ?thesis
    proof (cases f)
      case (In_left pc px w)
      note ih = 1(1-3) [OF False, of f rest pc px w, unfolded p In_left list.sel, OF refl refl]
      show ?thesis
      proof (cases w)
        case Sentinel
        then show ?thesis by (simp add: p In_left delete_fixup_side [OF nr])
      next
        case (Node wl c wx wr)
        with ih(2,3) inorder_sibling_right [of t pc px w] inorder_sibling_right [of t RB_RED px wl] show ?thesis
          by (cases c; cases "sibling_right t pc px w"; cases "sibling_right t RB_RED px wl")
            (simp_all add: p In_left delete_fixup_side [OF nr])
      qed
    next
      case (In_right w pc px)
      note ih = 1(4-6) [OF False, of f rest w pc px, unfolded p In_right list.sel, OF refl refl]
      show ?thesis
      proof (cases w)
        case Sentinel
        then show ?thesis by (simp add: p In_right delete_fixup_side [OF nr])
      next
        case (Node wl c wx wr)
        with ih(2,3) inorder_sibling_left [of w pc px t] inorder_sibling_left [of wr RB_RED px t] show ?thesis
          by (cases c; cases "sibling_left w pc px t"; cases "sibling_left wr RB_RED px t")
            (simp_all add: p In_right delete_fixup_side [OF nr])
      qed
    qed
  qed
qed

lemma rb_locate_None: "rb_locate x t p = None \<longleftrightarrow> x \<notin> set_rbtree t"
proof (induction t arbitrary: p)
  case (Node l c y r)
  show ?case
    using Node.IH(1) [of "In_left c y r # p"] Node.IH(2) [of "In_right l c y # p"]
    by (cases "rb_locate x l (In_left c y r # p)") auto
qed simp

lemma rb_locate_Some:
  "rb_locate x t p = Some (l, c, r, q) \<Longrightarrow>
    nodes_before q @ (inorder l @ x # inorder r) @ nodes_after q = nodes_before p @ inorder t @ nodes_after p"
proof (induction t arbitrary: p)
  case (Node tl d y tr)
  show ?case
  proof (cases "x = y")
    case False
    with Node.prems consider "rb_locate x tl (In_left d y tr # p) = Some (l, c, r, q)"
      | "rb_locate x tr (In_right tl d y # p) = Some (l, c, r, q)"
      by (auto split: option.splits)
    then show ?thesis by cases (auto dest!: Node.IH)
  qed (use Node.prems in simp)
qed simp

lemma rb_min_path_nodes:
  "rb_min_path l c x r p = (red, y, temp, q) \<Longrightarrow>
    nodes_before q = nodes_before p \<and> y # inorder temp @ nodes_after q = inorder l @ x # inorder r @ nodes_after p"
  by (induction l c x r p rule: rb_min_path.induct) auto

lemma inorder_delete:
  assumes "x \<in> set_rbtree t"
  obtains us vs where "inorder t = us @ x # vs" "inorder (ngx_rbtree_delete x t) = us @ vs"
proof -
  from assms obtain l c r path where loc: "rb_locate x t [] = Some (l, c, r, path)"
    by (metis rb_locate_None option.exhaust prod_cases4)
  have t: "inorder t = (nodes_before path @ inorder l) @ x # inorder r @ nodes_after path"
    using rb_locate_Some [OF loc] by simp
  have "inorder (ngx_rbtree_delete x t) = (nodes_before path @ inorder l) @ inorder r @ nodes_after path"
  proof (cases "l = Sentinel \<or> r = Sentinel")
    case True
    then show ?thesis
      by (cases "path = []") (auto simp: ngx_rbtree_delete_def loc inorder_delete_fixup Let_def)
  next
    case False
    then obtain rl rc ry rr where r: "r = Node rl rc ry rr" by (cases r) auto
    obtain red y temp down where m: "rb_min_path rl rc ry rr [] = (red, y, temp, down)"
      by (metis prod_cases4)
    from rb_min_path_nodes [OF m] False show ?thesis
      by (simp add: ngx_rbtree_delete_def loc r m inorder_delete_fixup)
  qed
  from that [OF t this] show thesis .
qed

lemma ngx_rbtree_min_hd: "ngx_rbtree_min t = (case inorder t of [] \<Rightarrow> None | y # ys \<Rightarrow> Some y)"
proof (induction t rule: ngx_rbtree_min.induct)
  case (3 ll lc lx lr c x r)
  obtain y ys where "inorder (Node ll lc lx lr) = y # ys" by (cases "inorder ll") auto
  with 3 show ?case by (metis append_Cons inorder.simps(2) list.simps(5) ngx_rbtree_min.simps(3))
qed simp_all

lemma ngx_rbtree_min_Some: "t \<noteq> Sentinel \<Longrightarrow> \<exists>x. ngx_rbtree_min t = Some x \<and> x \<in> set_rbtree t"
  by (cases "inorder t")
    (auto simp: ngx_rbtree_min_hd simp flip: set_inorder, cases t, auto)

lemma inorder_map [simp]: "inorder (map_rbtree f t) = map f (inorder t)"
  by (induction t) simp_all

section \<open>The map interface\<close>

text \<open>
  What a store assumes of its tree: \<open>lt\<close> is the insert callback's order, \<open>key\<close> what a node is found by,
  \<open>klt\<close> a linear order of keys, and \<open>lookup\<close> the store's own walk.
\<close>

locale ordered_tree =
  fixes lt :: "'a \<Rightarrow> 'a \<Rightarrow> bool" and key :: "'a \<Rightarrow> 'k" and klt :: "'k \<Rightarrow> 'k \<Rightarrow> bool"
    and lookup :: "'k \<Rightarrow> 'a rbtree \<Rightarrow> 'a option"
  assumes lt_key: "lt x y \<longleftrightarrow> klt (key x) (key y)"
    and klt_irrefl: "\<not> klt k k"
    and klt_trans: "klt i j \<Longrightarrow> klt j k \<Longrightarrow> klt i k"
    and klt_total: "klt j k \<or> j = k \<or> klt k j"
    and lookup_Sentinel: "lookup k Sentinel = None"
    and lookup_Node: "lookup k (Node l c x r) = (if key x = k then Some x else if klt k (key x) then lookup k l else lookup k r)"
begin

definition search_tree :: "'a rbtree \<Rightarrow> bool" where
  "search_tree t \<longleftrightarrow> sorted_wrt (\<lambda>x y. klt (key x) (key y)) (inorder t)"

lemma search_tree_Node:
  "search_tree (Node l c x r) \<longleftrightarrow> search_tree l \<and> search_tree r \<and> (\<forall>y\<in>set_rbtree l. klt (key y) (key x)) \<and>
    (\<forall>y\<in>set_rbtree r. klt (key x) (key y))"
  unfolding search_tree_def using klt_trans by (auto simp: sorted_wrt_append)

lemma lookup_Some: "search_tree t \<Longrightarrow> lookup k t = Some x \<longleftrightarrow> x \<in> set_rbtree t \<and> key x = k"
proof (induction t)
  case Sentinel
  then show ?case by (simp add: lookup_Sentinel)
next
  case (Node l c y r)
  then have *: "lookup k l = Some x \<longleftrightarrow> x \<in> set_rbtree l \<and> key x = k" "lookup k r = Some x \<longleftrightarrow> x \<in> set_rbtree r \<and> key x = k"
    "\<forall>y'\<in>set_rbtree l. klt (key y') (key y)" "\<forall>y'\<in>set_rbtree r. klt (key y) (key y')"
    unfolding search_tree_Node by blast+
  show ?case
  proof (cases "key y = k")
    case True
    have "x \<notin> set_rbtree l" "x \<notin> set_rbtree r" if "key x = k" "key y = k"
      using *(3,4) that klt_irrefl by metis+
    with True show ?thesis unfolding lookup_Node *(1,2) using klt_irrefl *(3,4) by auto
  next
    case False
    show ?thesis
    proof (cases "klt k (key y)")
      case True
      then have "key x = k \<Longrightarrow> x \<notin> set_rbtree r" using *(4) klt_irrefl klt_trans by metis
      with True False show ?thesis using *(1) unfolding lookup_Node by auto
    next
      case no: False
      with False klt_total have "klt (key y) k" by metis
      then have "key x = k \<Longrightarrow> x \<notin> set_rbtree l" using *(3) klt_irrefl klt_trans by metis
      with no False show ?thesis using *(2) unfolding lookup_Node by auto
    qed
  qed
qed

lemma lookup_None: "search_tree t \<Longrightarrow> lookup k t = None \<longleftrightarrow> (\<forall>x\<in>set_rbtree t. key x \<noteq> k)"
  using lookup_Some [of t k] by (metis not_None_eq)

lemma key_inj: "search_tree t \<Longrightarrow> x \<in> set_rbtree t \<Longrightarrow> y \<in> set_rbtree t \<Longrightarrow> key x = key y \<Longrightarrow> x = y"
  by (metis lookup_Some option.inject)

lemma search_tree_Sentinel [simp]: "search_tree Sentinel"
  by (simp add: search_tree_def)

lemma search_tree_distinct: "search_tree t \<Longrightarrow> distinct (inorder t)"
proof -
  have "sorted_wrt (\<lambda>x y. klt (key x) (key y)) xs \<Longrightarrow> distinct xs" for xs
    by (induction xs) (auto simp: klt_irrefl)
  then show "search_tree t \<Longrightarrow> distinct (inorder t)" unfolding search_tree_def by blast
qed

lemma insert_spec:
  assumes "search_tree t" and "\<forall>y\<in>set_rbtree t. key y \<noteq> key x"
  shows "search_tree (ngx_rbtree_insert lt x t)" and "set_rbtree (ngx_rbtree_insert lt x t) = insert x (set_rbtree t)"
proof -
  let ?P = "\<lambda>y. \<not> lt x y"
  have "splits_at lt x (inorder t)"
    using assms(1) klt_trans unfolding splits_at_def search_tree_def lt_key
    by (elim sorted_wrt_mono_rel [rotated]) blast
  note ins = inorder_insert [OF this]
  have so: "sorted_wrt (\<lambda>x y. klt (key x) (key y)) (takeWhile ?P (inorder t) @ dropWhile ?P (inorder t))"
    using assms(1) by (simp add: search_tree_def)
  have st: "sorted_wrt (\<lambda>x y. klt (key x) (key y)) (takeWhile ?P (inorder t))"
    "sorted_wrt (\<lambda>x y. klt (key x) (key y)) (dropWhile ?P (inorder t))"
    "\<forall>y\<in>set (takeWhile ?P (inorder t)). \<forall>z\<in>set (dropWhile ?P (inorder t)). klt (key y) (key z)"
    using so unfolding sorted_wrt_append by blast+
  have lo: "klt (key y) (key x)" if "y \<in> set (takeWhile ?P (inorder t))" for y
  proof -
    from set_takeWhileD [OF that] have "y \<in> set_rbtree t" "\<not> klt (key x) (key y)" by (simp_all add: lt_key)
    with assms(2) klt_total [of "key x" "key y"] show ?thesis by auto
  qed
  have hi: "klt (key x) (key y)" if "y \<in> set (dropWhile ?P (inorder t))" for y
  proof (cases "dropWhile ?P (inorder t)")
    case (Cons z zs)
    then have "klt (key x) (key z)" using hd_dropWhile [of ?P "inorder t"] unfolding lt_key by simp
    with that st(2) Cons klt_trans show ?thesis by auto
  next
    case Nil
    with that show ?thesis by (simp only: list.set empty_iff)
  qed
  show "search_tree (ngx_rbtree_insert lt x t)"
    unfolding search_tree_def ins sorted_wrt_append sorted_wrt.simps using st lo hi by auto
  have "set_rbtree (ngx_rbtree_insert lt x t) = insert x (set (takeWhile ?P (inorder t) @ dropWhile ?P (inorder t)))"
    unfolding set_inorder [symmetric, of "ngx_rbtree_insert lt x t"] ins by (simp del: takeWhile_dropWhile_id)
  then show "set_rbtree (ngx_rbtree_insert lt x t) = insert x (set_rbtree t)" by simp
qed

lemma delete_spec:
  assumes "search_tree t" and "x \<in> set_rbtree t"
  shows "search_tree (ngx_rbtree_delete x t)" and "set_rbtree (ngx_rbtree_delete x t) = set_rbtree t - {x}"
proof -
  from inorder_delete [OF assms(2)] obtain us vs where
    io: "inorder t = us @ x # vs" "inorder (ngx_rbtree_delete x t) = us @ vs" .
  show "search_tree (ngx_rbtree_delete x t)"
    using assms(1) unfolding search_tree_def io by (auto simp: sorted_wrt_append)
  have "distinct (us @ x # vs)" using search_tree_distinct [OF assms(1)] io(1) by simp
  then show "set_rbtree (ngx_rbtree_delete x t) = set_rbtree t - {x}"
    unfolding set_inorder [symmetric] io by auto
qed

lemma write_spec:
  assumes "search_tree t" and "x \<in> set_rbtree t" and "key y = key x"
  shows "search_tree (rb_write x y t)" and "set_rbtree (rb_write x y t) = insert y (set_rbtree t - {x})"
proof -
  have k: "key (if z = x then y else z) = key z" for z using assms(3) by simp
  show "search_tree (rb_write x y t)"
    using assms(1) unfolding search_tree_def rb_write_def inorder_map sorted_wrt_map k .
  show "set_rbtree (rb_write x y t) = insert y (set_rbtree t - {x})"
    using assms(2) by (auto simp: rb_write_def rbtree.set_map)
qed

text \<open>The three operations on the map from keys to nodes.\<close>

lemma lookup_insert:
  assumes "search_tree t" and "lookup (key x) t = None"
  shows "lookup k (ngx_rbtree_insert lt x t) = (if k = key x then Some x else lookup k t)"
proof -
  from assms have "\<forall>y\<in>set_rbtree t. key y \<noteq> key x" by (simp add: lookup_None)
  note sp = insert_spec [OF assms(1) this]
  have "lookup k (ngx_rbtree_insert lt x t) = Some y \<longleftrightarrow> (if k = key x then y = x else lookup k t = Some y)" for y
    using lookup_Some [OF sp(1)] lookup_Some [OF assms(1)] sp(2) \<open>\<forall>y\<in>set_rbtree t. key y \<noteq> key x\<close> by auto
  then show ?thesis by (metis option.exhaust)
qed

lemma lookup_delete:
  assumes "search_tree t" and "x \<in> set_rbtree t"
  shows "lookup k (ngx_rbtree_delete x t) = (if k = key x then None else lookup k t)"
proof -
  note sp = delete_spec [OF assms]
  have "lookup k (ngx_rbtree_delete x t) = Some y \<longleftrightarrow> k \<noteq> key x \<and> lookup k t = Some y" for y
    using lookup_Some [OF sp(1)] lookup_Some [OF assms(1)] sp(2) key_inj [OF assms(1) _ assms(2)] by auto
  then show ?thesis by (metis option.exhaust)
qed

lemma lookup_write:
  assumes "search_tree t" and "x \<in> set_rbtree t" and "key y = key x"
  shows "lookup k (rb_write x y t) = (if k = key x then Some y else lookup k t)"
proof -
  note sp = write_spec [OF assms]
  have "lookup k (rb_write x y t) = Some z \<longleftrightarrow> (if k = key x then z = y else lookup k t = Some z)" for z
    using lookup_Some [OF sp(1)] lookup_Some [OF assms(1)] sp(2) key_inj [OF assms(1) _ assms(2)] assms(3) by auto
  then show ?thesis by (metis option.exhaust)
qed

end

end
