(* ===== verification/Cache.thy ===== *)
theory Cache
  imports Zone
begin

text \<open>
  The shared-memory cache of fetched key directories (\<open>src/ngx_auth_httpsig_cache.h\<close>,
  \<open>src/ngx_auth_httpsig_cache.c\<close>): a tree of hosts with their last document, its expiry, and the right to
  fetch it, which one worker holds at a time.

  Every operation runs under the zone's mutex, so it is one function on the zone.  A document without a
  slab block (\<open>jwks.data == NULL\<close>) is the empty one, as in the code, which tests \<open>jwks.len\<close>.
  \<open>ngx_time()\<close> is an argument of the operations that read it.
\<close>

section \<open>Data\<close>

definition CACHE_FETCH_TIMEOUT :: int where "CACHE_FETCH_TIMEOUT = 30"

record cache_node =
  cn_key :: "32 word"
  cn_host :: bytes
  cn_jwks :: bytes
  cn_expires_at :: int
  cn_fetching_since :: int
  cn_forced_refetch_at :: int
  cn_generation :: nat
  cn_fetching :: bool

record cache_ctx =
  cc_rbtree :: "cache_node rbtree"
  cc_generation :: nat
  cc_shpool :: pool

datatype cache_status = CACHE_HIT | CACHE_CLAIMED | CACHE_BUSY | CACHE_NEGATIVE | CACHE_UNAVAILABLE

section \<open>The tree\<close>

text \<open>\<open>cache_rbtree_insert_value\<close>: whether \<open>node\<close> goes to the left of \<open>temp\<close>.\<close>

definition cache_insert_left :: "cache_node \<Rightarrow> cache_node \<Rightarrow> bool" where
  "cache_insert_left node temp =
     (if cn_key node < cn_key temp then True
      else if cn_key temp < cn_key node then False
      else ngx_memn2cmp (cn_host node) (cn_host temp) < 0)"

fun cache_find :: "32 word \<Rightarrow> bytes \<Rightarrow> cache_node rbtree \<Rightarrow> cache_node option" where
  "cache_find hash host Sentinel = None"
| "cache_find hash host (Node l c cn r) =
     (if hash \<noteq> cn_key cn then (if hash < cn_key cn then cache_find hash host l else cache_find hash host r)
      else
        let rc = ngx_memn2cmp host (cn_host cn) in
        if rc = 0 then Some cn
        else if rc < 0 then cache_find hash host l else cache_find hash host r)"

fun cache_find_victim :: "cache_node rbtree \<Rightarrow> int \<Rightarrow> cache_node option" where
  "cache_find_victim Sentinel now = None"
| "cache_find_victim (Node l c cn r) now =
     (case cache_find_victim l now of
        Some victim \<Rightarrow> Some victim
      | None \<Rightarrow>
          if \<not> cn_fetching cn \<and> cn_expires_at cn \<le> now then Some cn
          else cache_find_victim r now)"

section \<open>Operations\<close>

definition cache_new_node :: "bytes \<Rightarrow> 32 word \<Rightarrow> cache_node" where
  "cache_new_node host hash =
     \<lparr>cn_key = hash, cn_host = host, cn_jwks = [], cn_expires_at = 0, cn_fetching_since = 0,
      cn_forced_refetch_at = 0, cn_generation = 0, cn_fetching = False\<rparr>"

definition cache_link :: "bytes \<Rightarrow> 32 word \<Rightarrow> cache_ctx \<Rightarrow> cache_node option \<times> cache_ctx" where
  "cache_link host hash ctx =
     (let cn = cache_new_node host hash
      in (Some cn, ctx\<lparr>cc_rbtree := ngx_rbtree_insert cache_insert_left cn (cc_rbtree ctx)\<rparr>))"

definition cache_alloc_node :: "cache_ctx \<Rightarrow> bytes \<Rightarrow> 32 word \<Rightarrow> int \<Rightarrow> cache_node option \<times> cache_ctx" where
  "cache_alloc_node ctx host hash now =
     (case palloc (cc_shpool ctx) of
        (True, shpool) \<Rightarrow> cache_link host hash (ctx\<lparr>cc_shpool := shpool\<rparr>)
      | (False, shpool) \<Rightarrow>
          let ctx = ctx\<lparr>cc_shpool := shpool\<rparr> in
          (case cache_find_victim (cc_rbtree ctx) now of
             None \<Rightarrow> (None, ctx)
           | Some victim \<Rightarrow>
               let ctx = ctx\<lparr>cc_rbtree := ngx_rbtree_delete victim (cc_rbtree ctx)\<rparr> in
               (case palloc (cc_shpool ctx) of
                  (True, shpool) \<Rightarrow> cache_link host hash (ctx\<lparr>cc_shpool := shpool\<rparr>)
                | (False, shpool) \<Rightarrow> (None, ctx\<lparr>cc_shpool := shpool\<rparr>))))"

text \<open>Assignments to fields of the node \<open>cn\<close>.\<close>

definition cache_write :: "cache_node \<Rightarrow> cache_node \<Rightarrow> cache_ctx \<Rightarrow> cache_ctx" where
  "cache_write cn cn' ctx = ctx\<lparr>cc_rbtree := rb_write cn cn' (cc_rbtree ctx)\<rparr>"

text \<open>\<open>*jwks\<close> and \<open>*generation\<close>, or \<open>None\<close> when the request pool is exhausted.\<close>

definition cache_copy_jwks :: "pool \<Rightarrow> cache_node \<Rightarrow> (bytes \<times> nat) option \<times> pool" where
  "cache_copy_jwks pool cn =
     (case palloc pool of
        (False, pool) \<Rightarrow> (None, pool)
      | (True, pool) \<Rightarrow> (Some (cn_jwks cn, cn_generation cn), pool))"

text \<open>The return value with \<open>*status\<close>, \<open>*jwks\<close> and \<open>*generation\<close>.\<close>

record lookup_out =
  lk_rc :: "(unit, cache_status) rc"
  lk_jwks :: bytes
  lk_generation :: nat

definition cache_lookup :: "cache_ctx \<Rightarrow> pool \<Rightarrow> bytes \<Rightarrow> int \<Rightarrow> lookup_out \<times> cache_ctx \<times> pool" where
  "cache_lookup ctx pool host now =
     (let hash = ngx_crc32_short host;
          result = (\<lambda>status. \<lparr>lk_rc = NGX_OK status, lk_jwks = [], lk_generation = 0\<rparr>);
          error = \<lparr>lk_rc = NGX_ERROR, lk_jwks = [], lk_generation = 0\<rparr>;
          claim = (\<lambda>cn ctx. (result CACHE_CLAIMED,
                             cache_write cn (cn\<lparr>cn_fetching := True, cn_fetching_since := now\<rparr>) ctx, pool))
      in case cache_find hash host (cc_rbtree ctx) of
           Some cn \<Rightarrow>
             if now < cn_expires_at cn then
               (if 0 < length (cn_jwks cn) then
                  (case cache_copy_jwks pool cn of
                     (None, pool) \<Rightarrow> (error, ctx, pool)
                   | (Some (jwks, generation), pool) \<Rightarrow>
                       (\<lparr>lk_rc = NGX_OK CACHE_HIT, lk_jwks = jwks, lk_generation = generation\<rparr>, ctx, pool))
                else (result CACHE_NEGATIVE, ctx, pool))
             else if cn_fetching cn \<and> now - cn_fetching_since cn < CACHE_FETCH_TIMEOUT then
               (if 0 < length (cn_jwks cn) then
                  (case cache_copy_jwks pool cn of
                     (None, pool) \<Rightarrow> (error, ctx, pool)
                   | (Some (jwks, generation), pool) \<Rightarrow>
                       (\<lparr>lk_rc = NGX_OK CACHE_BUSY, lk_jwks = jwks, lk_generation = generation\<rparr>, ctx, pool))
                else (result CACHE_BUSY, ctx, pool))
             else claim cn ctx
         | None \<Rightarrow>
             (case cache_alloc_node ctx host hash now of
                (None, ctx) \<Rightarrow> (result CACHE_UNAVAILABLE, ctx, pool)
              | (Some cn, ctx) \<Rightarrow> claim cn ctx))"

text \<open>Whether the caller now holds the fetch right (\<open>NGX_OK\<close>) or not (\<open>NGX_DECLINED\<close>).\<close>

definition cache_claim_rotation_refetch :: "cache_ctx \<Rightarrow> bytes \<Rightarrow> int \<Rightarrow> int \<Rightarrow> bool \<times> cache_ctx" where
  "cache_claim_rotation_refetch ctx host now retry_ttl =
     (case cache_find (ngx_crc32_short host) host (cc_rbtree ctx) of
        None \<Rightarrow> (False, ctx)
      | Some cn \<Rightarrow>
          if cn_fetching cn then (False, ctx)
          else if cn_forced_refetch_at cn \<noteq> 0 \<and> now - cn_forced_refetch_at cn < retry_ttl then (False, ctx)
          else (True, cache_write cn (cn\<lparr>cn_fetching := True, cn_fetching_since := now, cn_forced_refetch_at := now\<rparr>) ctx))"

text \<open>What \<open>store\<close> does with the node it found or made: \<open>clock\<close> is \<open>ngx_time()\<close>, the result \<open>*generation\<close>.\<close>

definition cache_fill :: "cache_node \<Rightarrow> cache_ctx \<Rightarrow> bytes \<Rightarrow> int \<Rightarrow> int \<Rightarrow> int \<Rightarrow> nat \<times> cache_ctx" where
  "cache_fill cn ctx jwks expires_at retry_ttl clock =
     (case palloc (cc_shpool ctx) of
        (False, shpool) \<Rightarrow>
          (0, cache_write cn (cn\<lparr>cn_fetching := False, cn_expires_at := clock + retry_ttl\<rparr>) (ctx\<lparr>cc_shpool := shpool\<rparr>))
      | (True, shpool) \<Rightarrow>
          let generation = cc_generation ctx + 1 in
          (generation,
           cache_write cn
             (cn\<lparr>cn_jwks := jwks, cn_expires_at := expires_at, cn_fetching := False, cn_generation := generation\<rparr>)
             (ctx\<lparr>cc_shpool := shpool, cc_generation := generation\<rparr>)))"

definition cache_store :: "cache_ctx \<Rightarrow> bytes \<Rightarrow> bytes \<Rightarrow> int \<Rightarrow> int \<Rightarrow> int \<Rightarrow> nat \<times> cache_ctx" where
  "cache_store ctx host jwks expires_at retry_ttl clock =
     (let hash = ngx_crc32_short host
      in case cache_find hash host (cc_rbtree ctx) of
           Some cn \<Rightarrow> cache_fill cn ctx jwks expires_at retry_ttl clock
         | None \<Rightarrow>
             (case cache_alloc_node ctx host hash clock of
                (None, ctx) \<Rightarrow> (0, ctx)
              | (Some cn, ctx) \<Rightarrow> cache_fill cn ctx jwks expires_at retry_ttl clock))"

definition cache_release :: "cache_ctx \<Rightarrow> bytes \<Rightarrow> int \<Rightarrow> cache_ctx" where
  "cache_release ctx host retry_at =
     (case cache_find (ngx_crc32_short host) host (cc_rbtree ctx) of
        None \<Rightarrow> ctx
      | Some cn \<Rightarrow> cache_write cn (cn\<lparr>cn_fetching := False, cn_expires_at := retry_at\<rparr>) ctx)"

text \<open>
  \<open>init_zone\<close>: on reload the previous cycle's zone, else the one already in the segment, else a new one,
  which takes two slab blocks.
\<close>

definition cache_init_zone :: "cache_ctx option \<Rightarrow> cache_ctx option \<Rightarrow> pool \<Rightarrow> cache_ctx option" where
  "cache_init_zone octx existing shpool =
     (case octx of
        Some ctx \<Rightarrow> Some ctx
      | None \<Rightarrow>
          (case existing of
             Some ctx \<Rightarrow> Some ctx
           | None \<Rightarrow>
               (case palloc shpool of
                  (False, shpool) \<Rightarrow> None
                | (True, shpool) \<Rightarrow>
                    (case palloc shpool of
                       (False, shpool) \<Rightarrow> None
                     | (True, shpool) \<Rightarrow>
                         Some \<lparr>cc_rbtree = Sentinel, cc_generation = 0, cc_shpool = shpool\<rparr>))))"

end
