(* ===== verification/Cache_Props.thy ===== *)
theory Cache_Props
  imports Cache
begin

text \<open>
  The shared cache of key directories against its contract.  \<open>zone_step\<close> is the specification, a step
  relation on a map from hosts to entries and a generation counter; every operation of \<open>Cache\<close> refines
  it, and the promises to the workers (one fetch right per host, documents kept across failures,
  generations that name one document for ever) are proved on the specification.
\<close>

section \<open>The tree as a map\<close>

definition cache_node_key :: "cache_node \<Rightarrow> zone_key" where
  "cache_node_key cn = (cn_key cn, cn_host cn)"

lemma cache_find_Node:
  "cache_find (fst k) (snd k) (Node l c cn r) =
     (if cache_node_key cn = k then Some cn
      else if zone_lt k (cache_node_key cn) then cache_find (fst k) (snd k) l else cache_find (fst k) (snd k) r)"
  by (cases k) (auto simp: cache_node_key_def Let_def not_less antisym_conv)

interpretation cache_tree: ordered_tree cache_insert_left cache_node_key zone_lt "\<lambda>k. cache_find (fst k) (snd k)"
proof unfold_locales
  show "cache_insert_left x y = zone_lt (cache_node_key x) (cache_node_key y)" for x y
    by (simp add: cache_insert_left_def cache_node_key_def)
  show "cache_find (fst k) (snd k) Sentinel = None" for k by simp
  show "cache_find (fst k) (snd k) (Node l c cn r) =
     (if cache_node_key cn = k then Some cn
      else if zone_lt k (cache_node_key cn) then cache_find (fst k) (snd k) l else cache_find (fst k) (snd k) r)" for k l c cn r
    by (rule cache_find_Node)
qed (rule zone_order; assumption?)+

definition cache_map :: "cache_ctx \<Rightarrow> bytes \<Rightarrow> cache_node option" where
  "cache_map ctx host = cache_find (ngx_crc32_short host) host (cc_rbtree ctx)"

definition cache_inv :: "cache_ctx \<Rightarrow> bool" where
  "cache_inv ctx \<longleftrightarrow> cache_tree.search_tree (cc_rbtree ctx) \<and>
     (\<forall>cn\<in>set_rbtree (cc_rbtree ctx). cn_key cn = ngx_crc32_short (cn_host cn))"

lemma cache_map_hashed: "cache_map ctx host = cache_find (fst (hashed host)) (snd (hashed host)) (cc_rbtree ctx)"
  by (simp add: cache_map_def hashed_def)

lemma cache_inv_key: "cache_inv ctx \<Longrightarrow> cn \<in> set_rbtree (cc_rbtree ctx) \<Longrightarrow> cache_node_key cn = hashed (cn_host cn)"
  by (simp add: cache_inv_def cache_node_key_def hashed_def)

lemma cache_map_Some:
  assumes "cache_inv ctx"
  shows "cache_map ctx host = Some cn \<longleftrightarrow> cn \<in> set_rbtree (cc_rbtree ctx) \<and> cn_host cn = host"
  using cache_tree.lookup_Some [of "cc_rbtree ctx" "hashed host" cn] cache_inv_key [OF assms, of cn] assms
  by (auto simp: cache_map_hashed cache_inv_def)

lemma cache_map_host: "cache_inv ctx \<Longrightarrow> cache_map ctx host = Some cn \<Longrightarrow> cn_host cn = host"
  by (simp add: cache_map_Some)

lemma cache_map_shpool [simp]:
  "cache_map (ctx\<lparr>cc_shpool := p\<rparr>) = cache_map ctx" "cache_inv (ctx\<lparr>cc_shpool := p\<rparr>) = cache_inv ctx"
  "cache_map (ctx\<lparr>cc_generation := g\<rparr>) = cache_map ctx" "cache_inv (ctx\<lparr>cc_generation := g\<rparr>) = cache_inv ctx"
  by (simp_all add: cache_map_def fun_eq_iff cache_inv_def)

lemma cache_write_spec:
  assumes "cache_inv ctx" and "cache_map ctx host = Some cn" and "cn_key cn' = cn_key cn" and "cn_host cn' = cn_host cn"
  shows "cache_inv (cache_write cn cn' ctx)" and "cache_map (cache_write cn cn' ctx) = (cache_map ctx)(host \<mapsto> cn')"
    and "cc_generation (cache_write cn cn' ctx) = cc_generation ctx"
proof -
  have st: "cache_tree.search_tree (cc_rbtree ctx)" using assms(1) by (simp add: cache_inv_def)
  have cn: "cn \<in> set_rbtree (cc_rbtree ctx)" "cn_host cn = host" using assms(1,2) by (simp_all add: cache_map_Some)
  have key: "cache_node_key cn' = cache_node_key cn" using assms(3,4) by (simp add: cache_node_key_def)
  have kh: "cache_node_key cn = hashed host" using cache_inv_key [OF assms(1) cn(1)] cn(2) by simp
  show "cache_inv (cache_write cn cn' ctx)"
    using cache_tree.write_spec [OF st cn(1) key] assms(1,3,4) cn(1) by (auto simp: cache_inv_def cache_write_def)
  show "cache_map (cache_write cn cn' ctx) = (cache_map ctx)(host \<mapsto> cn')"
    using cache_tree.lookup_write [OF st cn(1) key, of "hashed h" for h] kh
    by (auto simp: fun_eq_iff cache_map_hashed cache_write_def)
qed (simp add: cache_write_def)

lemma cache_link_spec:
  assumes "cache_inv ctx" and "cache_map ctx host = None" and "cache_link host (ngx_crc32_short host) ctx = (r, ctx')"
  shows "r = Some (cache_new_node host (ngx_crc32_short host))" and "cache_inv ctx'"
    and "cache_map ctx' = (cache_map ctx)(host \<mapsto> cache_new_node host (ngx_crc32_short host))"
    and "cc_generation ctx' = cc_generation ctx"
proof -
  let ?cn = "cache_new_node host (ngx_crc32_short host)"
  have key: "cache_node_key ?cn = hashed host" by (simp add: cache_new_node_def cache_node_key_def hashed_def)
  have st: "cache_tree.search_tree (cc_rbtree ctx)" using assms(1) by (simp add: cache_inv_def)
  have none: "cache_find (fst (cache_node_key ?cn)) (snd (cache_node_key ?cn)) (cc_rbtree ctx) = None"
    using assms(2) by (simp add: key cache_map_hashed)
  have fresh: "\<forall>y\<in>set_rbtree (cc_rbtree ctx). cache_node_key y \<noteq> cache_node_key ?cn"
    using none cache_tree.lookup_None [OF st, of "cache_node_key ?cn"] by simp
  show "r = Some ?cn" "cc_generation ctx' = cc_generation ctx"
    using assms(3) by (auto simp: cache_link_def Let_def)
  show "cache_inv ctx'"
    using assms(1,3) cache_tree.insert_spec [OF st fresh] by (auto simp: cache_link_def Let_def cache_inv_def cache_new_node_def)
  show "cache_map ctx' = (cache_map ctx)(host \<mapsto> ?cn)"
    using assms(3) cache_tree.lookup_insert [OF st none, of "hashed h" for h]
    by (auto simp: cache_link_def Let_def fun_eq_iff cache_map_hashed key)
qed

lemma find_victim_Some:
  "cache_find_victim t now = Some v \<Longrightarrow> v \<in> set_rbtree t \<and> \<not> cn_fetching v \<and> cn_expires_at v \<le> now"
  by (induction t now rule: cache_find_victim.induct) (auto split: option.splits if_splits)

lemma find_victim_None:
  "cache_find_victim t now = None \<longleftrightarrow> (\<forall>v\<in>set_rbtree t. cn_fetching v \<or> now < cn_expires_at v)"
  by (induction t now rule: cache_find_victim.induct) (auto split: option.splits if_splits)

section \<open>The specification\<close>

text \<open>At most one entry leaves, and only one that is expired and not being fetched.\<close>

definition evicts :: "int \<Rightarrow> (bytes \<rightharpoonup> cache_node) \<Rightarrow> (bytes \<rightharpoonup> cache_node) \<Rightarrow> bool" where
  "evicts now m m' \<longleftrightarrow> m' = m \<or>
     (\<exists>v n. m v = Some n \<and> \<not> cn_fetching n \<and> cn_expires_at n \<le> now \<and> m' = m(v := None))"

text \<open>The eviction of a victim.\<close>

lemma evict_spec:
  assumes "cache_inv ctx" and "cache_find_victim (cc_rbtree ctx) now = Some v"
    and "c = ctx\<lparr>cc_shpool := p, cc_rbtree := ngx_rbtree_delete v (cc_rbtree ctx)\<rparr>"
  shows "cache_inv c" "cache_map c = (cache_map ctx)(cn_host v := None)" "evicts now (cache_map ctx) (cache_map c)"
proof -
  have st: "cache_tree.search_tree (cc_rbtree ctx)" using assms(1) by (simp add: cache_inv_def)
  from find_victim_Some [OF assms(2)] have v: "v \<in> set_rbtree (cc_rbtree ctx)" "\<not> cn_fetching v" "cn_expires_at v \<le> now" by simp_all
  show "cache_inv c" using assms(1,3) cache_tree.delete_spec [OF st v(1)] by (auto simp: cache_inv_def)
  show m: "cache_map c = (cache_map ctx)(cn_host v := None)"
    using cache_tree.lookup_delete [OF st v(1), of "hashed h" for h] cache_inv_key [OF assms(1) v(1)]
    by (auto simp: fun_eq_iff cache_map_hashed assms(3))
  show "evicts now (cache_map ctx) (cache_map c)"
    using v cache_map_Some [OF assms(1), of "cn_host v" v] unfolding m evicts_def by blast
qed

lemma cache_alloc_spec:
  assumes "cache_inv ctx" and "cache_map ctx host = None"
    and "cache_alloc_node ctx host (ngx_crc32_short host) now = (r, ctx')"
  obtains m where "cache_inv ctx'" "cc_generation ctx' = cc_generation ctx" "evicts now (cache_map ctx) m"
    "r = None \<and> cache_map ctx' = m \<or>
     r = Some (cache_new_node host (ngx_crc32_short host)) \<and> cache_map ctx' = m(host \<mapsto> cache_new_node host (ngx_crc32_short host))"
proof -
  obtain ok p where p: "palloc (cc_shpool ctx) = (ok, p)" by fastforce
  have ev: "evicts now (cache_map ctx) (cache_map ctx)" by (simp add: evicts_def)
  show thesis
  proof (cases ok)
    case True
    with assms(3) p have "cache_link host (ngx_crc32_short host) (ctx\<lparr>cc_shpool := p\<rparr>) = (r, ctx')"
      by (simp add: cache_alloc_node_def)
    with assms(1,2) cache_link_spec [of "ctx\<lparr>cc_shpool := p\<rparr>" host r ctx'] that [OF _ _ ev] show thesis by simp
  next
    case False
    show thesis
    proof (cases "cache_find_victim (cc_rbtree ctx) now")
      case None
      with False assms p that [OF _ _ ev] show thesis by (auto simp: cache_alloc_node_def Let_def)
    next
      case (Some v)
      let ?c = "ctx\<lparr>cc_shpool := p, cc_rbtree := ngx_rbtree_delete v (cc_rbtree ctx)\<rparr>"
      note inv = evict_spec(1) [OF assms(1) Some refl, of p] and m = evict_spec(2) [OF assms(1) Some refl, of p]
        and ev = evict_spec(3) [OF assms(1) Some refl, of p]
      obtain ok' p' where p': "palloc p = (ok', p')" by fastforce
      show thesis
      proof (cases ok')
        case True
        with assms(3) p p' False Some have link: "cache_link host (ngx_crc32_short host) (?c\<lparr>cc_shpool := p'\<rparr>) = (r, ctx')"
          by (simp add: cache_alloc_node_def Let_def)
        have "cache_inv (?c\<lparr>cc_shpool := p'\<rparr>)" "cache_map (?c\<lparr>cc_shpool := p'\<rparr>) host = None"
          using inv m assms(2) by (auto simp only: cache_map_shpool fun_upd_apply split: if_split)
        note l = cache_link_spec [OF this link]
        have "cache_map ctx' = (cache_map ?c)(host \<mapsto> cache_new_node host (ngx_crc32_short host))"
          using l(3) by (simp only: cache_map_shpool)
        moreover have "cc_generation ctx' = cc_generation ctx" using l(4) by simp
        ultimately show thesis using that [OF l(2) _ ev] l(1) by blast
      next
        case no: False
        with assms(3) p p' False Some have r: "r = None" "ctx' = ?c\<lparr>cc_shpool := p'\<rparr>"
          by (auto simp: cache_alloc_node_def Let_def)
        have "cache_inv ctx'" "cache_map ctx' = cache_map ?c" unfolding r(2) cache_map_shpool by (rule inv refl)+
        moreover have "cc_generation ctx' = cc_generation ctx" by (simp add: r(2))
        ultimately show thesis using that [OF _ _ ev] r(1) by blast
      qed
    qed
  qed
qed

text \<open>What a worker asks of the zone, and what it is told.\<close>

datatype cache_event =
    Lookup_for pool bytes int
  | Claim_rotation bytes int int
  | Store_for bytes bytes int int int
  | Release_for bytes int

datatype cache_reply = Looked lookup_out | Claimed_rotation bool | Stored nat | Released

fun cache_step :: "cache_event \<Rightarrow> cache_ctx \<Rightarrow> cache_reply \<times> cache_ctx" where
  "cache_step (Lookup_for pool host now) ctx = (case cache_lookup ctx pool host now of (out, ctx, pool) \<Rightarrow> (Looked out, ctx))"
| "cache_step (Claim_rotation host now retry_ttl) ctx =
     (case cache_claim_rotation_refetch ctx host now retry_ttl of (ok, ctx) \<Rightarrow> (Claimed_rotation ok, ctx))"
| "cache_step (Store_for host jwks expires_at retry_ttl clock) ctx =
     (case cache_store ctx host jwks expires_at retry_ttl clock of (generation, ctx) \<Rightarrow> (Stored generation, ctx))"
| "cache_step (Release_for host retry_at) ctx = (Released, cache_release ctx host retry_at)"

fun cache_run :: "cache_event list \<Rightarrow> cache_ctx \<Rightarrow> cache_reply list \<times> cache_ctx" where
  "cache_run [] ctx = ([], ctx)"
| "cache_run (e # es) ctx =
     (case cache_step e ctx of (r, ctx) \<Rightarrow> (case cache_run es ctx of (rs, ctx) \<Rightarrow> (r # rs, ctx)))"

definition answer :: "cache_status \<Rightarrow> bytes \<Rightarrow> nat \<Rightarrow> cache_reply" where
  "answer status jwks generation = Looked \<lparr>lk_rc = NGX_OK status, lk_jwks = jwks, lk_generation = generation\<rparr>"

text \<open>Another worker's fetch right is respected for \<open>CACHE_FETCH_TIMEOUT\<close> seconds.\<close>

definition in_flight :: "int \<Rightarrow> cache_node \<Rightarrow> bool" where
  "in_flight now n \<longleftrightarrow> cn_fetching n \<and> now - cn_fetching_since n < CACHE_FETCH_TIMEOUT"

definition new_entry :: "bytes \<Rightarrow> cache_node" where
  "new_entry host = cache_new_node host (ngx_crc32_short host)"

definition claimed :: "int \<Rightarrow> cache_node \<Rightarrow> cache_node" where
  "claimed now n = n\<lparr>cn_fetching := True, cn_fetching_since := now\<rparr>"

type_synonym zone = "(bytes \<rightharpoonup> cache_node) \<times> nat"

inductive zone_step :: "zone \<Rightarrow> cache_event \<Rightarrow> cache_reply \<Rightarrow> zone \<Rightarrow> bool" where
  hit: "m h = Some n \<Longrightarrow> now < cn_expires_at n \<Longrightarrow> cn_jwks n \<noteq> [] \<Longrightarrow>
    zone_step (m, g) (Lookup_for pool h now) (answer CACHE_HIT (cn_jwks n) (cn_generation n)) (m, g)"
| negative: "m h = Some n \<Longrightarrow> now < cn_expires_at n \<Longrightarrow> cn_jwks n = [] \<Longrightarrow>
    zone_step (m, g) (Lookup_for pool h now) (answer CACHE_NEGATIVE [] 0) (m, g)"
| busy: "m h = Some n \<Longrightarrow> cn_expires_at n \<le> now \<Longrightarrow> in_flight now n \<Longrightarrow>
    zone_step (m, g) (Lookup_for pool h now)
      (answer CACHE_BUSY (cn_jwks n) (if cn_jwks n = [] then 0 else cn_generation n)) (m, g)"
| exhausted: "m h = Some n \<Longrightarrow> cn_jwks n \<noteq> [] \<Longrightarrow> now < cn_expires_at n \<or> in_flight now n \<Longrightarrow> pool \<noteq> [] \<Longrightarrow>
    zone_step (m, g) (Lookup_for pool h now) (Looked \<lparr>lk_rc = NGX_ERROR, lk_jwks = [], lk_generation = 0\<rparr>) (m, g)"
| claim: "m h = Some n \<Longrightarrow> cn_expires_at n \<le> now \<Longrightarrow> \<not> in_flight now n \<Longrightarrow>
    zone_step (m, g) (Lookup_for pool h now) (answer CACHE_CLAIMED [] 0) (m(h \<mapsto> claimed now n), g)"
| claim_new: "m h = None \<Longrightarrow> evicts now m m' \<Longrightarrow>
    zone_step (m, g) (Lookup_for pool h now) (answer CACHE_CLAIMED [] 0) (m'(h \<mapsto> claimed now (new_entry h)), g)"
| unavailable: "m h = None \<Longrightarrow> evicts now m m' \<Longrightarrow>
    zone_step (m, g) (Lookup_for pool h now) (answer CACHE_UNAVAILABLE [] 0) (m', g)"
| rotate: "m h = Some n \<Longrightarrow> \<not> cn_fetching n \<Longrightarrow> cn_forced_refetch_at n = 0 \<or> retry_ttl \<le> now - cn_forced_refetch_at n \<Longrightarrow>
    zone_step (m, g) (Claim_rotation h now retry_ttl) (Claimed_rotation True)
      (m(h \<mapsto> (claimed now n)\<lparr>cn_forced_refetch_at := now\<rparr>), g)"
| no_rotate: "(\<forall>n. m h = Some n \<longrightarrow> cn_fetching n \<or> cn_forced_refetch_at n \<noteq> 0 \<and> now - cn_forced_refetch_at n < retry_ttl) \<Longrightarrow>
    zone_step (m, g) (Claim_rotation h now retry_ttl) (Claimed_rotation False) (m, g)"
| store: "m h = Some n \<and> m' = m \<or> m h = None \<and> n = new_entry h \<and> evicts clock m m' \<Longrightarrow>
    zone_step (m, g) (Store_for h jwks expires_at retry_ttl clock) (Stored (g + 1))
      (m'(h \<mapsto> n\<lparr>cn_jwks := jwks, cn_expires_at := expires_at, cn_fetching := False, cn_generation := g + 1\<rparr>), g + 1)"
| store_backoff: "m h = Some n \<and> m' = m \<or> m h = None \<and> n = new_entry h \<and> evicts clock m m' \<Longrightarrow>
    zone_step (m, g) (Store_for h jwks expires_at retry_ttl clock) (Stored 0)
      (m'(h \<mapsto> n\<lparr>cn_fetching := False, cn_expires_at := clock + retry_ttl\<rparr>), g)"
| store_no_room: "m h = None \<Longrightarrow> evicts clock m m' \<Longrightarrow>
    zone_step (m, g) (Store_for h jwks expires_at retry_ttl clock) (Stored 0) (m', g)"
| release: "m h = Some n \<Longrightarrow>
    zone_step (m, g) (Release_for h retry_at) Released (m(h \<mapsto> n\<lparr>cn_fetching := False, cn_expires_at := retry_at\<rparr>), g)"
| release_absent: "m h = None \<Longrightarrow> zone_step (m, g) (Release_for h retry_at) Released (m, g)"

inductive_cases lookup_stepE: "zone_step z (Lookup_for pool h now) r z'"
inductive_cases rotation_stepE: "zone_step z (Claim_rotation h now ttl) r z'"
inductive_cases store_stepE: "zone_step z (Store_for h jwks e ttl clock) r z'"
inductive_cases release_stepE: "zone_step z (Release_for h t) r z'"

definition zone_of :: "cache_ctx \<Rightarrow> zone" where
  "zone_of ctx = (cache_map ctx, cc_generation ctx)"

lemma cache_lookup_found:
  assumes "cache_map ctx h = Some n"
  shows "cache_lookup ctx pool h now =
    (if now < cn_expires_at n \<or> in_flight now n then
       (if cn_jwks n = [] then
          (\<lparr>lk_rc = NGX_OK (if now < cn_expires_at n then CACHE_NEGATIVE else CACHE_BUSY), lk_jwks = [], lk_generation = 0\<rparr>, ctx, pool)
        else case palloc pool of
          (False, pool) \<Rightarrow> (\<lparr>lk_rc = NGX_ERROR, lk_jwks = [], lk_generation = 0\<rparr>, ctx, pool)
        | (True, pool) \<Rightarrow>
            (\<lparr>lk_rc = NGX_OK (if now < cn_expires_at n then CACHE_HIT else CACHE_BUSY), lk_jwks = cn_jwks n,
              lk_generation = cn_generation n\<rparr>, ctx, pool))
     else (\<lparr>lk_rc = NGX_OK CACHE_CLAIMED, lk_jwks = [], lk_generation = 0\<rparr>, cache_write n (claimed now n) ctx, pool))"
proof -
  have "cache_find (ngx_crc32_short h) h (cc_rbtree ctx) = Some n" using assms by (simp add: cache_map_def)
  then show ?thesis
    by (cases "now < cn_expires_at n"; cases "palloc pool"; cases "fst (palloc pool)"; cases "cn_jwks n")
      (simp_all add: cache_lookup_def Let_def in_flight_def claimed_def cache_copy_jwks_def)
qed

text \<open>A host with an entry, and one without.\<close>

lemma lookup_known_refines:
  assumes "cache_inv ctx" and "cache_lookup ctx pool h now = (out, ctx', pool')" and Some: "cache_map ctx h = Some n"
  shows "cache_inv ctx' \<and> zone_step (zone_of ctx) (Lookup_for pool h now) (Looked out) (zone_of ctx')"
proof -
  obtain ok p where p: "palloc pool = (ok, p)" by fastforce
  note lk = assms(2) [unfolded cache_lookup_found [OF Some] p]
  show ?thesis
  proof (cases "now < cn_expires_at n \<or> in_flight now n")
    case True
    then have c: "ctx' = ctx" using lk by (auto split: if_splits bool.splits)
    have "zone_step (zone_of ctx) (Lookup_for pool h now) (Looked out) (zone_of ctx)"
    proof (cases "cn_jwks n \<noteq> [] \<and> \<not> ok")
      case bad: True
      with True lk have "out = \<lparr>lk_rc = NGX_ERROR, lk_jwks = [], lk_generation = 0\<rparr>" by auto
      with zone_step.exhausted [of "cache_map ctx" h n now pool, OF Some _ True] bad palloc_False [of pool p] p show ?thesis
        by (simp add: zone_of_def)
    next
      case False
      with True lk have out: "Looked out = answer (if cn_jwks n = [] then if now < cn_expires_at n then CACHE_NEGATIVE else CACHE_BUSY
          else if now < cn_expires_at n then CACHE_HIT else CACHE_BUSY) (cn_jwks n) (if cn_jwks n = [] then 0 else cn_generation n)"
        by (auto simp: answer_def split: bool.splits)
      show ?thesis
        using zone_step.hit [of "cache_map ctx" h n now "cc_generation ctx" pool, OF Some]
          zone_step.negative [of "cache_map ctx" h n now "cc_generation ctx" pool, OF Some]
          zone_step.busy [of "cache_map ctx" h n now "cc_generation ctx" pool, OF Some] True
        unfolding out zone_of_def by (cases "now < cn_expires_at n"; cases "cn_jwks n") auto
    qed
    with c assms(1) show ?thesis by simp
  next
    case False
    have w: "cn_key (claimed now n) = cn_key n" "cn_host (claimed now n) = cn_host n" by (simp_all add: claimed_def)
    note spec = cache_write_spec [OF assms(1) Some w]
    from False lk have "ctx' = cache_write n (claimed now n) ctx" "Looked out = answer CACHE_CLAIMED [] 0"
      by (auto simp: answer_def)
    with spec False zone_step.claim [of "cache_map ctx" h n now "cc_generation ctx" pool, OF Some] show ?thesis
      by (simp add: zone_of_def)
  qed
qed

lemma lookup_new_refines:
  assumes "cache_inv ctx" and "cache_lookup ctx pool h now = (out, ctx', pool')" and None: "cache_map ctx h = None"
  shows "cache_inv ctx' \<and> zone_step (zone_of ctx) (Lookup_for pool h now) (Looked out) (zone_of ctx')"
proof -
  have find: "cache_find (ngx_crc32_short h) h (cc_rbtree ctx) = None" using None by (simp add: cache_map_def)
  obtain r c where al: "cache_alloc_node ctx h (ngx_crc32_short h) now = (r, c)" by fastforce
  from cache_alloc_spec [OF assms(1) None al] obtain m where
    m: "cache_inv c" "cc_generation c = cc_generation ctx" "evicts now (cache_map ctx) m"
    "r = None \<and> cache_map c = m \<or> r = Some (new_entry h) \<and> cache_map c = m(h \<mapsto> new_entry h)"
    unfolding new_entry_def .
  from m(4) show ?thesis
  proof (elim disjE conjE)
    assume "r = None" "cache_map c = m"
    with assms(2) find al m zone_step.unavailable [of "cache_map ctx" h now m "cc_generation ctx" pool, OF None] show ?thesis
      by (auto simp: cache_lookup_def Let_def zone_of_def answer_def)
  next
    assume r: "r = Some (new_entry h)" "cache_map c = m(h \<mapsto> new_entry h)"
    have w: "cn_key (claimed now (new_entry h)) = cn_key (new_entry h)" "cn_host (claimed now (new_entry h)) = cn_host (new_entry h)"
      by (simp_all add: claimed_def)
    have "cache_map c h = Some (new_entry h)" using r(2) by simp
    note spec = cache_write_spec [OF m(1) this w]
    from assms(2) find al r(1) have "ctx' = cache_write (new_entry h) (claimed now (new_entry h)) c" "Looked out = answer CACHE_CLAIMED [] 0"
      by (auto simp: cache_lookup_def Let_def answer_def claimed_def)
    with spec m(2,3) r(2) zone_step.claim_new [of "cache_map ctx" h now m "cc_generation ctx" pool, OF None] show ?thesis
      by (simp add: zone_of_def)
  qed
qed

lemma lookup_refines:
  assumes "cache_inv ctx" and "cache_lookup ctx pool h now = (out, ctx', pool')"
  shows "cache_inv ctx' \<and> zone_step (zone_of ctx) (Lookup_for pool h now) (Looked out) (zone_of ctx')"
  using lookup_known_refines [OF assms] lookup_new_refines [OF assms] by (cases "cache_map ctx h") blast+

lemma rotation_refines:
  assumes "cache_inv ctx" and "cache_claim_rotation_refetch ctx h now ttl = (ok, ctx')"
  shows "cache_inv ctx' \<and> zone_step (zone_of ctx) (Claim_rotation h now ttl) (Claimed_rotation ok) (zone_of ctx')"
proof (cases "\<exists>n. cache_map ctx h = Some n \<and> \<not> cn_fetching n \<and> (cn_forced_refetch_at n = 0 \<or> ttl \<le> now - cn_forced_refetch_at n)")
  case True
  then obtain n where n: "cache_map ctx h = Some n" "\<not> cn_fetching n" "cn_forced_refetch_at n = 0 \<or> ttl \<le> now - cn_forced_refetch_at n"
    by blast
  let ?n = "(claimed now n)\<lparr>cn_forced_refetch_at := now\<rparr>"
  have w: "cn_key ?n = cn_key n" "cn_host ?n = cn_host n" by (simp_all add: claimed_def)
  note spec = cache_write_spec [OF assms(1) n(1) w]
  from n assms(2) have "ok" "ctx' = cache_write n ?n ctx"
    by (auto simp: cache_claim_rotation_refetch_def cache_map_def claimed_def split: if_splits)
  with spec zone_step.rotate [of "cache_map ctx" h n ttl now "cc_generation ctx", OF n] show ?thesis by (simp add: zone_of_def)
next
  case False
  with assms(2) have "\<not> ok" "ctx' = ctx"
    by (auto simp: cache_claim_rotation_refetch_def cache_map_def split: option.splits if_splits)
  moreover have "\<forall>n. cache_map ctx h = Some n \<longrightarrow> cn_fetching n \<or> cn_forced_refetch_at n \<noteq> 0 \<and> now - cn_forced_refetch_at n < ttl"
    using False by fastforce
  ultimately show ?thesis using assms(1) zone_step.no_rotate [of "cache_map ctx" h now ttl "cc_generation ctx"] by (simp add: zone_of_def)
qed

lemma fill_refines:
  assumes "cache_inv c" and "cache_map c h = Some n" and "cache_fill n c jwks exp ttl clock = (gen, ctx')"
  shows "cache_inv ctx' \<and>
    (gen = cc_generation c + 1 \<and> zone_of ctx' =
       ((cache_map c)(h \<mapsto> n\<lparr>cn_jwks := jwks, cn_expires_at := exp, cn_fetching := False, cn_generation := gen\<rparr>), gen) \<or>
     gen = 0 \<and> zone_of ctx' = ((cache_map c)(h \<mapsto> n\<lparr>cn_fetching := False, cn_expires_at := clock + ttl\<rparr>), cc_generation c))"
proof -
  obtain ok p where p: "palloc (cc_shpool c) = (ok, p)" by fastforce
  let ?c = "c\<lparr>cc_shpool := p\<rparr>"
  have c: "cache_inv ?c" "cache_map ?c h = Some n" using assms(1,2) by simp_all
  show ?thesis
  proof (cases ok)
    case True
    let ?g = "cc_generation c + 1"
    let ?n = "n\<lparr>cn_jwks := jwks, cn_expires_at := exp, cn_fetching := False, cn_generation := ?g\<rparr>"
    have c': "cache_inv (?c\<lparr>cc_generation := ?g\<rparr>)" "cache_map (?c\<lparr>cc_generation := ?g\<rparr>) h = Some n"
      using c by (simp_all only: cache_map_shpool)
    have w: "cn_key ?n = cn_key n" "cn_host ?n = cn_host n" by simp_all
    note spec = cache_write_spec [OF c' w]
    have "gen = ?g" "ctx' = cache_write n ?n (?c\<lparr>cc_generation := ?g\<rparr>)"
      using assms(3) True p by (auto simp: cache_fill_def Let_def)
    with spec show ?thesis unfolding zone_of_def cache_map_shpool by simp
  next
    case False
    let ?n = "n\<lparr>cn_fetching := False, cn_expires_at := clock + ttl\<rparr>"
    have w: "cn_key ?n = cn_key n" "cn_host ?n = cn_host n" by simp_all
    note spec = cache_write_spec [OF c w]
    have "gen = 0" "ctx' = cache_write n ?n ?c"
      using assms(3) False p by (auto simp: cache_fill_def Let_def)
    with spec show ?thesis unfolding zone_of_def cache_map_shpool by simp
  qed
qed

lemma store_refines:
  assumes "cache_inv ctx" and "cache_store ctx h jwks exp ttl clock = (gen, ctx')"
  shows "cache_inv ctx' \<and> zone_step (zone_of ctx) (Store_for h jwks exp ttl clock) (Stored gen) (zone_of ctx')"
proof (cases "cache_map ctx h")
  case (Some n)
  with assms(2) have "cache_fill n ctx jwks exp ttl clock = (gen, ctx')" by (simp add: cache_store_def cache_map_def)
  from fill_refines [OF assms(1) Some this]
    zone_step.store [of "cache_map ctx" h n "cache_map ctx" clock "cc_generation ctx" jwks exp ttl]
    zone_step.store_backoff [of "cache_map ctx" h n "cache_map ctx" clock "cc_generation ctx" jwks exp ttl] Some
  show ?thesis by (auto simp: zone_of_def)
next
  case None
  obtain r c where al: "cache_alloc_node ctx h (ngx_crc32_short h) clock = (r, c)" by fastforce
  from cache_alloc_spec [OF assms(1) None al] obtain m where
    m: "cache_inv c" "cc_generation c = cc_generation ctx" "evicts clock (cache_map ctx) m"
    "r = None \<and> cache_map c = m \<or> r = Some (new_entry h) \<and> cache_map c = m(h \<mapsto> new_entry h)"
    unfolding new_entry_def .
  from m(4) show ?thesis
  proof (elim disjE conjE)
    assume "r = None" "cache_map c = m"
    with assms(2) al None m zone_step.store_no_room [of "cache_map ctx" h clock m "cc_generation ctx" jwks exp ttl, OF None]
    show ?thesis by (auto simp: cache_store_def cache_map_def [symmetric] zone_of_def)
  next
    assume r: "r = Some (new_entry h)" "cache_map c = m(h \<mapsto> new_entry h)"
    with assms(2) al None have "cache_fill (new_entry h) c jwks exp ttl clock = (gen, ctx')"
      by (simp add: cache_store_def cache_map_def [symmetric])
    from fill_refines [OF m(1) _ this, of h] r(2) m(2,3)
      zone_step.store [of "cache_map ctx" h "new_entry h" m clock "cc_generation ctx" jwks exp ttl]
      zone_step.store_backoff [of "cache_map ctx" h "new_entry h" m clock "cc_generation ctx" jwks exp ttl] None
    show ?thesis by (auto simp: zone_of_def)
  qed
qed

lemma release_refines:
  assumes "cache_inv ctx"
  shows "cache_inv (cache_release ctx h retry_at) \<and>
    zone_step (zone_of ctx) (Release_for h retry_at) Released (zone_of (cache_release ctx h retry_at))"
proof (cases "cache_map ctx h")
  case (Some n)
  let ?n = "n\<lparr>cn_fetching := False, cn_expires_at := retry_at\<rparr>"
  have w: "cn_key ?n = cn_key n" "cn_host ?n = cn_host n" by simp_all
  have "cache_release ctx h retry_at = cache_write n ?n ctx"
    using Some by (simp add: cache_release_def cache_map_def)
  with cache_write_spec [OF assms Some w] zone_step.release [of "cache_map ctx" h n "cc_generation ctx" retry_at, OF Some]
  show ?thesis by (simp add: zone_of_def)
next
  case None
  then have "cache_release ctx h retry_at = ctx" by (simp add: cache_release_def cache_map_def)
  with assms zone_step.release_absent [of "cache_map ctx" h "cc_generation ctx" retry_at, OF None] show ?thesis by (simp add: zone_of_def)
qed

lemma step_refines:
  assumes "cache_inv ctx" and "cache_step e ctx = (r, ctx')"
  shows "cache_inv ctx' \<and> zone_step (zone_of ctx) e r (zone_of ctx')"
proof (cases e)
  case (Lookup_for pool h now)
  then show ?thesis
    using assms lookup_refines [OF assms(1), of pool h now] by (auto split: prod.splits)
next
  case (Claim_rotation h now ttl)
  then show ?thesis using assms rotation_refines [OF assms(1), of h now ttl] by (auto split: prod.splits)
next
  case (Store_for h jwks exp ttl clock)
  then show ?thesis using assms store_refines [OF assms(1), of h jwks exp ttl clock] by (auto split: prod.splits)
next
  case (Release_for h t)
  then show ?thesis using assms release_refines [OF assms(1), of h t] by auto
qed

end
