(* ===== verification/Key_Zone.thy ===== *)
theory Key_Zone
  imports Cache_Props
begin

text \<open>
  What the workers rely on, over any sequence of operations on the shared key cache: a generation number
  names one stored document for ever, a host has one fetch right, which comes back when its holder dies,
  documents survive failed fetches, and rotation refetches are rate limited.

  The locale \<open>key_zone\<close> is the contract: an implementation whose steps refine \<open>zone_step\<close>.
\<close>

section \<open>Traces\<close>

text \<open>The documents stored so far, in the order of the successful stores.\<close>

fun logged :: "cache_event \<Rightarrow> cache_reply \<Rightarrow> (bytes \<times> bytes) list" where
  "logged (Store_for h jwks expires_at retry_ttl clock) (Stored g) = (if g = 0 then [] else [(h, jwks)])"
| "logged _ _ = []"

fun stored_log :: "cache_event list \<Rightarrow> cache_reply list \<Rightarrow> (bytes \<times> bytes) list" where
  "stored_log (e # es) (r # rs) = logged e r @ stored_log es rs"
| "stored_log _ _ = []"

text \<open>Whether an event gave its worker the right to fetch for \<open>h\<close>, and when.\<close>

fun grants :: "cache_event \<Rightarrow> cache_reply \<Rightarrow> bytes \<Rightarrow> bool" where
  "grants (Lookup_for pool h' now) (Looked out) h \<longleftrightarrow> h' = h \<and> lk_rc out = NGX_OK CACHE_CLAIMED"
| "grants (Claim_rotation h' now retry_ttl) (Claimed_rotation ok) h \<longleftrightarrow> h' = h \<and> ok"
| "grants _ _ h \<longleftrightarrow> False"

fun event_time :: "cache_event \<Rightarrow> int" where
  "event_time (Lookup_for pool h now) = now"
| "event_time (Claim_rotation h now retry_ttl) = now"
| "event_time (Store_for h jwks expires_at retry_ttl clock) = clock"
| "event_time (Release_for h retry_at) = retry_at"

text \<open>Events that leave a fetch right taken at \<open>t\<close> with its holder, and those that do so up to a limit.\<close>

fun undisturbed :: "bytes \<Rightarrow> int \<Rightarrow> cache_event \<Rightarrow> bool" where
  "undisturbed h t (Lookup_for pool h' now) \<longleftrightarrow> h' \<noteq> h \<or> now < t + CACHE_FETCH_TIMEOUT"
| "undisturbed h t (Claim_rotation h' now retry_ttl) \<longleftrightarrow> True"
| "undisturbed h t (Store_for h' jwks expires_at retry_ttl clock) \<longleftrightarrow> h' \<noteq> h"
| "undisturbed h t (Release_for h' retry_at) \<longleftrightarrow> h' \<noteq> h"

fun left_to_holder :: "bytes \<Rightarrow> int \<Rightarrow> cache_event \<Rightarrow> bool" where
  "left_to_holder h limit (Lookup_for pool h' now) \<longleftrightarrow> h' \<noteq> h \<or> now < limit"
| "left_to_holder h limit (Claim_rotation h' now retry_ttl) \<longleftrightarrow> True"
| "left_to_holder h limit (Store_for h' jwks expires_at retry_ttl clock) \<longleftrightarrow> h' \<noteq> h"
| "left_to_holder h limit (Release_for h' retry_at) \<longleftrightarrow> h' \<noteq> h"

section \<open>One step of the specification\<close>

lemma evicts_Some: "evicts now m m' \<Longrightarrow> m' h = Some n \<Longrightarrow> m h = Some n"
  by (auto simp: evicts_def split: if_splits)

lemma new_entry_simps [simp]:
  "cn_generation (new_entry h) = 0" "cn_jwks (new_entry h) = []" "cn_fetching (new_entry h) = False"
  "cn_host (new_entry h) = h" "cn_expires_at (new_entry h) = 0"
  by (simp_all add: new_entry_def cache_new_node_def)

lemma claimed_simps [simp]:
  "cn_generation (claimed t n) = cn_generation n" "cn_jwks (claimed t n) = cn_jwks n" "cn_fetching (claimed t n)"
  "cn_fetching_since (claimed t n) = t" "cn_expires_at (claimed t n) = cn_expires_at n"
  "cn_forced_refetch_at (claimed t n) = cn_forced_refetch_at n"
  by (simp_all add: claimed_def)

definition entry_logged :: "(bytes \<times> bytes) list \<Rightarrow> bytes \<Rightarrow> cache_node \<Rightarrow> bool" where
  "entry_logged log h n \<longleftrightarrow> cn_generation n = 0 \<and> cn_jwks n = [] \<or>
     0 < cn_generation n \<and> cn_generation n \<le> length log \<and> log ! (cn_generation n - 1) = (h, cn_jwks n)"

definition zone_logged :: "(bytes \<times> bytes) list \<Rightarrow> zone \<Rightarrow> bool" where
  "zone_logged log z \<longleftrightarrow> length log = snd z \<and> (\<forall>h n. fst z h = Some n \<longrightarrow> entry_logged log h n)"

lemma entry_logged_append: "entry_logged log h n \<Longrightarrow> entry_logged (log @ log2) h n"
  unfolding entry_logged_def by (elim disjE conjE) (auto simp: nth_append)

lemma entry_logged_updates [simp]:
  "entry_logged log h (claimed t n) = entry_logged log h n"
  "entry_logged log h (n\<lparr>cn_forced_refetch_at := t\<rparr>) = entry_logged log h n"
  "entry_logged log h (n\<lparr>cn_fetching := b\<rparr>) = entry_logged log h n"
  "entry_logged log h (n\<lparr>cn_expires_at := t\<rparr>) = entry_logged log h n"
  by (simp_all add: entry_logged_def)

lemma evicts_cases: "evicts now m m' \<Longrightarrow> m h = Some n \<Longrightarrow> m' h = Some n \<or> m' h = None \<and> \<not> cn_fetching n \<and> cn_expires_at n \<le> now"
  by (auto simp: evicts_def split: if_splits)

lemma zone_logged_evicts: "zone_logged log (m, g) \<Longrightarrow> evicts now m m' \<Longrightarrow> zone_logged log (m', g)"
  unfolding zone_logged_def fst_conv snd_conv using evicts_Some [of now m m'] by blast

lemma zone_logged_upd: "zone_logged log (m, g) \<Longrightarrow> entry_logged log h n \<Longrightarrow> zone_logged log (m(h \<mapsto> n), g)"
  by (simp add: zone_logged_def)

lemma zone_loggedD: "zone_logged log (m, g) \<Longrightarrow> m h = Some n \<Longrightarrow> entry_logged log h n"
  by (simp add: zone_logged_def)

lemma entry_logged_new: "cn_generation n = 0 \<Longrightarrow> cn_jwks n = [] \<Longrightarrow> entry_logged log h n"
  by (simp add: entry_logged_def)

lemma zone_logged_step:
  "zone_step z e r z' \<Longrightarrow> zone_logged log z \<Longrightarrow> zone_logged (log @ logged e r) z'"
proof (induction rule: zone_step.induct)
  case (claim m h n now g pool)
  then show ?case by (simp add: answer_def zone_logged_upd zone_loggedD)
next
  case (claim_new m h now m' g pool)
  from zone_logged_evicts [OF claim_new.prems claim_new.hyps(2)] show ?case
    by (simp add: answer_def zone_logged_upd entry_logged_new)
next
  case (unavailable m h now m' g pool)
  from zone_logged_evicts [OF unavailable.prems unavailable.hyps(2)] show ?case by (simp add: answer_def)
next
  case (rotate m h n retry_ttl now g)
  then show ?case by (simp add: answer_def zone_logged_upd zone_loggedD)
next
  case (store m h n m' clock g jwks expires_at retry_ttl)
  have m': "zone_logged log (m', g)" using store zone_logged_evicts [of log m g clock m'] by blast
  then have len: "length log = g" by (simp add: zone_logged_def)
  have "zone_logged (log @ [(h, jwks)]) (m', g + 1)"
    using m' unfolding zone_logged_def by (simp add: entry_logged_append)
  then show ?case by (simp add: zone_logged_upd entry_logged_def nth_append len)
next
  case (store_backoff m h n m' clock g jwks expires_at retry_ttl)
  have "zone_logged log (m', g)" using store_backoff zone_logged_evicts [of log m g clock m'] by blast
  moreover have "entry_logged log h n" using store_backoff zone_loggedD [of log m g h n] by (auto intro: entry_logged_new)
  ultimately show ?case by (simp add: zone_logged_upd)
next
  case (store_no_room m h clock m' g jwks expires_at retry_ttl)
  from zone_logged_evicts [OF store_no_room.prems store_no_room.hyps(2)] show ?case by simp
next
  case (release m h n g retry_at)
  then show ?case by (simp add: zone_logged_upd zone_loggedD)
qed (simp_all add: answer_def)

lemma zone_logged_reply:
  assumes "zone_step z (Lookup_for pool h now) (Looked out) z'" and "zone_logged log z"
  shows "lk_generation out = 0 \<and> lk_jwks out = [] \<or>
    0 < lk_generation out \<and> lk_generation out \<le> length log \<and> log ! (lk_generation out - 1) = (h, lk_jwks out)"
  using assms by (elim lookup_stepE) (auto simp: zone_logged_def entry_logged_def answer_def)

lemma zone_logged_stored:
  assumes "zone_step z (Store_for h jwks exp ttl clock) (Stored g) z'" and "zone_logged log z" and "g \<noteq> 0"
  shows "g = length log + 1"
  using assms by (elim store_stepE) (auto simp: zone_logged_def)

text \<open>The entry of a host that is being fetched since \<open>t\<close>.\<close>

definition held :: "bytes \<Rightarrow> int \<Rightarrow> int \<Rightarrow> zone \<Rightarrow> bool" where
  "held h t x z \<longleftrightarrow> (\<exists>n. fst z h = Some n \<and> cn_fetching n \<and> cn_fetching_since n = t \<and> cn_expires_at n = x)"

lemma evicts_fetching: "evicts now m m' \<Longrightarrow> m h = Some n \<Longrightarrow> cn_fetching n \<Longrightarrow> m' h = Some n"
  by (auto simp: evicts_def)

lemma held_step:
  "zone_step z e r z' \<Longrightarrow> held h t x z \<Longrightarrow> undisturbed h t e \<Longrightarrow> held h t x z' \<and> \<not> grants e r h"
  by (induction rule: zone_step.induct)
    (auto simp: held_def answer_def in_flight_def evicts_fetching)

lemma left_step:
  "zone_step z e r z' \<Longrightarrow> held h t x z \<Longrightarrow> left_to_holder h (max x (t + CACHE_FETCH_TIMEOUT)) e \<Longrightarrow> held h t x z'"
  by (induction rule: zone_step.induct) (auto simp: held_def in_flight_def evicts_fetching)

lemma rotation_expiry:
  "zone_step z (Claim_rotation h now ttl) (Claimed_rotation True) z' \<Longrightarrow>
   \<exists>n n'. fst z h = Some n \<and> fst z' h = Some n' \<and> cn_expires_at n' = cn_expires_at n"
  by (elim rotation_stepE) auto

lemma grants_held:
  "zone_step z e r z' \<Longrightarrow> grants e r h \<Longrightarrow> \<exists>x. held h (event_time e) x z' \<and> (\<forall>pool now. e = Lookup_for pool h now \<longrightarrow> x \<le> now \<or> fst z h = None \<and> x = 0)"
  by (induction rule: zone_step.induct) (auto simp: held_def answer_def)

lemma zone_step_keeps:
  "zone_step z e r z' \<Longrightarrow> fst z h = Some n \<Longrightarrow>
    (\<exists>n'. fst z' h = Some n' \<and> (cn_jwks n' = cn_jwks n \<and> cn_generation n' = cn_generation n \<or> (\<exists>jwks. (h, jwks) \<in> set (logged e r)))) \<or>
    fst z' h = None \<and> \<not> cn_fetching n \<and> cn_expires_at n \<le> event_time e"
proof (induction rule: zone_step.induct)
  case (claim_new m h' now m' g pool)
  then show ?case using evicts_cases [OF claim_new.hyps(2), of h n] by auto
next
  case (unavailable m h' now m' g pool)
  then show ?case using evicts_cases [OF unavailable.hyps(2), of h n] by auto
next
  case (store m h' n' m' clock g jwks expires_at retry_ttl)
  then show ?case using evicts_cases [of clock m m' h n] by (cases "h' = h") auto
next
  case (store_backoff m h' n' m' clock g jwks expires_at retry_ttl)
  then show ?case using evicts_cases [of clock m m' h n] by (cases "h' = h") auto
next
  case (store_no_room m h' clock m' g jwks expires_at retry_ttl)
  then show ?case using evicts_cases [OF store_no_room.hyps(2), of h n] by auto
qed auto

lemma forced_step:
  "zone_step z e r z' \<Longrightarrow> fst z h = Some n \<Longrightarrow> t \<le> cn_forced_refetch_at n \<Longrightarrow>
   (\<forall>now ttl. e = Claim_rotation h now ttl \<longrightarrow> t \<le> now) \<Longrightarrow> fst z' h = Some n' \<Longrightarrow> t \<le> cn_forced_refetch_at n'"
  by (induction rule: zone_step.induct) (auto simp: evicts_def split: if_splits)

section \<open>The contract\<close>

locale key_zone =
  fixes step :: "cache_event \<Rightarrow> 'c \<Rightarrow> cache_reply \<times> 'c" and inv :: "'c \<Rightarrow> bool" and view :: "'c \<Rightarrow> zone"
  assumes refines: "inv c \<Longrightarrow> step e c = (r, c') \<Longrightarrow> inv c' \<and> zone_step (view c) e r (view c')"
begin

fun run :: "cache_event list \<Rightarrow> 'c \<Rightarrow> cache_reply list \<times> 'c" where
  "run [] c = ([], c)"
| "run (e # es) c = (case step e c of (r, c) \<Rightarrow> (case run es c of (rs, c) \<Rightarrow> (r # rs, c)))"

lemma run_Cons:
  assumes "run (e # es) c = (rs, c')"
  obtains r c1 rs' where "step e c = (r, c1)" "run es c1 = (rs', c')" "rs = r # rs'"
  using assms by (auto split: prod.splits)

lemma run_inv: "inv c \<Longrightarrow> run es c = (rs, c') \<Longrightarrow> inv c'"
proof (induction es arbitrary: c rs)
  case (Cons e es)
  from Cons.prems(2) obtain r c1 rs' where s: "step e c = (r, c1)" "run es c1 = (rs', c')" "rs = r # rs'" by (rule run_Cons)
  with refines [OF Cons.prems(1) s(1)] Cons.IH show ?case by blast
qed simp

lemma run_logged:
  "inv c \<Longrightarrow> zone_logged log (view c) \<Longrightarrow> run es c = (rs, c') \<Longrightarrow> zone_logged (log @ stored_log es rs) (view c')"
proof (induction es arbitrary: c rs log)
  case (Cons e es)
  from Cons.prems(3) obtain r c1 rs' where s: "step e c = (r, c1)" "run es c1 = (rs', c')" "rs = r # rs'" by (rule run_Cons)
  from refines [OF Cons.prems(1) s(1)] have "inv c1" "zone_logged (log @ logged e r) (view c1)"
    using zone_logged_step Cons.prems(2) by blast+
  from Cons.IH [OF this s(2)] s(3) show ?case by simp
qed simp

lemma run_held:
  "inv c \<Longrightarrow> held h t x (view c) \<Longrightarrow> run es c = (rs, c') \<Longrightarrow> list_all (undisturbed h t) es \<Longrightarrow>
    held h t x (view c') \<and> (\<forall>(e, r)\<in>set (zip es rs). \<not> grants e r h)"
proof (induction es arbitrary: c rs)
  case (Cons e es)
  from Cons.prems(3) obtain r c1 rs' where s: "step e c = (r, c1)" "run es c1 = (rs', c')" "rs = r # rs'" by (rule run_Cons)
  from refines [OF Cons.prems(1) s(1)] have "inv c1" "zone_step (view c) e r (view c1)" by blast+
  with held_step Cons.prems(2,4) have "held h t x (view c1) \<and> \<not> grants e r h" by auto
  with Cons.IH [OF \<open>inv c1\<close> _ s(2)] Cons.prems(4) s(3) show ?case by simp
qed simp

lemma run_left:
  "inv c \<Longrightarrow> held h t x (view c) \<Longrightarrow> run es c = (rs, c') \<Longrightarrow> list_all (left_to_holder h (max x (t + CACHE_FETCH_TIMEOUT))) es \<Longrightarrow>
    held h t x (view c')"
proof (induction es arbitrary: c rs)
  case (Cons e es)
  from Cons.prems(3) obtain r c1 rs' where s: "step e c = (r, c1)" "run es c1 = (rs', c')" "rs = r # rs'" by (rule run_Cons)
  from refines [OF Cons.prems(1) s(1)] have "inv c1" "zone_step (view c) e r (view c1)" by blast+
  with left_step Cons.prems(2,4) have "held h t x (view c1)" by auto
  with Cons.IH [OF \<open>inv c1\<close> _ s(2)] Cons.prems(4) show ?case by simp
qed simp

lemma held_next:
  assumes "inv c" and "held h t x (view c)"
  shows "grants (Lookup_for pool h now) (fst (step (Lookup_for pool h now) c)) h \<longleftrightarrow> max x (t + CACHE_FETCH_TIMEOUT) \<le> now"
    and "fst (step (Claim_rotation h now ttl) c) = Claimed_rotation False"
proof -
  note after = conjunct2 [OF refines [OF assms(1) surjective_pairing]]
  show "grants (Lookup_for pool h now) (fst (step (Lookup_for pool h now) c)) h \<longleftrightarrow> max x (t + CACHE_FETCH_TIMEOUT) \<le> now"
    using after [of "Lookup_for pool h now"] assms(2) by (elim lookup_stepE) (auto simp: held_def in_flight_def answer_def)
  show "fst (step (Claim_rotation h now ttl) c) = Claimed_rotation False"
    using after [of "Claim_rotation h now ttl"] assms(2) by (elim rotation_stepE) (auto simp: held_def)
qed

text \<open>The host keeps its entry in every state of the run.\<close>

fun stays :: "bytes \<Rightarrow> cache_event list \<Rightarrow> 'c \<Rightarrow> bool" where
  "stays h [] c \<longleftrightarrow> fst (view c) h \<noteq> None"
| "stays h (e # es) c \<longleftrightarrow> fst (view c) h \<noteq> None \<and> stays h es (snd (step e c))"

lemma run_forced:
  "inv c \<Longrightarrow> fst (view c) h = Some n \<Longrightarrow> t \<le> cn_forced_refetch_at n \<Longrightarrow> stays h es c \<Longrightarrow> run es c = (rs, c') \<Longrightarrow>
   \<forall>e\<in>set es. t \<le> event_time e \<Longrightarrow> \<exists>n'. fst (view c') h = Some n' \<and> t \<le> cn_forced_refetch_at n'"
proof (induction es arbitrary: c rs n)
  case (Cons e es)
  from Cons.prems(5) obtain r c1 rs' where s: "step e c = (r, c1)" "run es c1 = (rs', c')" "rs = r # rs'" by (rule run_Cons)
  from refines [OF Cons.prems(1) s(1)] have z: "inv c1" "zone_step (view c) e r (view c1)" by blast+
  from Cons.prems(4) s(1) have st: "stays h es c1" by simp
  then obtain n' where n': "fst (view c1) h = Some n'" by (cases es) auto
  have "t \<le> cn_forced_refetch_at n'"
    by (rule forced_step [OF z(2) Cons.prems(2,3) _ n']) (use Cons.prems(6) in auto)
  from Cons.IH [OF z(1) n' this st s(2)] Cons.prems(6) show ?case by simp
qed auto

end

interpretation cache_zone: key_zone cache_step cache_inv zone_of
  by unfold_locales (rule step_refines)

lemma cache_run_eq: "cache_run es ctx = cache_zone.run es ctx"
  by (induction es arbitrary: ctx) (simp_all split: prod.splits)

lemma cache_init:
  assumes "cache_init_zone None None shpool = Some ctx"
  shows "cache_inv ctx" and "zone_of ctx = (Map.empty, 0)"
proof -
  from assms obtain p where "ctx = \<lparr>cc_rbtree = Sentinel, cc_generation = 0, cc_shpool = p\<rparr>"
    by (auto simp: cache_init_zone_def split: prod.splits bool.splits)
  then show "cache_inv ctx" "zone_of ctx = (Map.empty, 0)"
    by (auto simp: cache_inv_def zone_of_def cache_map_def cache_tree.search_tree_def)
qed

definition small_zone :: cache_ctx where
  "small_zone = \<lparr>cc_rbtree = Sentinel, cc_generation = 0, cc_shpool = []\<rparr>"

lemma small_zone_init: "cache_init_zone None None [] = Some small_zone"
  by code_simp

section \<open>Properties\<close>

text \<open>C23: The zone implements its specification: a new zone is empty, and every operation, whatever allocations fail
  and whichever node is evicted for room, keeps the tree well formed and is a step of the specification
  with the same answer.  A reload hands the zone over unchanged.\<close>

theorem key_cache_refines:
  assumes "cache_inv ctx" and "cache_step e ctx = (r, ctx')"
  shows "cache_inv ctx' \<and> zone_step (zone_of ctx) e r (zone_of ctx') \<and>
    cache_init_zone (Some ctx) None shpool = Some ctx \<and> cache_init_zone None (Some ctx) shpool = Some ctx"
  using step_refines [OF assms] by (simp add: cache_init_zone_def)

theorem key_cache_refines_witness:
  "\<exists>ctx'. cache_step (Lookup_for [] ''a.example'' 5) small_zone = (answer CACHE_CLAIMED [] 0, ctx') \<and> cache_inv ctx' \<and>
     zone_step (zone_of small_zone) (Lookup_for [] ''a.example'' 5) (answer CACHE_CLAIMED [] 0) (zone_of ctx')"
proof -
  have "fst (cache_step (Lookup_for [] ''a.example'' 5) small_zone) = answer CACHE_CLAIMED [] 0" by code_simp
  then obtain ctx' where "cache_step (Lookup_for [] ''a.example'' 5) small_zone = (answer CACHE_CLAIMED [] 0, ctx')"
    by (metis prod.collapse)
  with key_cache_refines [OF cache_init(1) [OF small_zone_init] this] show ?thesis by blast
qed

text \<open>C21: A generation number names one stored document for ever.  After any operations on a new zone, a lookup that
  hands out a document (as a hit, or while another worker fetches) hands out, with generation \<open>g\<close>, exactly
  the document of the \<open>g\<close>-th successful store, and that store was for this host; without a document the
  generation is 0.\<close>

theorem generation_names_document:
  assumes "cache_init_zone None None shpool = Some ctx0" and "cache_run es ctx0 = (rs, ctx)"
    and "cache_lookup ctx pool h now = (out, ctx', pool')"
  shows "lk_generation out = 0 \<and> lk_jwks out = [] \<or>
    0 < lk_generation out \<and> lk_generation out \<le> length (stored_log es rs) \<and>
    stored_log es rs ! (lk_generation out - 1) = (h, lk_jwks out)"
proof -
  have "zone_logged [] (zone_of ctx0)" by (simp add: cache_init(2) [OF assms(1)] zone_logged_def)
  from cache_zone.run_logged [OF cache_init(1) [OF assms(1)] this, of es rs ctx] assms(2)
  have "zone_logged (stored_log es rs) (zone_of ctx)" by (simp add: cache_run_eq)
  moreover have "cache_inv ctx"
    using cache_zone.run_inv [OF cache_init(1) [OF assms(1)], of es rs ctx] assms(2) by (simp add: cache_run_eq)
  ultimately show ?thesis
    using zone_logged_reply [OF conjunct2 [OF lookup_refines [OF _ assms(3)]]] by blast
qed

definition busy_events :: "cache_event list" where
  "busy_events =
     [Lookup_for [] ''a'' 5, Store_for ''a'' ''doc1'' 100 10 6, Lookup_for [] ''b'' 7, Store_for ''b'' ''doc2'' 100 10 8,
      Lookup_for [] ''a'' 200]"

theorem generation_names_document_witness:
  "fst (cache_lookup (snd (cache_run busy_events small_zone)) [] ''a'' 201) = \<lparr>lk_rc = NGX_OK CACHE_BUSY, lk_jwks = ''doc1'', lk_generation = 1\<rparr> \<and>
   stored_log busy_events (fst (cache_run busy_events small_zone)) ! 0 = (''a'', ''doc1'')"
proof -
  let ?out = "\<lparr>lk_rc = NGX_OK CACHE_BUSY, lk_jwks = ''doc1'', lk_generation = 1\<rparr>"
  have out: "fst (cache_lookup (snd (cache_run busy_events small_zone)) [] ''a'' 201) = ?out" by code_simp
  then obtain c p where "cache_lookup (snd (cache_run busy_events small_zone)) [] ''a'' 201 = (?out, c, p)"
    by (metis prod.collapse)
  from generation_names_document [OF small_zone_init _ this, of busy_events "fst (cache_run busy_events small_zone)"] out
  show ?thesis by simp
qed

text \<open>C22: A host has one fetch right.  Once a worker holds it (claimed by a lookup or for a rotation), no other worker
  is granted it, whatever the others look up, claim, store and release for other hosts and however short
  the zone is of room, until it stores or releases, or 30 seconds have passed.\<close>

theorem one_fetch_right:
  assumes "cache_inv ctx" and "cache_step e ctx = (r, ctx1)" and "grants e r h" and "cache_run es ctx1 = (rs, ctx2)"
    and "list_all (undisturbed h (event_time e)) es"
  shows "\<forall>(f, s)\<in>set (zip es rs). \<not> grants f s h"
proof -
  from step_refines [OF assms(1,2)] have z: "cache_inv ctx1" "zone_step (zone_of ctx) e r (zone_of ctx1)" by blast+
  from grants_held [OF z(2) assms(3)] obtain x where "held h (event_time e) x (zone_of ctx1)" by blast
  from cache_zone.run_held [OF z(1) this] assms(4,5) show ?thesis unfolding cache_run_eq by blast
qed

definition waiting_events :: "cache_event list" where
  "waiting_events =
     [Lookup_for [] ''a'' 34, Claim_rotation ''a'' 20 1, Lookup_for [] ''b'' 7, Store_for ''b'' ''doc2'' 100 10 8]"

theorem one_fetch_right_witness:
  "\<exists>ctx1 rs ctx2. cache_step (Lookup_for [] ''a'' 5) small_zone = (answer CACHE_CLAIMED [] 0, ctx1) \<and>
    cache_run waiting_events ctx1 = (rs, ctx2) \<and>
    list_all (\<lambda>(f, s). \<not> grants f s ''a'') (zip waiting_events rs)"
proof -
  have "fst (cache_step (Lookup_for [] ''a'' 5) small_zone) = answer CACHE_CLAIMED [] 0" by code_simp
  then obtain ctx1 where s: "cache_step (Lookup_for [] ''a'' 5) small_zone = (answer CACHE_CLAIMED [] 0, ctx1)"
    by (metis prod.collapse)
  obtain rs ctx2 where r: "cache_run waiting_events ctx1 = (rs, ctx2)" by fastforce
  have "grants (Lookup_for [] ''a'' 5) (answer CACHE_CLAIMED [] 0) ''a''" by (simp add: answer_def)
  moreover have "list_all (undisturbed ''a'' (event_time (Lookup_for [] ''a'' 5))) waiting_events" by code_simp
  ultimately have "\<forall>(f, s)\<in>set (zip waiting_events rs). \<not> grants f s ''a''"
    by (rule one_fetch_right [OF cache_init(1) [OF small_zone_init] s _ r])
  with s r show ?thesis by (auto simp: list_all_iff)
qed

text \<open>C25: When a stranded fetch right comes back.  Let a worker be granted the right of a host, by a lookup or for a
  rotation, and never store or release, and let \<open>limit\<close> be 30 seconds later or the expiry of the host's
  entry, whichever is later.  However busy the zone is, a lookup of the host is granted the right from
  \<open>limit\<close> on, and not before, and no rotation claim is granted it at all.  After a lookup's claim the entry has
  expired, so the wait is the 30 seconds; a rotation's claim leaves the expiry of the entry as it was, so the
  wait lasts as long as the document is fresh.\<close>

theorem fetch_right_recovered:
  assumes "cache_inv ctx" and "cache_step e ctx = (r, ctx1)" and "grants e r h" and "cache_map ctx1 h = Some n"
    and "limit = max (cn_expires_at n) (event_time e + CACHE_FETCH_TIMEOUT)"
    and "cache_run es ctx1 = (rs, ctx2)" and "list_all (left_to_holder h limit) es"
  shows "(grants (Lookup_for pool h now) (fst (cache_step (Lookup_for pool h now) ctx2)) h \<longleftrightarrow> limit \<le> now) \<and>
    \<not> grants (Claim_rotation h now retry_ttl) (fst (cache_step (Claim_rotation h now retry_ttl) ctx2)) h \<and>
    (\<forall>pool0 t. e = Lookup_for pool0 h t \<and> 0 \<le> t \<longrightarrow> limit = t + CACHE_FETCH_TIMEOUT) \<and>
    (\<forall>t ttl. e = Claim_rotation h t ttl \<longrightarrow> (\<exists>n0. cache_map ctx h = Some n0 \<and> cn_expires_at n = cn_expires_at n0))"
proof -
  from step_refines [OF assms(1,2)] have z: "cache_inv ctx1" "zone_step (zone_of ctx) e r (zone_of ctx1)" by blast+
  from grants_held [OF z(2) assms(3)] obtain x where x: "held h (event_time e) x (zone_of ctx1)"
    "\<forall>pool now. e = Lookup_for pool h now \<longrightarrow> x \<le> now \<or> fst (zone_of ctx) h = None \<and> x = 0" by blast
  then have n: "x = cn_expires_at n" using assms(4) by (auto simp: held_def zone_of_def)
  have "held h (event_time e) x (zone_of ctx2)" "cache_inv ctx2"
    using cache_zone.run_left [OF z(1) x(1)] cache_zone.run_inv [OF z(1)] assms(5-7) n by (simp_all add: cache_run_eq)
  note later = cache_zone.held_next [OF this(2,1)]
  have lookup: "limit = t + CACHE_FETCH_TIMEOUT" if "e = Lookup_for pool0 h t" "0 \<le> t" for pool0 t
    using x(2) that n assms(5) by (auto simp: CACHE_FETCH_TIMEOUT_def)
  have "\<exists>n0. cache_map ctx h = Some n0 \<and> cn_expires_at n = cn_expires_at n0" if "e = Claim_rotation h t ttl" for t ttl
  proof -
    have "r = Claimed_rotation True" using assms(3) that by (cases r) auto
    with rotation_expiry [of "zone_of ctx" h t ttl "zone_of ctx1"] z(2) that assms(4) show ?thesis by (auto simp: zone_of_def)
  qed
  with later lookup n assms(5) show ?thesis by auto
qed

definition rotating_events :: "cache_event list" where
  "rotating_events = [Lookup_for [] ''a'' 5, Store_for ''a'' ''doc1'' 1000 10 6]"

theorem fetch_right_recovered_witness:
  "\<exists>ctx1 rs ctx2. cache_step (Claim_rotation ''a'' 10 60) (snd (cache_run rotating_events small_zone)) = (Claimed_rotation True, ctx1) \<and>
    cache_run [Lookup_for [] ''a'' 900, Claim_rotation ''a'' 900 60, Lookup_for [] ''b'' 950] ctx1 = (rs, ctx2) \<and>
    grants (Lookup_for [] ''a'' 1000) (fst (cache_step (Lookup_for [] ''a'' 1000) ctx2)) ''a'' \<and>
    \<not> grants (Claim_rotation ''a'' 999 60) (fst (cache_step (Claim_rotation ''a'' 999 60) ctx2)) ''a''"
proof -
  let ?c = "snd (cache_run rotating_events small_zone)" and ?es = "[Lookup_for [] ''a'' 900, Claim_rotation ''a'' 900 60, Lookup_for [] ''b'' 950]"
  have inv: "cache_inv ?c"
    using cache_zone.run_inv [OF cache_init(1) [OF small_zone_init], of rotating_events "fst (cache_run rotating_events small_zone)" ?c]
    by (simp add: cache_run_eq)
  have "fst (cache_step (Claim_rotation ''a'' 10 60) ?c) = Claimed_rotation True" by code_simp
  then obtain ctx1 where s: "cache_step (Claim_rotation ''a'' 10 60) ?c = (Claimed_rotation True, ctx1)" by (metis prod.collapse)
  have "map_option cn_expires_at (cache_map (snd (cache_step (Claim_rotation ''a'' 10 60) ?c)) ''a'') = Some 1000" by code_simp
  then obtain n where n: "cache_map ctx1 ''a'' = Some n" "cn_expires_at n = 1000" using s by auto
  obtain rs ctx2 where r: "cache_run ?es ctx1 = (rs, ctx2)" by fastforce
  have g: "grants (Claim_rotation ''a'' 10 60) (Claimed_rotation True) ''a''" by simp
  have l: "1000 = max (cn_expires_at n) (event_time (Claim_rotation ''a'' 10 60) + CACHE_FETCH_TIMEOUT)"
    using n(2) by (simp add: CACHE_FETCH_TIMEOUT_def)
  have "list_all (left_to_holder ''a'' 1000) ?es" by simp
  from fetch_right_recovered [OF inv s g n(1) l r this, of "[]" 1000 60] fetch_right_recovered [OF inv s g n(1) l r this, of "[]" 999 60] s r
  show ?thesis by (simp del: grants.simps cache_step.simps)
qed

text \<open>A document is never lost to a failure: across every operation, failed stores and releases included, a host
  keeps its document with its generation, unless a successful store for this very host replaces it, or its
  entry is evicted, which happens only to entries that are expired and not being fetched.\<close>

lemma documents_kept:
  assumes "cache_inv ctx" and "cache_step e ctx = (r, ctx')" and "cache_map ctx h = Some n"
  shows "(\<exists>n'. cache_map ctx' h = Some n' \<and>
      (cn_jwks n' = cn_jwks n \<and> cn_generation n' = cn_generation n \<or> (\<exists>jwks. (h, jwks) \<in> set (logged e r)))) \<or>
    cache_map ctx' h = None \<and> \<not> cn_fetching n \<and> cn_expires_at n \<le> event_time e"
  using zone_step_keeps [OF conjunct2 [OF step_refines [OF assms(1,2)]], of h n] assms(3) by (simp add: zone_of_def)

lemma documents_kept_example:
  "\<exists>n. cache_map (snd (cache_run busy_events small_zone)) ''a'' = Some n \<and>
    (\<exists>n'. cache_map (snd (cache_step (Release_for ''a'' 205) (snd (cache_run busy_events small_zone)))) ''a'' = Some n' \<and>
      cn_jwks n' = cn_jwks n)"
proof -
  let ?c = "snd (cache_run busy_events small_zone)"
  have inv: "cache_inv ?c"
    using cache_zone.run_inv [OF cache_init(1) [OF small_zone_init], of busy_events "fst (cache_run busy_events small_zone)" ?c]
    by (simp add: cache_run_eq)
  have "map_option cn_fetching (cache_map ?c ''a'') = Some True" by code_simp
  then obtain n where n: "cache_map ?c ''a'' = Some n" "cn_fetching n" by auto
  have "cache_step (Release_for ''a'' 205) ?c = (Released, cache_release ?c ''a'' 205)" by simp
  from documents_kept [OF inv this n(1)] n show ?thesis by auto
qed

text \<open>Rotation refetches are rate limited: as long as the entry stays, two refetches of a host forced by unknown
  keyids are at least \<open>retry_ttl\<close> seconds apart.\<close>

lemma rotation_rate_limited:
  assumes "cache_inv ctx" and "cache_claim_rotation_refetch ctx h t ttl0 = (True, ctx1)" and "0 < t"
    and "cache_run es ctx1 = (rs, ctx2)" and "cache_zone.stays h es ctx1" and "\<forall>e\<in>set es. t \<le> event_time e"
    and "now < t + retry_ttl"
  shows "cache_claim_rotation_refetch ctx2 h now retry_ttl = (False, ctx2)"
proof -
  from rotation_refines [OF assms(1,2)] have z: "cache_inv ctx1"
    "zone_step (zone_of ctx) (Claim_rotation h t ttl0) (Claimed_rotation True) (zone_of ctx1)" by blast+
  from z(2) obtain n where n: "fst (zone_of ctx1) h = Some n" "t \<le> cn_forced_refetch_at n"
    by (elim rotation_stepE) auto
  from cache_zone.run_forced [OF z(1) n assms(5)] assms(4,6) obtain n' where
    n': "cache_map ctx2 h = Some n'" "t \<le> cn_forced_refetch_at n'"
    unfolding cache_run_eq by (auto simp: zone_of_def)
  with assms(3,7) show ?thesis by (auto simp: cache_claim_rotation_refetch_def cache_map_def)
qed

lemma rotation_rate_limited_example:
  "\<exists>ctx1. cache_claim_rotation_refetch (snd (cache_run (butlast busy_events) small_zone)) ''a'' 20 60 = (True, ctx1) \<and>
    (\<exists>rs ctx2. cache_run [Release_for ''a'' 30] ctx1 = (rs, ctx2) \<and>
      cache_claim_rotation_refetch ctx2 ''a'' 79 60 = (False, ctx2))"
proof -
  let ?c = "snd (cache_run (butlast busy_events) small_zone)"
  have inv: "cache_inv ?c"
    using cache_zone.run_inv [OF cache_init(1) [OF small_zone_init], of "butlast busy_events" "fst (cache_run (butlast busy_events) small_zone)" ?c]
    by (simp add: cache_run_eq)
  have "fst (cache_claim_rotation_refetch ?c ''a'' 20 60)" by code_simp
  then obtain ctx1 where c: "cache_claim_rotation_refetch ?c ''a'' 20 60 = (True, ctx1)" by (metis prod.collapse)
  obtain rs ctx2 where r: "cache_run [Release_for ''a'' 30] ctx1 = (rs, ctx2)" by fastforce
  have "ctx1 = snd (cache_claim_rotation_refetch ?c ''a'' 20 60)" using c by simp
  moreover have "map_option cn_host (cache_map (snd (cache_claim_rotation_refetch ?c ''a'' 20 60)) ''a'') = Some ''a''"
    "map_option cn_host (cache_map (cache_release (snd (cache_claim_rotation_refetch ?c ''a'' 20 60)) ''a'' 30) ''a'') = Some ''a''"
    by code_simp+
  ultimately have "cache_zone.stays ''a'' [Release_for ''a'' 30] ctx1" by (auto simp: zone_of_def)
  with rotation_rate_limited [OF inv c _ r, of 79 60] c r show ?thesis by auto
qed

end
