(* ===== verification/Nonce_Store.thy ===== *)
theory Nonce_Store
  imports Zone
begin

text \<open>
  The shared-memory nonce store (\<open>src/ngx_auth_httpsig_nonce_store.h\<close>,
  \<open>src/ngx_auth_httpsig_nonce_store.c\<close>), which tells a replayed signature from a new one.

  A node is in two trees, one ordered by key and one by expiry.  Its content stands for the pointer to it,
  so a write to a node is a write in every tree it is in.  The check runs under the zone's mutex.
  The keys of the expiry tree have the width of \<open>ngx_rbtree_key_t\<close> and are compared by the sign of their
  wrapped difference, as \<open>ngx_rbtree_insert_timer_value\<close> does.
\<close>

section \<open>Data\<close>

definition NONCE_MAX_LEN :: nat where "NONCE_MAX_LEN = 256"

definition NONCE_KEY_PREFIX :: string where "NONCE_KEY_PREFIX = ''auth_httpsig:nonce:''"

definition NONCE_STORE_NOMEM_LOG_INTERVAL :: int where "NONCE_STORE_NOMEM_LOG_INTERVAL = 60"

definition NONCE_STORE_RECLAIM_BATCH :: nat where "NONCE_STORE_RECLAIM_BATCH = 2"

record nonce_node =
  nn_key :: "32 word"
  nn_exp_key :: "64 word"
  nn_nonce_key :: bytes
  nn_expires_at :: int

record nonce_ctx =
  ns_rbtree :: "nonce_node rbtree"
  ns_exp_rbtree :: "nonce_node rbtree"
  ns_last_nomem_log :: int
  ns_shpool :: pool

datatype nonce_rc = NONCE_OK | NONCE_DECLINED | NONCE_ABORT | NONCE_ERROR

definition nonce_init_zone :: "nonce_ctx option \<Rightarrow> nonce_ctx option \<Rightarrow> pool \<Rightarrow> nonce_ctx option" where
  "nonce_init_zone octx existing shpool =
     (case octx of
        Some ctx \<Rightarrow> Some ctx
      | None \<Rightarrow>
          (case existing of
             Some ctx \<Rightarrow> Some ctx
           | None \<Rightarrow>
               (case palloc shpool of
                  (False, shpool) \<Rightarrow> None
                | (True, shpool) \<Rightarrow>
                    (case palloc shpool of
                       (False, shpool) \<Rightarrow> None
                     | (True, shpool) \<Rightarrow>
                         Some \<lparr>ns_rbtree = Sentinel, ns_exp_rbtree = Sentinel, ns_last_nomem_log = 0, ns_shpool = shpool\<rparr>))))"

section \<open>The trees\<close>

definition nonce_insert_left :: "nonce_node \<Rightarrow> nonce_node \<Rightarrow> bool" where
  "nonce_insert_left node temp =
     (if nn_key node < nn_key temp then True
      else if nn_key temp < nn_key node then False
      else ngx_memn2cmp (nn_nonce_key node) (nn_nonce_key temp) < 0)"

definition timer_insert_left :: "nonce_node \<Rightarrow> nonce_node \<Rightarrow> bool" where
  "timer_insert_left node temp \<longleftrightarrow> sint (nn_exp_key node - nn_exp_key temp) < 0"

fun nonce_find :: "32 word \<Rightarrow> bytes \<Rightarrow> nonce_node rbtree \<Rightarrow> nonce_node option" where
  "nonce_find hash key Sentinel = None"
| "nonce_find hash key (Node l c cn r) =
     (if hash \<noteq> nn_key cn then (if hash < nn_key cn then nonce_find hash key l else nonce_find hash key r)
      else
        let rc = ngx_memn2cmp key (nn_nonce_key cn) in
        if rc = 0 then Some cn
        else if rc < 0 then nonce_find hash key l else nonce_find hash key r)"

section \<open>The check\<close>

text \<open>At most \<open>k\<close> more turns; the result counts the nodes freed.\<close>

fun reclaim_loop :: "nat \<Rightarrow> nat \<Rightarrow> nonce_ctx \<Rightarrow> int \<Rightarrow> nat \<times> nonce_ctx" where
  "reclaim_loop 0 n ctx now = (n, ctx)"
| "reclaim_loop (Suc k) n ctx now =
     (case ngx_rbtree_min (ns_exp_rbtree ctx) of
        None \<Rightarrow> (n, ctx)
      | Some cn \<Rightarrow>
          if now \<le> nn_expires_at cn then (n, ctx)
          else reclaim_loop k (n + 1)
            (ctx\<lparr>ns_exp_rbtree := ngx_rbtree_delete cn (ns_exp_rbtree ctx),
                 ns_rbtree := ngx_rbtree_delete cn (ns_rbtree ctx)\<rparr>) now)"

definition nonce_reclaim :: "nonce_ctx \<Rightarrow> int \<Rightarrow> nat \<times> nonce_ctx" where
  "nonce_reclaim ctx now = reclaim_loop NONCE_STORE_RECLAIM_BATCH 0 ctx now"

definition nonce_node_new :: "32 word \<Rightarrow> bytes \<Rightarrow> int \<Rightarrow> nonce_node" where
  "nonce_node_new hash key expires_at =
     \<lparr>nn_key = hash, nn_exp_key = word_of_int expires_at, nn_nonce_key = key, nn_expires_at = expires_at\<rparr>"

text \<open>A found but expired node gets a new expiry where it is.\<close>

definition nonce_renew :: "nonce_node \<Rightarrow> int \<Rightarrow> nonce_ctx \<Rightarrow> nonce_ctx" where
  "nonce_renew cn expires_at ctx =
     (let cn' = cn\<lparr>nn_expires_at := expires_at, nn_exp_key := word_of_int expires_at\<rparr>
      in ctx\<lparr>ns_exp_rbtree := ngx_rbtree_insert timer_insert_left cn' (ngx_rbtree_delete cn (ns_exp_rbtree ctx)),
             ns_rbtree := rb_write cn cn' (ns_rbtree ctx)\<rparr>)"

definition nonce_insert :: "nonce_node \<Rightarrow> nonce_ctx \<Rightarrow> nonce_ctx" where
  "nonce_insert cn ctx =
     ctx\<lparr>ns_rbtree := ngx_rbtree_insert nonce_insert_left cn (ns_rbtree ctx),
         ns_exp_rbtree := ngx_rbtree_insert timer_insert_left cn (ns_exp_rbtree ctx)\<rparr>"

definition nonce_alloc :: "nonce_ctx \<Rightarrow> bool \<times> nonce_ctx" where
  "nonce_alloc ctx = (case palloc (ns_shpool ctx) of (ok, shpool) \<Rightarrow> (ok, ctx\<lparr>ns_shpool := shpool\<rparr>))"

definition shm_check :: "nonce_ctx \<Rightarrow> bytes \<Rightarrow> int \<Rightarrow> int \<Rightarrow> nonce_rc \<times> nonce_ctx" where
  "shm_check ctx key ttl now =
     (if ttl < 1 then (NONCE_ERROR, ctx)
      else
        let hash = ngx_crc32_long key in
        case nonce_find hash key (ns_rbtree ctx) of
          Some cn \<Rightarrow>
            if now \<le> nn_expires_at cn then (NONCE_DECLINED, ctx)
            else (NONCE_OK, nonce_renew cn (now + ttl) ctx)
        | None \<Rightarrow>
            (case nonce_alloc (snd (nonce_reclaim ctx now)) of
               (True, ctx) \<Rightarrow> (NONCE_OK, nonce_insert (nonce_node_new hash key (now + ttl)) ctx)
             | (False, ctx) \<Rightarrow>
                 (case nonce_reclaim ctx now of
                    (freed, ctx) \<Rightarrow>
                      (case if 0 < freed then nonce_alloc ctx else (False, ctx) of
                         (True, ctx) \<Rightarrow> (NONCE_OK, nonce_insert (nonce_node_new hash key (now + ttl)) ctx)
                       | (False, ctx) \<Rightarrow>
                           (NONCE_ABORT,
                            if NONCE_STORE_NOMEM_LOG_INTERVAL \<le> now - ns_last_nomem_log ctx
                            then ctx\<lparr>ns_last_nomem_log := now\<rparr> else ctx)))))"

section \<open>Keys and lifetimes\<close>

definition nonce_store_key :: "bytes \<Rightarrow> bytes \<Rightarrow> bytes \<Rightarrow> pool \<Rightarrow> bytes option \<times> pool" where
  "nonce_store_key agent_host keyid nonce pool =
     (case palloc pool of
        (False, pool) \<Rightarrow> (None, pool)
      | (True, pool) \<Rightarrow> (Some (NONCE_KEY_PREFIX @ agent_host @ CHR 0x00 # keyid @ CHR 0x00 # nonce), pool))"

definition nonce_store_ttl :: "int \<Rightarrow> int \<Rightarrow> int \<Rightarrow> int" where
  "nonce_store_ttl expires max_skew now =
     (let ttl = expires + max_skew - now in if ttl < 1 then 1 else ttl)"

end
