(* ===== verification/Nonce_Props.thy ===== *)
theory Nonce_Props
  imports Nonce_Store
begin

text \<open>
  The shared-memory nonce store as a map from keys to expiries: its two trees stay in step, only expired
  nodes are ever dropped, a recorded key is a replay until it has expired, and the number of nodes is
  at most one more than the keys that were ever alive together.
\<close>

section \<open>The two trees\<close>

definition nonce_node_key :: "nonce_node \<Rightarrow> zone_key" where
  "nonce_node_key cn = (nn_key cn, nn_nonce_key cn)"

lemma nonce_find_Node:
  "nonce_find (fst k) (snd k) (Node l c cn r) =
     (if nonce_node_key cn = k then Some cn
      else if zone_lt k (nonce_node_key cn) then nonce_find (fst k) (snd k) l else nonce_find (fst k) (snd k) r)"
  by (cases k) (auto simp: nonce_node_key_def Let_def not_less antisym_conv)

interpretation nonce_tree: ordered_tree nonce_insert_left nonce_node_key zone_lt "\<lambda>k. nonce_find (fst k) (snd k)"
proof unfold_locales
  show "nonce_insert_left x y = zone_lt (nonce_node_key x) (nonce_node_key y)" for x y
    by (simp add: nonce_insert_left_def nonce_node_key_def)
  show "nonce_find (fst k) (snd k) Sentinel = None" for k by simp
  show "nonce_find (fst k) (snd k) (Node l c cn r) =
     (if nonce_node_key cn = k then Some cn
      else if zone_lt k (nonce_node_key cn) then nonce_find (fst k) (snd k) l else nonce_find (fst k) (snd k) r)" for k l c cn r
    by (rule nonce_find_Node)
qed (rule zone_order; assumption?)+

text \<open>Times are far from the ends of \<open>time_t\<close>, so the wrapped comparison is the real one.\<close>

definition time_ok :: "int \<Rightarrow> bool" where
  "time_ok t \<longleftrightarrow> 0 \<le> t \<and> t < 2 ^ 62"

definition node_ok :: "nonce_node \<Rightarrow> bool" where
  "node_ok cn \<longleftrightarrow> nn_key cn = ngx_crc32_long (nn_nonce_key cn) \<and> nn_exp_key cn = word_of_int (nn_expires_at cn) \<and>
     time_ok (nn_expires_at cn)"

lemma timer_difference:
  assumes "time_ok a" and "time_ok b"
  shows "sint (word_of_int a - word_of_int b :: 64 word) = a - b"
proof -
  have eq: "word_of_int a - word_of_int b = (word_of_int (a - b) :: 64 word)" by simp
  show ?thesis
    unfolding eq sint_sbintrunc' by (rule signed_take_bit_int_eq_self) (use assms in \<open>simp_all add: time_ok_def\<close>)
qed

lemma timer_insert_left_iff: "node_ok x \<Longrightarrow> node_ok y \<Longrightarrow> timer_insert_left x y \<longleftrightarrow> nn_expires_at x < nn_expires_at y"
  by (simp add: timer_insert_left_def node_ok_def timer_difference)

definition exp_tree :: "nonce_node rbtree \<Rightarrow> bool" where
  "exp_tree t \<longleftrightarrow> sorted (map nn_expires_at (inorder t)) \<and> distinct (inorder t)"

lemma exp_tree_delete:
  assumes "exp_tree t" and "x \<in> set_rbtree t"
  shows "exp_tree (ngx_rbtree_delete x t)" and "set_rbtree (ngx_rbtree_delete x t) = set_rbtree t - {x}"
proof -
  from inorder_delete [OF assms(2)] obtain us vs where
    io: "inorder t = us @ x # vs" "inorder (ngx_rbtree_delete x t) = us @ vs" .
  show "exp_tree (ngx_rbtree_delete x t)"
    using assms(1) unfolding exp_tree_def io by (auto simp: sorted_append)
  show "set_rbtree (ngx_rbtree_delete x t) = set_rbtree t - {x}"
    using assms(1) unfolding exp_tree_def set_inorder [symmetric] io by auto
qed

lemma exp_tree_insert:
  assumes "exp_tree t" and "x \<notin> set_rbtree t" and "node_ok x" and "\<forall>y\<in>set_rbtree t. node_ok y"
  shows "exp_tree (ngx_rbtree_insert timer_insert_left x t)"
    and "set_rbtree (ngx_rbtree_insert timer_insert_left x t) = insert x (set_rbtree t)"
proof -
  let ?P = "\<lambda>y. \<not> timer_insert_left x y" and ?e = nn_expires_at
  have lt: "timer_insert_left x y \<longleftrightarrow> ?e x < ?e y" if "y \<in> set (inorder t)" for y
    using timer_insert_left_iff [OF assms(3)] assms(4) that by simp
  have so: "sorted_wrt (\<lambda>x y. ?e x \<le> ?e y) (inorder t)" using assms(1) by (simp add: exp_tree_def sorted_map)
  have "splits_at timer_insert_left x (inorder t)"
    unfolding splits_at_def by (rule sorted_wrt_mono_rel [OF _ so]) (use lt in auto)
  note ins = inorder_insert [OF this]
  define lo hi where "lo = takeWhile ?P (inorder t)" and "hi = dropWhile ?P (inorder t)"
  have t: "lo @ hi = inorder t" by (simp add: lo_def hi_def)
  have lo: "\<forall>y\<in>set lo. ?e y \<le> ?e x"
  proof
    fix y assume "y \<in> set lo"
    then have "y \<in> set (inorder t)" "?P y" unfolding lo_def using set_takeWhileD by fast+
    then show "?e y \<le> ?e x" using lt by fastforce
  qed
  have hi: "\<forall>y\<in>set hi. ?e x \<le> ?e y"
  proof (cases hi)
    case (Cons z zs)
    have "z \<in> set (lo @ hi)" using Cons by simp
    then have "z \<in> set (inorder t)" unfolding t .
    moreover have "\<not> ?P z" using hd_dropWhile [of ?P "inorder t"] Cons unfolding hi_def by (metis list.discI list.sel(1))
    ultimately have "?e x < ?e z" using lt by simp
    moreover have "\<forall>y\<in>set zs. ?e z \<le> ?e y"
      using so unfolding t [symmetric] Cons by (simp add: sorted_wrt_append)
    ultimately show ?thesis using Cons by auto
  qed simp
  have "set (lo @ hi) = set_rbtree t" unfolding t by simp
  moreover have "distinct (lo @ hi)" using assms(1) unfolding t exp_tree_def by simp
  moreover have "inorder (ngx_rbtree_insert timer_insert_left x t) = lo @ x # hi" using ins by (simp only: lo_def hi_def)
  moreover have "sorted_wrt (\<lambda>x y. ?e x \<le> ?e y) (lo @ x # hi)"
    using lo hi so unfolding t [symmetric] by (simp add: sorted_wrt_append)
  moreover have "distinct (lo @ x # hi)" "set (lo @ x # hi) = insert x (set_rbtree t)"
    using calculation(1,2) assms(2) by auto
  ultimately show "exp_tree (ngx_rbtree_insert timer_insert_left x t)"
    "set_rbtree (ngx_rbtree_insert timer_insert_left x t) = insert x (set_rbtree t)"
    unfolding exp_tree_def sorted_map set_inorder [of "ngx_rbtree_insert timer_insert_left x t", symmetric] by simp_all
qed

text \<open>The invariant: the same nodes in both trees, each under its hash and its expiry.\<close>

definition nonce_inv :: "nonce_ctx \<Rightarrow> bool" where
  "nonce_inv ctx \<longleftrightarrow> nonce_tree.search_tree (ns_rbtree ctx) \<and> exp_tree (ns_exp_rbtree ctx) \<and>
     set_rbtree (ns_exp_rbtree ctx) = set_rbtree (ns_rbtree ctx) \<and> (\<forall>cn\<in>set_rbtree (ns_rbtree ctx). node_ok cn)"

definition nonce_map :: "nonce_ctx \<Rightarrow> bytes \<Rightarrow> int option" where
  "nonce_map ctx key = map_option nn_expires_at (nonce_find (ngx_crc32_long key) key (ns_rbtree ctx))"

abbreviation nonce_nodes :: "nonce_ctx \<Rightarrow> nonce_node set" where
  "nonce_nodes ctx \<equiv> set_rbtree (ns_rbtree ctx)"

lemma hashed_long: "hashed s = (ngx_crc32_long s, s)"
  by (simp add: hashed_def ngx_crc32_short_def)

lemma nonce_find_Some:
  assumes "nonce_inv ctx"
  shows "nonce_find (ngx_crc32_long key) key (ns_rbtree ctx) = Some cn \<longleftrightarrow> cn \<in> nonce_nodes ctx \<and> nn_nonce_key cn = key"
  using nonce_tree.lookup_Some [of "ns_rbtree ctx" "hashed key" cn] assms
  by (auto simp: nonce_inv_def node_ok_def nonce_node_key_def hashed_long)

lemma nonce_find_None:
  assumes "nonce_inv ctx"
  shows "nonce_find (ngx_crc32_long key) key (ns_rbtree ctx) = None \<longleftrightarrow> (\<forall>cn\<in>nonce_nodes ctx. nn_nonce_key cn \<noteq> key)"
  using nonce_find_Some [OF assms, of key] by (metis not_None_eq)

lemma nonce_map_Some:
  assumes "nonce_inv ctx"
  shows "nonce_map ctx key = Some x \<longleftrightarrow> (\<exists>cn\<in>nonce_nodes ctx. nn_nonce_key cn = key \<and> nn_expires_at cn = x)"
  using nonce_find_Some [OF assms, of key] by (auto simp: nonce_map_def)

lemma nonce_nodes_inj: "nonce_inv ctx \<Longrightarrow> x \<in> nonce_nodes ctx \<Longrightarrow> y \<in> nonce_nodes ctx \<Longrightarrow> nn_nonce_key x = nn_nonce_key y \<Longrightarrow> x = y"
  using nonce_tree.key_inj [of "ns_rbtree ctx" x y] by (simp add: nonce_inv_def node_ok_def nonce_node_key_def)

lemma nonce_inv_pool [simp]:
  "nonce_inv (ctx\<lparr>ns_shpool := p\<rparr>) = nonce_inv ctx" "nonce_inv (ctx\<lparr>ns_last_nomem_log := t\<rparr>) = nonce_inv ctx"
  "nonce_map (ctx\<lparr>ns_shpool := p\<rparr>) = nonce_map ctx" "nonce_map (ctx\<lparr>ns_last_nomem_log := t\<rparr>) = nonce_map ctx"
  by (simp_all add: nonce_inv_def nonce_map_def fun_eq_iff)

lemma nonce_delete:
  assumes "nonce_inv ctx" and "cn \<in> nonce_nodes ctx"
    and "ctx' = ctx\<lparr>ns_exp_rbtree := ngx_rbtree_delete cn (ns_exp_rbtree ctx), ns_rbtree := ngx_rbtree_delete cn (ns_rbtree ctx)\<rparr>"
  shows "nonce_inv ctx'" and "nonce_nodes ctx' = nonce_nodes ctx - {cn}"
proof -
  have i: "nonce_tree.search_tree (ns_rbtree ctx)" "exp_tree (ns_exp_rbtree ctx)" "cn \<in> set_rbtree (ns_exp_rbtree ctx)"
    using assms(1,2) by (simp_all add: nonce_inv_def)
  show "nonce_inv ctx'" "nonce_nodes ctx' = nonce_nodes ctx - {cn}"
    using assms(1) nonce_tree.delete_spec [OF i(1) assms(2)] exp_tree_delete [OF i(2,3)]
    by (simp_all add: assms(3) nonce_inv_def)
qed

lemma nonce_insert_spec:
  assumes "nonce_inv ctx" and "nonce_map ctx key = None" and "time_ok x"
    and "ctx' = nonce_insert (nonce_node_new (ngx_crc32_long key) key x) ctx"
  shows "nonce_inv ctx'" and "nonce_nodes ctx' = insert (nonce_node_new (ngx_crc32_long key) key x) (nonce_nodes ctx)"
proof -
  let ?n = "nonce_node_new (ngx_crc32_long key) key x"
  have ok: "node_ok ?n" using assms(3) by (simp add: node_ok_def nonce_node_new_def)
  have none: "\<forall>cn\<in>nonce_nodes ctx. nn_nonce_key cn \<noteq> key"
    using assms(2) nonce_find_None [OF assms(1), of key] by (simp add: nonce_map_def)
  have fresh: "\<forall>y\<in>nonce_nodes ctx. nonce_node_key y \<noteq> nonce_node_key ?n" "?n \<notin> nonce_nodes ctx"
    using none by (auto simp: nonce_node_key_def nonce_node_new_def)
  have i: "nonce_tree.search_tree (ns_rbtree ctx)" "exp_tree (ns_exp_rbtree ctx)" "?n \<notin> set_rbtree (ns_exp_rbtree ctx)"
    "\<forall>y\<in>set_rbtree (ns_exp_rbtree ctx). node_ok y"
    using assms(1) fresh(2) by (simp_all add: nonce_inv_def)
  show "nonce_inv ctx'" "nonce_nodes ctx' = insert ?n (nonce_nodes ctx)"
    using assms(1) ok nonce_tree.insert_spec [OF i(1) fresh(1)] exp_tree_insert [OF i(2,3) ok i(4)]
    by (simp_all add: assms(4) nonce_inv_def nonce_insert_def)
qed

lemma nonce_renew_spec:
  assumes "nonce_inv ctx" and "cn \<in> nonce_nodes ctx" and "time_ok x" and "nn_expires_at cn \<noteq> x" and "ctx' = nonce_renew cn x ctx"
  shows "nonce_inv ctx'"
    and "nonce_nodes ctx' = insert (cn\<lparr>nn_expires_at := x, nn_exp_key := word_of_int x\<rparr>) (nonce_nodes ctx - {cn})"
proof -
  let ?n = "cn\<lparr>nn_expires_at := x, nn_exp_key := word_of_int x\<rparr>"
  have i: "nonce_tree.search_tree (ns_rbtree ctx)" "exp_tree (ns_exp_rbtree ctx)" "cn \<in> set_rbtree (ns_exp_rbtree ctx)"
    "node_ok cn" "nonce_node_key ?n = nonce_node_key cn"
    using assms(1,2) by (simp_all add: nonce_inv_def nonce_node_key_def)
  have ok: "node_ok ?n" using i(4) assms(3) by (simp add: node_ok_def)
  note d = exp_tree_delete [OF i(2,3)]
  have "?n \<notin> nonce_nodes ctx"
  proof
    assume "?n \<in> nonce_nodes ctx"
    from nonce_nodes_inj [OF assms(1,2) this] have "nn_expires_at cn = nn_expires_at ?n" by simp
    with assms(4) show False by simp
  qed
  then have n: "?n \<notin> set_rbtree (ngx_rbtree_delete cn (ns_exp_rbtree ctx))"
    "\<forall>y\<in>set_rbtree (ngx_rbtree_delete cn (ns_exp_rbtree ctx)). node_ok y"
    using assms(1) by (simp_all add: d(2) nonce_inv_def)
  show "nonce_inv ctx'" "nonce_nodes ctx' = insert ?n (nonce_nodes ctx - {cn})"
    using assms(1) ok d(2) nonce_tree.write_spec [OF i(1) assms(2) i(5)] exp_tree_insert [OF d(1) n(1) ok n(2)]
    by (simp_all add: assms(5) nonce_inv_def nonce_renew_def Let_def)
qed

section \<open>Reclaiming\<close>

definition expired :: "int \<Rightarrow> nonce_ctx \<Rightarrow> nonce_node set" where
  "expired now ctx = {cn \<in> nonce_nodes ctx. nn_expires_at cn < now}"

lemma finite_nodes [simp]: "finite (nonce_nodes ctx)" "finite (expired now ctx)"
  by (simp_all add: expired_def flip: set_inorder)

lemma exp_min:
  assumes "nonce_inv ctx"
  shows "ngx_rbtree_min (ns_exp_rbtree ctx) = None \<Longrightarrow> nonce_nodes ctx = {}"
    and "ngx_rbtree_min (ns_exp_rbtree ctx) = Some cn \<Longrightarrow>
      cn \<in> nonce_nodes ctx \<and> (\<forall>y\<in>nonce_nodes ctx. nn_expires_at cn \<le> nn_expires_at y)"
proof -
  have n: "nonce_nodes ctx = set (inorder (ns_exp_rbtree ctx))" "sorted (map nn_expires_at (inorder (ns_exp_rbtree ctx)))"
    using assms by (simp_all add: nonce_inv_def exp_tree_def)
  show "nonce_nodes ctx = {}" if "ngx_rbtree_min (ns_exp_rbtree ctx) = None"
  proof -
    from that have "inorder (ns_exp_rbtree ctx) = []" unfolding ngx_rbtree_min_hd by (simp split: list.splits)
    then show ?thesis unfolding n(1) by (simp only: list.set)
  qed
  show "cn \<in> nonce_nodes ctx \<and> (\<forall>y\<in>nonce_nodes ctx. nn_expires_at cn \<le> nn_expires_at y)"
    if "ngx_rbtree_min (ns_exp_rbtree ctx) = Some cn"
  proof -
    from that obtain ys where "inorder (ns_exp_rbtree ctx) = cn # ys" unfolding ngx_rbtree_min_hd by (auto split: list.splits)
    with n show ?thesis by (simp del: set_inorder)
  qed
qed

text \<open>What a reclaim takes: the earliest of the expired nodes, as many as it may.\<close>

lemma reclaim_loop_spec:
  assumes "nonce_inv ctx" and "reclaim_loop k n ctx now = (n', ctx')"
  shows "nonce_inv ctx' \<and> n' = n + min k (card (expired now ctx)) \<and> ns_shpool ctx' = ns_shpool ctx \<and>
    (\<exists>E \<subseteq> expired now ctx. card E = min k (card (expired now ctx)) \<and> nonce_nodes ctx' = nonce_nodes ctx - E \<and>
       (\<forall>x\<in>E. \<forall>y\<in>nonce_nodes ctx'. nn_expires_at x \<le> nn_expires_at y))"
  using assms
proof (induction k n ctx now rule: reclaim_loop.induct)
  case (1 n ctx now)
  then show ?case by (intro conjI exI [of _ "{}"]) simp_all
next
  case (2 k n ctx now)
  show ?case
  proof (cases "ngx_rbtree_min (ns_exp_rbtree ctx)")
    case None
    from exp_min(1) [OF "2.prems"(1) None] have "expired now ctx = {}" by (simp add: expired_def)
    with None "2.prems" show ?thesis by simp
  next
    case (Some cn)
    from exp_min(2) [OF "2.prems"(1) Some] have cn: "cn \<in> nonce_nodes ctx" "\<forall>y\<in>nonce_nodes ctx. nn_expires_at cn \<le> nn_expires_at y"
      by blast+
    show ?thesis
    proof (cases "now \<le> nn_expires_at cn")
      case True
      with cn(2) have "expired now ctx = {}" by (fastforce simp: expired_def)
      with True Some "2.prems" show ?thesis by simp
    next
      case False
      let ?c = "ctx\<lparr>ns_exp_rbtree := ngx_rbtree_delete cn (ns_exp_rbtree ctx), ns_rbtree := ngx_rbtree_delete cn (ns_rbtree ctx)\<rparr>"
      note d = nonce_delete [OF "2.prems"(1) cn(1) refl]
      have e: "expired now ?c = expired now ctx - {cn}" "cn \<in> expired now ctx"
        using d(2) cn(1) False by (auto simp: expired_def)
      then have card: "card (expired now ctx) = Suc (card (expired now ?c))"
        by (metis card_Suc_Diff1 finite_nodes(2))
      have run: "reclaim_loop k (n + 1) ?c now = (n', ctx')" using "2.prems"(2) Some False by simp
      from "2.IH" [OF Some False d(1) run] obtain E where
        E: "nonce_inv ctx'" "n' = n + 1 + min k (card (expired now ?c))" "ns_shpool ctx' = ns_shpool ctx"
          "E \<subseteq> expired now ?c" "card E = min k (card (expired now ?c))" "nonce_nodes ctx' = nonce_nodes ?c - E"
          "\<forall>x\<in>E. \<forall>y\<in>nonce_nodes ctx'. nn_expires_at x \<le> nn_expires_at y" by auto
      have "finite E" "cn \<notin> E" using E(4) e(1) finite_subset [OF E(4)] by auto
      then have "card (insert cn E) = min (Suc k) (card (expired now ctx))" using E(5) card by simp
      moreover have "insert cn E \<subseteq> expired now ctx" "nonce_nodes ctx' = nonce_nodes ctx - insert cn E"
        using E(4,6) e d(2) by auto
      moreover have "\<forall>x\<in>insert cn E. \<forall>y\<in>nonce_nodes ctx'. nn_expires_at x \<le> nn_expires_at y"
        using E(7) cn(2) calculation(3) by auto
      ultimately show ?thesis using E(1-3) card by (intro conjI exI [of _ "insert cn E"]) simp_all
    qed
  qed
qed

section \<open>The check\<close>

text \<open>Keys may be forgotten only when they have expired.\<close>

definition forgets :: "int \<Rightarrow> (bytes \<rightharpoonup> int) \<Rightarrow> (bytes \<rightharpoonup> int) \<Rightarrow> bool" where
  "forgets now m m' \<longleftrightarrow> (\<forall>k. m' k = m k \<or> m' k = None \<and> (\<exists>x. m k = Some x \<and> x < now))"

lemma forgets_live:
  assumes "forgets now m m'" and "m k = Some x" and "now \<le> x"
  shows "m' k = Some x"
  using assms unfolding forgets_def by (metis leD option.inject)

lemma forgets_trans: "forgets now m m' \<Longrightarrow> forgets now m' m'' \<Longrightarrow> forgets now m m''"
  unfolding forgets_def by metis

lemma nonce_map_None: "nonce_inv ctx \<Longrightarrow> nonce_map ctx key = None \<longleftrightarrow> (\<forall>cn\<in>nonce_nodes ctx. nn_nonce_key cn \<noteq> key)"
  by (simp add: nonce_map_def nonce_find_None)

lemma forgets_nodes:
  assumes "nonce_inv ctx" and "nonce_inv ctx'" and "nonce_nodes ctx' = nonce_nodes ctx - E" and "E \<subseteq> expired now ctx"
  shows "forgets now (nonce_map ctx) (nonce_map ctx')"
  unfolding forgets_def
proof
  fix k
  show "nonce_map ctx' k = nonce_map ctx k \<or> nonce_map ctx' k = None \<and> (\<exists>x. nonce_map ctx k = Some x \<and> x < now)"
  proof (cases "\<exists>cn\<in>E. nn_nonce_key cn = k")
    case True
    then obtain cn where cn: "cn \<in> E" "nn_nonce_key cn = k" "cn \<in> nonce_nodes ctx" "nn_expires_at cn < now"
      using assms(4) by (auto simp: expired_def)
    have "nonce_map ctx' k = None"
      unfolding nonce_map_None [OF assms(2)] assms(3) using nonce_nodes_inj [OF assms(1) _ cn(3)] cn(1,2) by auto
    moreover have "nonce_map ctx k = Some (nn_expires_at cn)" unfolding nonce_map_Some [OF assms(1)] using cn by blast
    ultimately show ?thesis using cn(4) by simp
  next
    case False
    then have "nonce_map ctx' k = Some x \<longleftrightarrow> nonce_map ctx k = Some x" for x
      unfolding nonce_map_Some [OF assms(1)] nonce_map_Some [OF assms(2)] assms(3) by auto
    then show ?thesis by (metis option.exhaust)
  qed
qed

lemma reclaim_forgets:
  assumes "nonce_inv ctx" and "nonce_reclaim ctx now = (n, ctx')"
  shows "nonce_inv ctx'" and "forgets now (nonce_map ctx) (nonce_map ctx')" and "ns_shpool ctx' = ns_shpool ctx"
  using reclaim_loop_spec [OF assms(1) assms(2) [unfolded nonce_reclaim_def]] forgets_nodes [OF assms(1), of ctx'] by blast+

lemma map_insert:
  assumes "nonce_inv ctx" and "nonce_map ctx key = None" and "time_ok x"
    and "ctx' = nonce_insert (nonce_node_new (ngx_crc32_long key) key x) ctx"
  shows "nonce_inv ctx'" and "nonce_map ctx' = (nonce_map ctx)(key \<mapsto> x)"
proof -
  note sp = nonce_insert_spec [OF assms]
  show "nonce_inv ctx'" by (rule sp(1))
  have "nonce_map ctx' k = Some y \<longleftrightarrow> ((nonce_map ctx)(key \<mapsto> x)) k = Some y" for k y
    using assms(2) unfolding nonce_map_Some [OF sp(1)] sp(2)
    by (auto simp: nonce_node_new_def nonce_map_Some [OF assms(1)] nonce_map_None [OF assms(1)])
  then show "nonce_map ctx' = (nonce_map ctx)(key \<mapsto> x)" by (intro ext) (metis option.exhaust)
qed

lemma map_renew:
  assumes "nonce_inv ctx" and "cn \<in> nonce_nodes ctx" and "time_ok x" and "nn_expires_at cn \<noteq> x" and "ctx' = nonce_renew cn x ctx"
  shows "nonce_inv ctx'" and "nonce_map ctx' = (nonce_map ctx)(nn_nonce_key cn \<mapsto> x)"
proof -
  note sp = nonce_renew_spec [OF assms]
  show "nonce_inv ctx'" by (rule sp(1))
  have "nonce_map ctx' k = Some y \<longleftrightarrow> ((nonce_map ctx)(nn_nonce_key cn \<mapsto> x)) k = Some y" for k y
    using nonce_nodes_inj [OF assms(1) _ assms(2)] unfolding nonce_map_Some [OF sp(1)] sp(2) by (auto simp: nonce_map_Some [OF assms(1)])
  then show "nonce_map ctx' = (nonce_map ctx)(nn_nonce_key cn \<mapsto> x)" by (intro ext) (metis option.exhaust)
qed

text \<open>The specification of a check.\<close>

inductive nonce_step :: "(bytes \<rightharpoonup> int) \<Rightarrow> bytes \<Rightarrow> int \<Rightarrow> int \<Rightarrow> nonce_rc \<Rightarrow> (bytes \<rightharpoonup> int) \<Rightarrow> bool" where
  invalid: "ttl < 1 \<Longrightarrow> nonce_step m key ttl now NONCE_ERROR m"
| replay: "1 \<le> ttl \<Longrightarrow> m key = Some x \<Longrightarrow> now \<le> x \<Longrightarrow> nonce_step m key ttl now NONCE_DECLINED m"
| fresh: "1 \<le> ttl \<Longrightarrow> (\<And>x. m key = Some x \<Longrightarrow> x < now) \<Longrightarrow> forgets now m m' \<Longrightarrow>
    nonce_step m key ttl now NONCE_OK (m'(key \<mapsto> now + ttl))"
| full: "1 \<le> ttl \<Longrightarrow> m key = None \<Longrightarrow> forgets now m m' \<Longrightarrow> nonce_step m key ttl now NONCE_ABORT m'"

lemma nonce_alloc_map:
  "nonce_alloc ctx = (ok, ctx') \<Longrightarrow> nonce_inv ctx' = nonce_inv ctx \<and> nonce_map ctx' = nonce_map ctx \<and> (\<not> ok \<longrightarrow> ns_shpool ctx \<noteq> [])"
  by (auto simp: nonce_alloc_def dest: palloc_False split: prod.splits)

text \<open>A check of a key on record, and of a new one.\<close>

lemma known_key_refines:
  assumes "nonce_inv ctx" and "time_ok (now + ttl)" and "shm_check ctx key ttl now = (r, ctx')" and ttl: "\<not> ttl < 1"
    and Some: "nonce_find (ngx_crc32_long key) key (ns_rbtree ctx) = Some cn"
  shows "nonce_inv ctx' \<and> nonce_step (nonce_map ctx) key ttl now r (nonce_map ctx') \<and> (r = NONCE_ABORT \<longrightarrow> ns_shpool ctx \<noteq> [])"
proof -
  from Some have m: "nonce_map ctx key = Some (nn_expires_at cn)" by (simp add: nonce_map_def)
  from Some have cn: "cn \<in> nonce_nodes ctx" "nn_nonce_key cn = key" by (simp_all add: nonce_find_Some [OF assms(1)])
  show ?thesis
  proof (cases "now \<le> nn_expires_at cn")
    case True
    with assms ttl Some m show ?thesis by (auto simp: shm_check_def intro: nonce_step.replay)
  next
    case no: False
    with assms(3) ttl Some have r: "r = NONCE_OK" "ctx' = nonce_renew cn (now + ttl) ctx" by (auto simp: shm_check_def)
    have ne: "nn_expires_at cn \<noteq> now + ttl" using no ttl by simp
    note ren = map_renew [OF assms(1) cn(1) assms(2) ne r(2)]
    have "nonce_step (nonce_map ctx) key ttl now NONCE_OK ((nonce_map ctx)(key \<mapsto> now + ttl))"
      by (rule nonce_step.fresh) (use ttl m no in \<open>auto simp: forgets_def\<close>)
    with ren r(1) cn(2) show ?thesis by simp
  qed
qed

lemma new_key_recorded:
  assumes "nonce_inv c" and "forgets now m0 (nonce_map c)" and "m0 key = None" and "time_ok (now + ttl)" and "\<not> ttl < 1"
    and "c' = nonce_insert (nonce_node_new (ngx_crc32_long key) key (now + ttl)) c"
  shows "nonce_inv c' \<and> nonce_step m0 key ttl now NONCE_OK (nonce_map c')"
proof -
  have "nonce_map c key = None" using assms(2,3) unfolding forgets_def by metis
  note ins = map_insert [OF assms(1) this assms(4) assms(6)]
  have "nonce_step m0 key ttl now NONCE_OK ((nonce_map c)(key \<mapsto> now + ttl))"
    by (rule nonce_step.fresh) (use assms(2,3,5) in auto)
  with ins show ?thesis by simp
qed

lemma new_key_refines:
  assumes "nonce_inv ctx" and "time_ok (now + ttl)" and "shm_check ctx key ttl now = (r, ctx')" and ttl: "\<not> ttl < 1"
    and None: "nonce_find (ngx_crc32_long key) key (ns_rbtree ctx) = None"
  shows "nonce_inv ctx' \<and> nonce_step (nonce_map ctx) key ttl now r (nonce_map ctx') \<and> (r = NONCE_ABORT \<longrightarrow> ns_shpool ctx \<noteq> [])"
proof -
  from None have m: "nonce_map ctx key = None" by (simp add: nonce_map_def)
  obtain n1 c1 where r1: "nonce_reclaim ctx now = (n1, c1)" by fastforce
  note f1 = reclaim_forgets [OF assms(1) r1]
  have m1: "nonce_map c1 key = None" using f1(2) m unfolding forgets_def by metis
  obtain ok1 c2 where a1: "nonce_alloc c1 = (ok1, c2)" by fastforce
  note al1 = nonce_alloc_map [OF a1]
  let ?new = "nonce_insert (nonce_node_new (ngx_crc32_long key) key (now + ttl))"
  note ok = new_key_recorded [where ?m0.0 = "nonce_map ctx" and c' = ctx', OF _ _ m assms(2) ttl]
  show ?thesis
  proof (cases ok1)
    case True
    with assms(3) ttl None r1 a1 have r: "r = NONCE_OK" "ctx' = ?new c2" by (auto simp: shm_check_def Let_def)
    from ok [of c2] al1 f1 show ?thesis by (simp add: r)
  next
    case nok: False
    obtain n3 c3 where r3: "nonce_reclaim c2 now = (n3, c3)" by fastforce
    have i2: "nonce_inv c2" using al1 f1(1) by simp
    note f3 = reclaim_forgets [OF i2 r3]
    obtain ok4 c4 where a4: "(if 0 < n3 then nonce_alloc c3 else (False, c3)) = (ok4, c4)" by fastforce
    have al4: "nonce_inv c4" "nonce_map c4 = nonce_map c3"
      using a4 nonce_alloc_map [of c3 ok4 c4] f3(1) by (auto split: if_splits)
    have f4: "forgets now (nonce_map ctx) (nonce_map c4)"
      using forgets_trans [OF f1(2), of "nonce_map c3"] f3(2) al1 al4(2) by simp
    have pool: "ns_shpool ctx \<noteq> []" using al1 nok f1(3) by simp
    show ?thesis
    proof (cases ok4)
      case True
      with assms(3) ttl None r1 a1 nok r3 a4 have r: "r = NONCE_OK" "ctx' = ?new c4" by (auto simp: shm_check_def Let_def)
      from ok [OF al4(1) f4 r(2)] show ?thesis by (simp add: r)
    next
      case False
      with assms(3) ttl None r1 a1 nok r3 a4 have r: "r = NONCE_ABORT"
        "ctx' = (if NONCE_STORE_NOMEM_LOG_INTERVAL \<le> now - ns_last_nomem_log c4 then c4\<lparr>ns_last_nomem_log := now\<rparr> else c4)"
        by (auto simp: shm_check_def Let_def)
      have "nonce_step (nonce_map ctx) key ttl now NONCE_ABORT (nonce_map c4)"
        by (rule nonce_step.full) (use ttl m f4 in auto)
      with pool al4(1) show ?thesis by (simp add: r)
    qed
  qed
qed

lemma shm_check_refines:
  assumes "nonce_inv ctx" and "time_ok (now + ttl)" and "shm_check ctx key ttl now = (r, ctx')"
  shows "nonce_inv ctx' \<and> nonce_step (nonce_map ctx) key ttl now r (nonce_map ctx') \<and> (r = NONCE_ABORT \<longrightarrow> ns_shpool ctx \<noteq> [])"
proof (cases "ttl < 1")
  case True
  with assms show ?thesis by (auto simp: shm_check_def intro: nonce_step.invalid)
next
  case False
  with known_key_refines [OF assms] new_key_refines [OF assms] show ?thesis
    by (cases "nonce_find (ngx_crc32_long key) key (ns_rbtree ctx)") simp_all
qed

section \<open>Sequences of checks\<close>

text \<open>The contract of a nonce store, and what follows from it for any sequence of checks.\<close>

locale replay_store =
  fixes check :: "'c \<Rightarrow> bytes \<Rightarrow> int \<Rightarrow> int \<Rightarrow> nonce_rc \<times> 'c" and inv :: "'c \<Rightarrow> bool" and view :: "'c \<Rightarrow> bytes \<Rightarrow> int option"
  assumes refines: "inv c \<Longrightarrow> time_ok (now + ttl) \<Longrightarrow> check c key ttl now = (r, c') \<Longrightarrow>
    inv c' \<and> nonce_step (view c) key ttl now r (view c')"
begin

fun run :: "(bytes \<times> int \<times> int) list \<Rightarrow> 'c \<Rightarrow> nonce_rc list \<times> 'c" where
  "run [] c = ([], c)"
| "run ((key, ttl, now) # es) c =
     (case check c key ttl now of (r, c) \<Rightarrow> (case run es c of (rs, c) \<Rightarrow> (r # rs, c)))"

lemma step_live:
  "nonce_step m key ttl now r m' \<Longrightarrow> m k = Some x \<Longrightarrow> now \<le> x \<Longrightarrow> m' k = Some x \<and> (k = key \<longrightarrow> 1 \<le> ttl \<longrightarrow> r = NONCE_DECLINED)"
proof (induction rule: nonce_step.induct)
  case (fresh ttl m key now m')
  have "k \<noteq> key" using fresh(2) fresh.prems by force
  with forgets_live [OF fresh(3) fresh.prems] show ?case by simp
next
  case (full ttl m key now m')
  have "k \<noteq> key" using full(2) full.prems by force
  with forgets_live [OF full(3) full.prems] show ?case by simp
qed auto

lemma run_live:
  "inv c \<Longrightarrow> view c k = Some x \<Longrightarrow> list_all (\<lambda>(key, ttl, now). now \<le> x \<and> time_ok (now + ttl)) es \<Longrightarrow> run es c = (rs, c') \<Longrightarrow>
   inv c' \<and> view c' k = Some x"
proof (induction es arbitrary: c rs)
  case (Cons e es)
  obtain key ttl now where e: "e = (key, ttl, now)" by (cases e)
  obtain r c1 where s: "check c key ttl now = (r, c1)" by fastforce
  from Cons.prems(3) e have t: "now \<le> x" "time_ok (now + ttl)" by simp_all
  from refines [OF Cons.prems(1) t(2) s] step_live [where m = "view c" and k = k and x = x and now = now]
    Cons.prems(2) t(1) have "inv c1" "view c1 k = Some x" by blast+
  from Cons.IH [OF this] Cons.prems(3,4) e s show ?case by (auto split: prod.splits)
qed simp

lemma run_inv: "inv c \<Longrightarrow> list_all (\<lambda>(key, ttl, now). time_ok (now + ttl)) es \<Longrightarrow> run es c = (rs, c') \<Longrightarrow> inv c'"
proof (induction es arbitrary: c rs)
  case (Cons e es)
  obtain key ttl now where e: "e = (key, ttl, now)" by (cases e)
  obtain r c1 where s: "check c key ttl now = (r, c1)" by fastforce
  from refines [OF Cons.prems(1) _ s] Cons.prems(2) e have "inv c1" by simp
  from Cons.IH [OF this] Cons.prems(2,3) e s show ?case by (auto split: prod.splits)
qed simp

lemma recorded_live:
  assumes "inv c" and "time_ok (now + ttl)" and "check c key ttl now = (NONCE_OK, c1)"
    and "list_all (\<lambda>(k, l, s). s \<le> now + ttl \<and> time_ok (s + l)) es" and "run es c1 = (rs, c2)"
  shows "inv c2 \<and> view c2 key = Some (now + ttl)"
proof -
  from refines [OF assms(1-3)] have i: "inv c1" "nonce_step (view c) key ttl now NONCE_OK (view c1)" by blast+
  from i(2) have "view c1 key = Some (now + ttl)" by (cases rule: nonce_step.cases) simp_all
  from run_live [OF i(1) this assms(4,5)] show ?thesis .
qed

lemma declined_live:
  assumes "inv c" and "view c key = Some x" and "now \<le> x" and "1 \<le> ttl" and "time_ok (now + ttl)"
  shows "fst (check c key ttl now) = NONCE_DECLINED"
  using refines [OF assms(1,5), of key "fst (check c key ttl now)" "snd (check c key ttl now)"] assms(2-4)
    step_live [where m = "view c" and k = key and x = x and now = now]
  by (metis prod.collapse)

end

interpretation nonce_shm: replay_store shm_check nonce_inv nonce_map
  by unfold_locales (use shm_check_refines in blast)

fun nonce_run :: "(bytes \<times> int \<times> int) list \<Rightarrow> nonce_ctx \<Rightarrow> nonce_rc list \<times> nonce_ctx" where
  "nonce_run [] ctx = ([], ctx)"
| "nonce_run ((key, ttl, now) # es) ctx =
     (case shm_check ctx key ttl now of (r, ctx) \<Rightarrow> (case nonce_run es ctx of (rs, ctx) \<Rightarrow> (r # rs, ctx)))"

lemma nonce_run_eq: "nonce_run es ctx = nonce_shm.run es ctx"
  by (induction es ctx rule: nonce_run.induct) (simp_all split: prod.splits)

lemma nonce_init:
  assumes "nonce_init_zone None None shpool = Some ctx"
  shows "nonce_inv ctx" and "nonce_map ctx = Map.empty"
proof -
  from assms obtain p where "ctx = \<lparr>ns_rbtree = Sentinel, ns_exp_rbtree = Sentinel, ns_last_nomem_log = 0, ns_shpool = p\<rparr>"
    by (auto simp: nonce_init_zone_def split: prod.splits bool.splits)
  then show "nonce_inv ctx" "nonce_map ctx = Map.empty"
    by (simp_all add: nonce_inv_def nonce_map_def fun_eq_iff exp_tree_def nonce_tree.search_tree_def)
qed

definition small_store :: nonce_ctx where
  "small_store = \<lparr>ns_rbtree = Sentinel, ns_exp_rbtree = Sentinel, ns_last_nomem_log = 0, ns_shpool = []\<rparr>"

lemma small_store_init: "nonce_init_zone None None [] = Some small_store"
  by code_simp

lemma card_nodes_insert: "card (insert x (nonce_nodes ctx - E)) \<le> card (nonce_nodes ctx - E) + 1"
  by (simp add: card_insert_if)

lemma reclaim_card:
  assumes "nonce_inv ctx" and "nonce_reclaim ctx now = (n, ctx')"
  shows "card (nonce_nodes ctx') = card (nonce_nodes ctx) - min 2 (card (expired now ctx))"
    and "card (expired now ctx') = card (expired now ctx) - min 2 (card (expired now ctx))"
    and "expired now ctx' \<subseteq> expired now ctx"
proof -
  from reclaim_loop_spec [OF assms(1) assms(2) [unfolded nonce_reclaim_def]] obtain E where
    E: "E \<subseteq> expired now ctx" "card E = min 2 (card (expired now ctx))" "nonce_nodes ctx' = nonce_nodes ctx - E"
    by (auto simp: NONCE_STORE_RECLAIM_BATCH_def)
  have fin: "finite E" using E(1) finite_subset by fastforce
  have e: "expired now ctx' = expired now ctx - E" using E(3) by (auto simp: expired_def)
  show "card (nonce_nodes ctx') = card (nonce_nodes ctx) - min 2 (card (expired now ctx))"
    using E fin by (simp add: card_Diff_subset expired_def subset_iff)
  show "card (expired now ctx') = card (expired now ctx) - min 2 (card (expired now ctx))"
    using E fin by (simp add: e card_Diff_subset)
  show "expired now ctx' \<subseteq> expired now ctx" using e by simp
qed

lemma alloc_nodes: "nonce_alloc c = (ok, c') \<Longrightarrow> nonce_nodes c' = nonce_nodes c"
  by (auto simp: nonce_alloc_def split: prod.splits)

text \<open>A check of a new key drops expired nodes first, and adds at most one node.\<close>

lemma new_key_nodes:
  assumes "nonce_inv ctx" and "time_ok (now + ttl)" and "1 \<le> ttl" and "nonce_map ctx key = None"
    and "shm_check ctx key ttl now = (r, ctx')"
  obtains c where "nonce_inv c" "card (nonce_nodes c) \<le> card (nonce_nodes ctx) - min 2 (card (expired now ctx))"
    "card (expired now c) \<le> card (expired now ctx) - min 2 (card (expired now ctx))"
    "nonce_nodes ctx' = nonce_nodes c \<or> (\<exists>x. nonce_nodes ctx' = insert x (nonce_nodes c) \<and> nn_expires_at x = now + ttl)"
proof -
  have find: "nonce_find (ngx_crc32_long key) key (ns_rbtree ctx) = None" using assms(4) by (simp add: nonce_map_def)
  let ?new = "nonce_node_new (ngx_crc32_long key) key (now + ttl)"
  have new: "nonce_nodes (nonce_insert ?new c) = insert ?new (nonce_nodes c)" "nn_expires_at ?new = now + ttl"
    if "nonce_inv c" "nonce_map c key = None" for c
    using nonce_insert_spec(2) [OF that assms(2) refl] by (simp_all add: nonce_node_new_def)
  obtain n1 c1 where r1: "nonce_reclaim ctx now = (n1, c1)" by fastforce
  note f1 = reclaim_forgets [OF assms(1) r1] and k1 = reclaim_card [OF assms(1) r1]
  have m1: "nonce_map c1 key = None" using f1(2) assms(4) unfolding forgets_def by metis
  obtain ok1 c2 where a1: "nonce_alloc c1 = (ok1, c2)" by fastforce
  note al1 = nonce_alloc_map [OF a1] and n2 = alloc_nodes [OF a1]
  have e2: "expired now c2 = expired now c1" using n2 by (simp add: expired_def)
  have i2: "nonce_inv c2" "nonce_map c2 key = None" "card (nonce_nodes c2) \<le> card (nonce_nodes ctx) - min 2 (card (expired now ctx))"
    "card (expired now c2) \<le> card (expired now ctx) - min 2 (card (expired now ctx))"
    using al1 f1(1) m1 n2 k1 e2 by simp_all
  show thesis
  proof (cases ok1)
    case True
    with assms(3,5) find r1 a1 have "ctx' = nonce_insert ?new c2" by (auto simp: shm_check_def Let_def)
    with new [OF i2(1,2)] that [OF i2(1,3,4)] show thesis by metis
  next
    case nok: False
    obtain n3 c3 where r3: "nonce_reclaim c2 now = (n3, c3)" by fastforce
    note f3 = reclaim_forgets [OF i2(1) r3] and k3 = reclaim_card [OF i2(1) r3]
    have m3: "nonce_map c3 key = None" using f3(2) i2(2) unfolding forgets_def by metis
    obtain ok4 c4 where a4: "(if 0 < n3 then nonce_alloc c3 else (False, c3)) = (ok4, c4)" by fastforce
    have i4: "nonce_inv c4" "nonce_map c4 key = None" "nonce_nodes c4 = nonce_nodes c3"
      using a4 nonce_alloc_map [of c3 ok4 c4] alloc_nodes [of c3 ok4 c4] f3(1) m3 by (auto split: if_splits)
    have e4: "expired now c4 = expired now c3" using i4(3) by (simp add: expired_def)
    have k4: "card (nonce_nodes c4) \<le> card (nonce_nodes ctx) - min 2 (card (expired now ctx))"
      "card (expired now c4) \<le> card (expired now ctx) - min 2 (card (expired now ctx))"
      using k3(1,2) i2(3,4) i4(3) e4 by (simp_all only: le_trans [OF diff_le_self])
    from assms(3,5) find r1 a1 nok r3 a4 have "ctx' = (if ok4 then nonce_insert ?new c4 else
        if NONCE_STORE_NOMEM_LOG_INTERVAL \<le> now - ns_last_nomem_log c4 then c4\<lparr>ns_last_nomem_log := now\<rparr> else c4)"
      by (auto simp: shm_check_def Let_def split: bool.splits)
    then have "nonce_nodes ctx' = nonce_nodes c4 \<or> ctx' = nonce_insert ?new c4" by (auto split: if_splits)
    with new [OF i4(1,2)] that [OF i4(1) k4] show thesis by metis
  qed
qed

lemma NUL_split:
  "a @ CHR 0x00 # b = a' @ CHR 0x00 # b' \<Longrightarrow> CHR 0x00 \<notin> set a \<Longrightarrow> CHR 0x00 \<notin> set a' \<Longrightarrow> a = a' \<and> b = b'"
proof (induction a arbitrary: a')
  case Nil
  then show ?case by (cases a') auto
next
  case (Cons x a)
  then obtain y c where "a' = y # c" by (cases a') auto
  with Cons show ?case by auto
qed

section \<open>Properties\<close>

text \<open>C24: The shared-memory store implements its specification: a new zone records nothing, a reload hands it over
  unchanged, and every check keeps both trees well formed, holding the same nodes, and answers as
  specified: an unexpired record is a replay, a key without one is recorded until \<open>now + ttl\<close>, only
  expired records are ever dropped, and the check gives up only when an allocation failed.\<close>

theorem nonce_store_refines:
  assumes "nonce_inv ctx" and "time_ok (now + ttl)" and "shm_check ctx key ttl now = (r, ctx')"
  shows "nonce_inv ctx' \<and> nonce_step (nonce_map ctx) key ttl now r (nonce_map ctx') \<and>
    (r = NONCE_ABORT \<longrightarrow> ns_shpool ctx \<noteq> []) \<and> nonce_init_zone (Some ctx) None shpool = Some ctx"
  using shm_check_refines [OF assms] by (simp add: nonce_init_zone_def)

theorem nonce_store_refines_witness:
  "\<exists>ctx'. shm_check small_store ''k'' 60 1000 = (NONCE_OK, ctx') \<and> nonce_inv ctx' \<and>
     nonce_step Map.empty ''k'' 60 1000 NONCE_OK (nonce_map ctx')"
proof -
  have "fst (shm_check small_store ''k'' 60 1000) = NONCE_OK" by code_simp
  then obtain ctx' where s: "shm_check small_store ''k'' 60 1000 = (NONCE_OK, ctx')" by (metis prod.collapse)
  have "time_ok (1000 + 60)" by (simp add: time_ok_def)
  from nonce_store_refines [OF nonce_init(1) [OF small_store_init] this s] s nonce_init(2) [OF small_store_init]
  show ?thesis by auto
qed

text \<open>No replay while a record is live.  Once a key has been recorded with a lifetime, every later check of it, up
  to and including the second the lifetime ends, reports a replay, whatever other keys are checked in
  between, however many, and however full the zone is.\<close>

lemma replay_detected:
  assumes "nonce_inv ctx" and "time_ok (now + ttl)" and "shm_check ctx key ttl now = (NONCE_OK, ctx1)"
    and "list_all (\<lambda>(k, l, s). s \<le> now + ttl \<and> time_ok (s + l)) es" and "nonce_run es ctx1 = (rs, ctx2)"
    and "t \<le> now + ttl" and "1 \<le> ttl'" and "time_ok (t + ttl')"
  shows "fst (shm_check ctx2 key ttl' t) = NONCE_DECLINED"
  using nonce_shm.recorded_live [OF assms(1-4)] assms(5-8) nonce_shm.declined_live [of ctx2 key "now + ttl" t ttl']
  unfolding nonce_run_eq by blast

lemma replay_detected_example:
  "\<exists>ctx1 rs ctx2. shm_check small_store ''k'' 60 1000 = (NONCE_OK, ctx1) \<and>
    nonce_run [(''a'', 1, 1001), (''b'', 1, 1030), (''c'', 5, 1060)] ctx1 = (rs, ctx2) \<and>
    fst (shm_check ctx2 ''k'' 1 1060) = NONCE_DECLINED"
proof -
  have "fst (shm_check small_store ''k'' 60 1000) = NONCE_OK" by code_simp
  then obtain ctx1 where s: "shm_check small_store ''k'' 60 1000 = (NONCE_OK, ctx1)" by (metis prod.collapse)
  obtain rs ctx2 where r: "nonce_run [(''a'', 1, 1001), (''b'', 1, 1030), (''c'', 5, 1060)] ctx1 = (rs, ctx2)" by fastforce
  have t: "time_ok (1000 + 60)" "time_ok (1060 + 1)" by (simp_all add: time_ok_def)
  have "list_all (\<lambda>(k, l, s). s \<le> 1000 + 60 \<and> time_ok (s + l)) [(''a'', 1, 1001), (''b'', 1, 1030), (''c'', 5, 1060)]"
    by (simp add: time_ok_def)
  from replay_detected [OF nonce_init(1) [OF small_store_init] t(1) s this r _ _ t(2)] s r show ?thesis by auto
qed

text \<open>One check adds at most one record, and drops two expired ones before it adds.\<close>

lemma check_bounded:
  assumes "nonce_inv ctx" and "time_ok (now + ttl)" and "shm_check ctx key ttl now = (r, ctx')"
  shows "card (nonce_nodes ctx') \<le> max (card (nonce_nodes ctx)) (card (nonce_nodes ctx - expired now ctx) + 1) \<and>
    (nonce_map ctx key = None \<and> 1 \<le> ttl \<longrightarrow> card (expired now ctx') \<le> card (expired now ctx) - 2)"
proof -
  have live: "card (nonce_nodes ctx - expired now ctx) = card (nonce_nodes ctx) - card (expired now ctx)"
    by (rule card_Diff_subset) (auto simp: expired_def)
  have le: "card (expired now ctx) \<le> card (nonce_nodes ctx)" by (rule card_mono) (auto simp: expired_def)
  consider "ttl < 1" | "1 \<le> ttl" "nonce_map ctx key = None" | x where "1 \<le> ttl" "nonce_map ctx key = Some x" by fastforce
  then show ?thesis
  proof cases
    case 1
    with assms(3) show ?thesis by (simp add: shm_check_def)
  next
    case 2
    from new_key_nodes [OF assms(1,2) 2 assms(3)] obtain c where
      c: "nonce_inv c" "card (nonce_nodes c) \<le> card (nonce_nodes ctx) - min 2 (card (expired now ctx))"
        "card (expired now c) \<le> card (expired now ctx) - min 2 (card (expired now ctx))"
        "nonce_nodes ctx' = nonce_nodes c \<or> (\<exists>x. nonce_nodes ctx' = insert x (nonce_nodes c) \<and> nn_expires_at x = now + ttl)" .
    from c(4) have "card (nonce_nodes ctx') \<le> card (nonce_nodes c) + 1" by (auto simp: card_insert_if)
    moreover have "expired now ctx' = expired now c" using c(4) 2(1) by (auto simp: expired_def)
    ultimately show ?thesis using c(2,3) live le by (auto simp: min_def max_def split: if_splits)
  next
    case 3
    then obtain cn where cn: "nonce_find (ngx_crc32_long key) key (ns_rbtree ctx) = Some cn" by (auto simp: nonce_map_def)
    then have mem: "cn \<in> nonce_nodes ctx" by (simp add: nonce_find_Some [OF assms(1)])
    show ?thesis
    proof (cases "now \<le> nn_expires_at cn")
      case True
      with assms(3) 3 cn show ?thesis by (simp add: shm_check_def)
    next
      case False
      with assms(3) 3 cn have ctx': "ctx' = nonce_renew cn (now + ttl) ctx" by (auto simp: shm_check_def)
      have "nn_expires_at cn \<noteq> now + ttl" using False 3(1) by simp
      from nonce_renew_spec(2) [OF assms(1) mem assms(2) this ctx'] mem
      have "card (nonce_nodes ctx') \<le> card (nonce_nodes ctx)"
        by (simp add: card_insert_if card_Diff_singleton) (metis One_nat_def Suc_pred card_gt_0_iff empty_iff finite_nodes(1) le_refl)
      with 3 show ?thesis by simp
    qed
  qed
qed

text \<open>The keys that a list of checks may have recorded and that are alive at a time.\<close>

definition alive :: "(bytes \<times> int \<times> int) list \<Rightarrow> int \<Rightarrow> bytes set" where
  "alive es now = {key. \<exists>ttl start. (key, ttl, start) \<in> set es \<and> 1 \<le> ttl \<and> now \<le> start + ttl}"

lemma finite_alive: "finite (alive es now)"
  by (rule finite_subset [of _ "fst ` set es"]) (force simp: alive_def)+

lemma nonce_run_snoc:
  "nonce_run (es @ [(key, ttl, now)]) ctx = (rs, ctx') \<Longrightarrow>
   \<exists>rs1 ctx1. nonce_run es ctx = (rs1, ctx1) \<and> snd (shm_check ctx1 key ttl now) = ctx'"
proof (induction es arbitrary: ctx rs)
  case Nil
  then show ?case by (auto split: prod.splits)
next
  case (Cons e es)
  obtain k t n where e: "e = (k, t, n)" by (metis prod_cases3)
  obtain r c where c: "shm_check ctx k t n = (r, c)" by fastforce
  with Cons.prems e obtain rs' where "nonce_run (es @ [(key, ttl, now)]) c = (rs', ctx')" by (auto split: prod.splits)
  from Cons.IH [OF this] e c show ?case by auto
qed

lemma forgets_Some: "forgets now m m' \<Longrightarrow> m' k = Some x \<Longrightarrow> m k = Some x"
  by (metis forgets_def option.distinct(1))

lemma step_recorded:
  "nonce_step m key ttl now r m' \<Longrightarrow> m' k = Some x \<Longrightarrow> m k = Some x \<or> k = key \<and> x = now + ttl \<and> 1 \<le> ttl"
  by (induction rule: nonce_step.induct) (auto dest: forgets_Some split: if_splits)

text \<open>What a zone holds after a list of checks was put there by one of them.\<close>

lemma run_recorded:
  assumes "nonce_init_zone None None shpool = Some ctx0"
  shows "list_all (\<lambda>(key, ttl, now). time_ok (now + ttl)) es \<Longrightarrow> nonce_run es ctx0 = (rs, ctx) \<Longrightarrow>
    nonce_inv ctx \<and> (\<forall>key x. nonce_map ctx key = Some x \<longrightarrow> (\<exists>ttl start. (key, ttl, start) \<in> set es \<and> 1 \<le> ttl \<and> x = start + ttl))"
proof (induction es arbitrary: rs ctx rule: rev_induct)
  case Nil
  with nonce_init [OF assms] show ?case by simp
next
  case (snoc e es)
  obtain key ttl now where e: "e = (key, ttl, now)" by (metis prod_cases3)
  with snoc.prems(2) nonce_run_snoc obtain rs1 ctx1 where r: "nonce_run es ctx0 = (rs1, ctx1)" "snd (shm_check ctx1 key ttl now) = ctx" by blast
  from snoc.IH [OF _ r(1)] snoc.prems(1) have ih: "nonce_inv ctx1"
    "\<And>k x. nonce_map ctx1 k = Some x \<Longrightarrow> \<exists>l s. (k, l, s) \<in> set es \<and> 1 \<le> l \<and> x = s + l" by simp_all
  have t: "time_ok (now + ttl)" using snoc.prems(1) e by simp
  obtain res where c: "shm_check ctx1 key ttl now = (res, ctx)" using r(2) by (metis prod.collapse)
  from shm_check_refines [OF ih(1) t c] have "nonce_inv ctx" "nonce_step (nonce_map ctx1) key ttl now res (nonce_map ctx)" by blast+
  with step_recorded [OF this(2)] ih(2) e show ?case by fastforce
qed

lemma live_alive:
  assumes "nonce_inv ctx" and "\<And>key x. nonce_map ctx key = Some x \<Longrightarrow> \<exists>ttl start. (key, ttl, start) \<in> set es \<and> 1 \<le> ttl \<and> x = start + ttl"
  shows "card (nonce_nodes ctx - expired now ctx) \<le> card (alive es now)"
proof (rule card_inj_on_le)
  show "inj_on nn_nonce_key (nonce_nodes ctx - expired now ctx)"
    using nonce_nodes_inj [OF assms(1)] by (auto intro!: inj_onI)
  show "nn_nonce_key ` (nonce_nodes ctx - expired now ctx) \<subseteq> alive es now"
  proof (rule image_subsetI)
    fix cn
    assume cn: "cn \<in> nonce_nodes ctx - expired now ctx"
    then have "nonce_map ctx (nn_nonce_key cn) = Some (nn_expires_at cn)" using nonce_map_Some [OF assms(1)] by blast
    from assms(2) [OF this] cn show "nn_nonce_key cn \<in> alive es now" by (force simp: alive_def expired_def)
  qed
qed (rule finite_alive)

text \<open>C27: The zone does not grow with the traffic.  Start with a new zone and run any checks.  If at none of them
  more than \<open>peak\<close> keys of the earlier checks are within their lifetimes, then the zone never holds more
  than \<open>peak + 1\<close> records, expired ones included, however many nonces have passed: a check of a new key first
  drops the two earliest expired records, or all if there are fewer, before it adds its own.\<close>

theorem nonce_store_bounded:
  assumes "nonce_init_zone None None shpool = Some ctx0" and "list_all (\<lambda>(key, ttl, now). time_ok (now + ttl)) es"
    and "nonce_run es ctx0 = (rs, ctx)"
    and "\<And>earlier key ttl now later. es = earlier @ (key, ttl, now) # later \<Longrightarrow> card (alive earlier now) \<le> peak"
  shows "card (nonce_nodes ctx) \<le> peak + 1 \<and>
    (1 \<le> ttl \<and> time_ok (now + ttl) \<and> nonce_map ctx key = None \<longrightarrow>
       card (expired now (snd (shm_check ctx key ttl now))) \<le> card (expired now ctx) - 2)"
proof -
  have "card (nonce_nodes ctx) \<le> peak + 1"
    using assms(2-4)
  proof (induction es arbitrary: rs ctx rule: rev_induct)
    case Nil
    have "\<not> cn \<in> nonce_nodes ctx0" for cn using nonce_map_Some [OF nonce_init(1) [OF assms(1)]] nonce_init(2) [OF assms(1)] by fastforce
    then have "nonce_nodes ctx0 = {}" by blast
    with Nil.prems(2) show ?case by simp
  next
    case (snoc e es)
    obtain key ttl now where e: "e = (key, ttl, now)" by (metis prod_cases3)
    with snoc.prems(2) nonce_run_snoc obtain rs1 ctx1 where r: "nonce_run es ctx0 = (rs1, ctx1)" "snd (shm_check ctx1 key ttl now) = ctx" by blast
    have t: "list_all (\<lambda>(key, ttl, now). time_ok (now + ttl)) es" "time_ok (now + ttl)" using snoc.prems(1) e by simp_all
    have "card (alive a n) \<le> peak" if "es = a @ (k, l, n) # b" for a k l n b
      using snoc.prems(3) [of a k l n "b @ [e]"] that by simp
    from snoc.IH [OF t(1) r(1) this] have le: "card (nonce_nodes ctx1) \<le> peak + 1" .
    from run_recorded [OF assms(1) t(1) r(1)] have i: "nonce_inv ctx1"
      "\<And>k x. nonce_map ctx1 k = Some x \<Longrightarrow> \<exists>l s. (k, l, s) \<in> set es \<and> 1 \<le> l \<and> x = s + l" by blast+
    obtain res where c: "shm_check ctx1 key ttl now = (res, ctx)" using r(2) by (metis prod.collapse)
    have "card (alive es now) \<le> peak" using snoc.prems(3) [of es key ttl now "[]"] e by simp
    with conjunct1 [OF check_bounded [OF i(1) t(2) c]] live_alive [OF i, of now] le show ?case by linarith
  qed
  moreover have "card (expired now (snd (shm_check ctx key ttl now))) \<le> card (expired now ctx) - 2"
    if "1 \<le> ttl" "time_ok (now + ttl)" "nonce_map ctx key = None"
    using run_recorded [OF assms(1-3)] check_bounded [of ctx now ttl key "fst (shm_check ctx key ttl now)"] that by simp
  ultimately show ?thesis by blast
qed

theorem nonce_store_bounded_witness:
  "card (nonce_nodes (snd (nonce_run [(''a'', 1, 10), (''b'', 1, 20), (''c'', 1, 30), (''d'', 1, 40)] small_store))) \<le> 1"
proof -
  let ?es = "[(''a'', 1, 10), (''b'', 1, 20), (''c'', 1, 30), (''d'', 1, 40)] :: (bytes \<times> int \<times> int) list"
  obtain rs ctx where r: "nonce_run ?es small_store = (rs, ctx)" by fastforce
  have t: "list_all (\<lambda>(key, ttl, now). time_ok (now + ttl)) ?es" by (simp add: time_ok_def)
  have "alive earlier now = {}" if "?es = earlier @ (key, ttl, now) # later" for earlier key ttl now later
    using that by (auto simp: Cons_eq_append_conv alive_def)
  then have "card (alive earlier now) \<le> 0" if "?es = earlier @ (key, ttl, now) # later" for earlier key ttl now later
    using that by simp
  from nonce_store_bounded [OF small_store_init t r this] r show ?thesis by simp
qed

text \<open>The store key tells its three parts apart: with no NUL in the agent host and the keyid, equal keys mean the
  same host, keyid and nonce, and every key carries the namespace prefix.\<close>

lemma nonce_key_injective:
  assumes "fst (nonce_store_key h k n p) = Some key" and "fst (nonce_store_key h' k' n' p') = Some key"
    and "CHR 0x00 \<notin> set h" and "CHR 0x00 \<notin> set h'" and "CHR 0x00 \<notin> set k" and "CHR 0x00 \<notin> set k'"
  shows "h = h' \<and> k = k' \<and> n = n' \<and> take (length NONCE_KEY_PREFIX) key = NONCE_KEY_PREFIX"
proof -
  have key: "key = NONCE_KEY_PREFIX @ h @ CHR 0x00 # k @ CHR 0x00 # n" "key = NONCE_KEY_PREFIX @ h' @ CHR 0x00 # k' @ CHR 0x00 # n'"
    using assms(1,2) by (auto simp: nonce_store_key_def split: prod.splits bool.splits)
  then have "h @ CHR 0x00 # k @ CHR 0x00 # n = h' @ CHR 0x00 # k' @ CHR 0x00 # n'" by simp
  from NUL_split [OF this assms(3,4)] have h: "h = h'" "k @ CHR 0x00 # n = k' @ CHR 0x00 # n'" by simp_all
  from NUL_split [OF h(2) assms(5,6)] h(1) key(1) show ?thesis by simp
qed

lemma nonce_key_injective_example:
  "\<exists>key. fst (nonce_store_key ''a'' ''bc'' ''d'' []) = Some key \<and> take (length NONCE_KEY_PREFIX) key = NONCE_KEY_PREFIX"
proof -
  obtain key where k: "fst (nonce_store_key ''a'' ''bc'' ''d'' []) = Some key" by (simp add: nonce_store_key_def)
  from nonce_key_injective [OF k k] k show ?thesis by simp
qed

end
