(* ===== verification/Nonce_Redis.thy ===== *)
theory Nonce_Redis
  imports Nonce_Store
begin

text \<open>
  The Redis backend of the nonce store (the second half of
  \<open>src/ngx_auth_httpsig_nonce_store.c\<close>): a connection kept by the worker, opened lazily, with an
  exponential backoff after failures.

  The client library is not part of the repository: it is the record \<open>hiredis\<close>, whose calls take and
  return the state \<open>'w\<close> of the outside world, the server and the clock.  A connection is known to the code
  by its \<open>err\<close> field only.
\<close>

section \<open>The client library\<close>

datatype redis_err = REDIS_NO_ERR | REDIS_ERR_IO | REDIS_ERR_EOF | REDIS_ERR_OTHER

datatype redis_reply = REPLY_ERROR | REPLY_NIL | REPLY_STATUS bytes | REPLY_OTHER

record 'w hiredis =
  redisConnectWithTimeout :: "bytes \<Rightarrow> int \<Rightarrow> int \<Rightarrow> 'w \<Rightarrow> redis_err option \<times> 'w"
  redisSetTimeout :: "int \<Rightarrow> 'w \<Rightarrow> bool \<times> 'w"
  redisCommand_SELECT :: "int \<Rightarrow> 'w \<Rightarrow> (redis_reply option \<times> redis_err) \<times> 'w"
  redisCommand_SET_NX_EX :: "bytes \<Rightarrow> int \<Rightarrow> 'w \<Rightarrow> (redis_reply option \<times> redis_err) \<times> 'w"
  wall_clock :: "'w \<Rightarrow> int"

section \<open>State\<close>

record redis_conf =
  rc_hostname :: bytes
  rc_port :: int
  rc_db :: int
  rc_connect_timeout :: int
  rc_command_timeout :: int
  rc_backoff_max :: int

text \<open>The three file-scope variables of a worker.\<close>

record redis_state =
  rs_conn :: "redis_err option"
  rs_retry_after :: int
  rs_backoff :: int

definition redis_start :: redis_state where
  "redis_start = \<lparr>rs_conn = None, rs_retry_after = 0, rs_backoff = 0\<rparr>"

section \<open>Operations\<close>

definition redis_next_backoff :: "int \<Rightarrow> int \<Rightarrow> int" where
  "redis_next_backoff current mx =
     (let mx = (if mx < 1 then 1 else mx)
      in if current < 1 then 1 else if mx < current * 2 then mx else current * 2)"

definition redis_arm_backoff :: "'w hiredis \<Rightarrow> redis_conf \<Rightarrow> redis_state \<Rightarrow> 'w \<Rightarrow> redis_state" where
  "redis_arm_backoff lib conf st w =
     (let backoff = redis_next_backoff (rs_backoff st) (rc_backoff_max conf)
      in st\<lparr>rs_backoff := backoff, rs_retry_after := wall_clock lib w + backoff\<rparr>)"

definition redis_close :: "redis_state \<Rightarrow> redis_state" where
  "redis_close st = st\<lparr>rs_conn := None\<rparr>"

text \<open>Whether the return value is \<open>NGX_OK\<close>.\<close>

definition redis_open :: "'w hiredis \<Rightarrow> redis_conf \<Rightarrow> redis_state \<Rightarrow> 'w \<Rightarrow> bool \<times> redis_state \<times> 'w" where
  "redis_open lib conf st w =
     (case redisConnectWithTimeout lib (rc_hostname conf) (rc_port conf) (rc_connect_timeout conf) w of
        (conn, w) \<Rightarrow>
          if conn \<noteq> Some REDIS_NO_ERR then (False, redis_close st, w)
          else
            let st = st\<lparr>rs_conn := conn\<rparr> in
            case redisSetTimeout lib (rc_command_timeout conf) w of
              (False, w) \<Rightarrow> (False, redis_close st, w)
            | (True, w) \<Rightarrow>
                if 0 < rc_db conf then
                  (case redisCommand_SELECT lib (rc_db conf) w of
                     ((resp, err), w) \<Rightarrow>
                       if resp = None \<or> resp = Some REPLY_ERROR then (False, redis_close st, w)
                       else (True, st\<lparr>rs_conn := Some err\<rparr>, w))
                else (True, st, w))"

definition redis_connect :: "'w hiredis \<Rightarrow> redis_conf \<Rightarrow> redis_state \<Rightarrow> 'w \<Rightarrow> bool \<times> redis_state \<times> 'w" where
  "redis_connect lib conf st w =
     (case rs_conn st of
        Some REDIS_NO_ERR \<Rightarrow> (True, st, w)
      | Some err \<Rightarrow> redis_open lib conf (redis_close st) w
      | None \<Rightarrow> redis_open lib conf st w)"

definition redis_set :: "'w hiredis \<Rightarrow> bytes \<Rightarrow> int \<Rightarrow> redis_state \<Rightarrow> 'w \<Rightarrow> redis_reply option \<times> redis_state \<times> 'w" where
  "redis_set lib key ttl st w =
     (case redisCommand_SET_NX_EX lib key (ttl + 1) w of
        ((resp, err), w) \<Rightarrow> (resp, st\<lparr>rs_conn := Some err\<rparr>, w))"

text \<open>The command, and the one retry on a connection closed while idle; the flag is \<open>retried\<close>.\<close>

definition redis_command :: "'w hiredis \<Rightarrow> redis_conf \<Rightarrow> bytes \<Rightarrow> int \<Rightarrow> redis_state \<Rightarrow> 'w \<Rightarrow>
    redis_reply option \<times> bool \<times> redis_state \<times> 'w" where
  "redis_command lib conf key ttl st w =
     (case redis_set lib key ttl st w of
        (resp, st, w) \<Rightarrow>
          if resp = None \<and> (rs_conn st = Some REDIS_ERR_IO \<or> rs_conn st = Some REDIS_ERR_EOF) then
            (case redis_connect lib conf (redis_close st) w of
               (True, st, w) \<Rightarrow> (case redis_set lib key ttl st w of (resp, st, w) \<Rightarrow> (resp, True, st, w))
             | (False, st, w) \<Rightarrow> (None, False, st, w))
          else (resp, False, st, w))"

definition redis_check :: "'w hiredis \<Rightarrow> redis_conf \<Rightarrow> bytes \<Rightarrow> int \<Rightarrow> int \<Rightarrow> redis_state \<Rightarrow> 'w \<Rightarrow>
    nonce_rc \<times> redis_state \<times> 'w" where
  "redis_check lib conf key ttl now st w =
     (if ttl < 1 then (NONCE_ERROR, st, w)
      else if rs_retry_after st \<noteq> 0 \<and> now < rs_retry_after st then (NONCE_ABORT, st, w)
      else case redis_connect lib conf st w of
        (False, st, w) \<Rightarrow> (NONCE_ABORT, redis_arm_backoff lib conf st w, w)
      | (True, st, w) \<Rightarrow>
          (case redis_command lib conf key ttl st w of
             (None, retried, st, w) \<Rightarrow> (NONCE_ABORT, redis_arm_backoff lib conf (redis_close st) w, w)
           | (Some REPLY_ERROR, retried, st, w) \<Rightarrow> (NONCE_ABORT, redis_arm_backoff lib conf (redis_close st) w, w)
           | (Some resp, retried, st, w) \<Rightarrow>
               (case if resp = REPLY_NIL then (if retried then NONCE_ABORT else NONCE_DECLINED, st)
                     else if resp = REPLY_STATUS ''OK'' then (NONCE_OK, st)
                     else (NONCE_ABORT, redis_close st) of
                  (rc, st) \<Rightarrow>
                    (rc, if rc \<noteq> NONCE_ABORT then st\<lparr>rs_retry_after := 0, rs_backoff := 0\<rparr> else st, w))))"

end
