(* ===== verification/Nonce_Redis_Props.thy ===== *)
theory Nonce_Redis_Props
  imports Nonce_Redis
begin

text \<open>
  The Redis backend: which replies mean a recorded nonce, which a replay, and which neither; and how
  failures in a row hold off further attempts.
\<close>

text \<open>Whether the check is inside the window after a failure.\<close>

definition holds_off :: "redis_state \<Rightarrow> int \<Rightarrow> bool" where
  "holds_off st now \<longleftrightarrow> rs_retry_after st \<noteq> 0 \<and> now < rs_retry_after st"

text \<open>The reply to the command, the one to its retry if there was one, and whether there was.\<close>

lemma redis_check_outcome:
  assumes "1 \<le> ttl" and "\<not> holds_off st now" and "redis_connect lib conf st w = (True, st1, w1)"
    and "redis_command lib conf key ttl st1 w1 = (resp, retried, st2, w2)"
  shows "fst (redis_check lib conf key ttl now st w) =
    (case resp of
       Some REPLY_NIL \<Rightarrow> if retried then NONCE_ABORT else NONCE_DECLINED
     | Some (REPLY_STATUS s) \<Rightarrow> if s = ''OK'' then NONCE_OK else NONCE_ABORT
     | _ \<Rightarrow> NONCE_ABORT)"
  using assms by (auto simp: redis_check_def holds_off_def split: option.split redis_reply.split)

lemma redis_check_refused:
  assumes "1 \<le> ttl" and "holds_off st now \<or> \<not> fst (redis_connect lib conf st w)"
  shows "fst (redis_check lib conf key ttl now st w) = NONCE_ABORT"
  using assms by (auto simp: redis_check_def holds_off_def split: prod.splits bool.splits)

definition redis_lost :: "redis_reply option \<Rightarrow> redis_state \<Rightarrow> bool" where
  "redis_lost resp st \<longleftrightarrow> resp = None \<and> (rs_conn st = Some REDIS_ERR_IO \<or> rs_conn st = Some REDIS_ERR_EOF)"

lemma redis_command_first:
  assumes "redis_set lib key ttl st w = (resp, st1, w1)"
  shows "\<not> redis_lost resp st1 \<Longrightarrow> redis_command lib conf key ttl st w = (resp, False, st1, w1)"
    and "redis_lost resp st1 \<Longrightarrow> redis_connect lib conf (redis_close st1) w1 = (False, st2, w2) \<Longrightarrow>
      redis_command lib conf key ttl st w = (None, False, st2, w2)"
    and "redis_lost resp st1 \<Longrightarrow> redis_connect lib conf (redis_close st1) w1 = (True, st2, w2) \<Longrightarrow>
      redis_set lib key ttl st2 w2 = (resp', st3, w3) \<Longrightarrow> redis_command lib conf key ttl st w = (resp', True, st3, w3)"
  using assms by (auto simp: redis_command_def redis_lost_def)

text \<open>C26: What the Redis check answers, exactly.  A nonce counts as new only if a \<open>SET NX EX\<close> for this key, the first
  one or the one retry after a connection lost while idle, was answered \<open>OK\<close>; it counts as replayed only if
  the first one was answered nil, since a nil to the retry may be this request's own write; only a
  caller's bug is an error.  Everything else, any connection failure included, is neither.\<close>

theorem redis_check_exact:
  "(fst (redis_check lib conf key ttl now st w) = NONCE_ERROR \<longleftrightarrow> ttl < 1) \<and>
   (fst (redis_check lib conf key ttl now st w) = NONCE_DECLINED \<longleftrightarrow>
      1 \<le> ttl \<and> \<not> holds_off st now \<and>
      (\<exists>st1 w1. redis_connect lib conf st w = (True, st1, w1) \<and> fst (redis_set lib key ttl st1 w1) = Some REPLY_NIL)) \<and>
   (fst (redis_check lib conf key ttl now st w) = NONCE_OK \<longleftrightarrow>
      1 \<le> ttl \<and> \<not> holds_off st now \<and>
      (\<exists>st1 w1. redis_connect lib conf st w = (True, st1, w1) \<and>
         (fst (redis_set lib key ttl st1 w1) = Some (REPLY_STATUS ''OK'') \<or>
          (\<exists>st2 w2 st3 w3. redis_set lib key ttl st1 w1 = (None, st2, w2) \<and> redis_lost None st2 \<and>
             redis_connect lib conf (redis_close st2) w2 = (True, st3, w3) \<and>
             fst (redis_set lib key ttl st3 w3) = Some (REPLY_STATUS ''OK'')))))"
proof (cases "ttl < 1")
  case True
  then show ?thesis by (simp add: redis_check_def)
next
  case False
  then have ttl: "1 \<le> ttl" by simp
  obtain ok st1 w1 where c: "redis_connect lib conf st w = (ok, st1, w1)" by (metis prod_cases3)
  show ?thesis
  proof (cases "holds_off st now \<or> \<not> ok")
    case True
    with redis_check_refused [OF ttl, of st now lib conf w key] c False show ?thesis by auto
  next
    case no: False
    then have h: "\<not> holds_off st now" and con: "redis_connect lib conf st w = (True, st1, w1)" using c by simp_all
    obtain resp st2 w2 where s: "redis_set lib key ttl st1 w1 = (resp, st2, w2)" by (metis prod_cases3)
    note first = redis_command_first [OF s, of conf]
    note out = redis_check_outcome [OF ttl h con, of key]
    show ?thesis
    proof (cases "redis_lost resp st2")
      case lost: False
      from out [OF first(1) [OF lost]] lost ttl h con s False show ?thesis
        by (auto split: option.splits redis_reply.splits)
    next
      case lost: True
      then have none: "resp = None" by (simp add: redis_lost_def)
      obtain ok3 st3 w3 where c3: "redis_connect lib conf (redis_close st2) w2 = (ok3, st3, w3)" by (metis prod_cases3)
      obtain resp' st4 w4 where s4: "redis_set lib key ttl st3 w3 = (resp', st4, w4)" by (metis prod_cases3)
      show ?thesis
      proof (cases ok3)
        case True
        from c3 True have c3': "redis_connect lib conf (redis_close st2) w2 = (True, st3, w3)" by simp
        from out [OF first(3) [OF lost c3' s4]] lost ttl h con s False c3 s4 none True show ?thesis
          by (auto split: option.splits redis_reply.splits)
      next
        case no3: False
        from out [OF first(2) [OF lost, of st3 w3]] lost ttl h con s False c3 none no3 show ?thesis by auto
      qed
    qed
  qed
qed

lemma next_backoff_min: "1 \<le> q \<Longrightarrow> redis_next_backoff (min q (max 1 mx)) mx = min (2 * q) (max 1 mx)"
  by (auto simp: redis_next_backoff_def Let_def min_def max_def)

text \<open>The backoff after \<open>n\<close> consecutive failures is \<open>2 ^ (n - 1)\<close> seconds, up to the configured maximum, which
  counts as 1 when it is smaller.\<close>

lemma redis_backoff_sequence:
  "((\<lambda>b. redis_next_backoff b mx) ^^ Suc n) 0 = min (2 ^ n) (max 1 mx)"
proof (induction n)
  case 0
  show ?case by (simp add: redis_next_backoff_def Let_def)
next
  case (Suc n)
  have "((\<lambda>b. redis_next_backoff b mx) ^^ Suc (Suc n)) 0 = redis_next_backoff (min (2 ^ n) (max 1 mx)) mx"
    using Suc by simp
  also have "\<dots> = min (2 ^ Suc n) (max 1 mx)"
    by (simp add: next_backoff_min)
  finally show ?case .
qed

lemma next_backoff_range: "0 \<le> b \<Longrightarrow> 1 \<le> redis_next_backoff b mx \<and> redis_next_backoff b mx \<le> max 1 mx"
  by (auto simp: redis_next_backoff_def Let_def)

lemma redis_open_keeps:
  "redis_open lib conf st w = (ok, st', w') \<Longrightarrow> rs_backoff st' = rs_backoff st \<and> rs_retry_after st' = rs_retry_after st"
  by (auto simp: redis_open_def redis_close_def Let_def split: prod.splits bool.splits if_splits)

lemma redis_connect_keeps:
  "redis_connect lib conf st w = (ok, st', w') \<Longrightarrow> rs_backoff st' = rs_backoff st \<and> rs_retry_after st' = rs_retry_after st"
  by (auto simp: redis_connect_def redis_close_def split: option.splits redis_err.splits dest!: redis_open_keeps)

lemma redis_command_keeps:
  "redis_command lib conf key ttl st w = (resp, retried, st', w') \<Longrightarrow>
    rs_backoff st' = rs_backoff st \<and> rs_retry_after st' = rs_retry_after st"
  by (auto simp: redis_command_def redis_set_def redis_close_def split: prod.splits bool.splits if_splits dest!: redis_connect_keeps)

text \<open>How a check leaves the worker: a definite answer clears the backoff; an undecided one either leaves it, with
  the reply stream dropped, or arms a window of at least one and at most the maximum number of seconds
  from the current time, and inside the window a check touches neither the network nor the state.\<close>

lemma redis_check_backoff:
  assumes "redis_check lib conf key ttl now st w = (r, st', w')" and "0 \<le> rs_backoff st"
  shows "0 \<le> rs_backoff st' \<and>
    (r = NONCE_OK \<or> r = NONCE_DECLINED \<longrightarrow> rs_backoff st' = 0 \<and> rs_retry_after st' = 0) \<and>
    (r = NONCE_ABORT \<longrightarrow>
       rs_backoff st' = rs_backoff st \<and> rs_retry_after st' = rs_retry_after st \<or>
       1 \<le> rs_backoff st' \<and> rs_backoff st' \<le> max 1 (rc_backoff_max conf) \<and> rs_conn st' = None \<and>
       rs_retry_after st' = wall_clock lib w' + rs_backoff st') \<and>
    (1 \<le> ttl \<and> holds_off st now \<longrightarrow> r = NONCE_ABORT \<and> st' = st \<and> w' = w)"
proof (cases "ttl < 1 \<or> holds_off st now")
  case True
  then have "redis_check lib conf key ttl now st w = ((if ttl < 1 then NONCE_ERROR else NONCE_ABORT), st, w)"
    by (auto simp: redis_check_def holds_off_def)
  with assms True show ?thesis by (auto split: if_splits)
next
  case False
  have close: "rs_conn (redis_close s) = None" "rs_backoff (redis_close s) = rs_backoff s" for s
    by (simp_all add: redis_close_def)
  have failed: "rs_conn st1 = None" if "redis_connect lib conf st w = (False, st1, w1)" for st1 w1
    using that by (auto simp: redis_connect_def redis_open_def redis_close_def Let_def
      split: option.splits redis_err.splits prod.splits bool.splits if_splits)
  obtain ok st1 w1 where c: "redis_connect lib conf st w = (ok, st1, w1)" by (metis prod_cases3)
  note k1 = redis_connect_keeps [OF c]
  have arm: "1 \<le> redis_next_backoff (rs_backoff st) (rc_backoff_max conf) \<and>
      redis_next_backoff (rs_backoff st) (rc_backoff_max conf) \<le> max 1 (rc_backoff_max conf)"
    by (rule next_backoff_range [OF assms(2)])
  show ?thesis
  proof (cases ok)
    case no: False
    with assms(1) False c have "r = NONCE_ABORT" "st' = redis_arm_backoff lib conf st1 w1" "w' = w1"
      by (auto simp: redis_check_def holds_off_def)
    with arm k1 failed [of st1 w1] c no False show ?thesis by (auto simp: redis_arm_backoff_def Let_def)
  next
    case True
    obtain resp retried st2 w2 where m: "redis_command lib conf key ttl st1 w1 = (resp, retried, st2, w2)" by (metis prod_cases4)
    note k2 = redis_command_keeps [OF m]
    show ?thesis
    proof (cases "resp = None \<or> resp = Some REPLY_ERROR")
      case True
      with assms(1) False c \<open>ok\<close> m have "r = NONCE_ABORT" "st' = redis_arm_backoff lib conf (redis_close st2) w2" "w' = w2"
        by (auto simp: redis_check_def holds_off_def)
      with arm k1 k2 False show ?thesis by (auto simp: redis_arm_backoff_def Let_def close)
    next
      case no: False
      then consider "resp = Some REPLY_NIL" | s where "resp = Some (REPLY_STATUS s)" | "resp = Some REPLY_OTHER"
        by (metis not_None_eq redis_reply.exhaust)
      then show ?thesis
        using assms False c \<open>ok\<close> m k1 k2
        by cases (auto simp: redis_check_def holds_off_def redis_close_def split: if_splits)
    qed
  qed
qed

text \<open>A server that is down, and one that answers.\<close>

definition dead_redis :: "int hiredis" where
  "dead_redis =
     \<lparr>redisConnectWithTimeout = (\<lambda>h p t w. (None, w + t)), redisSetTimeout = (\<lambda>t w. (True, w)),
      redisCommand_SELECT = (\<lambda>db w. ((None, REDIS_ERR_EOF), w)),
      redisCommand_SET_NX_EX = (\<lambda>k t w. ((None, REDIS_ERR_EOF), w)), wall_clock = (\<lambda>w. w)\<rparr>"

definition local_conf :: redis_conf where
  "local_conf = \<lparr>rc_hostname = ''127.0.0.1'', rc_port = 6379, rc_db = 0, rc_connect_timeout = 3, rc_command_timeout = 1, rc_backoff_max = 8\<rparr>"

lemma redis_check_backoff_example:
  "\<exists>st' w'. redis_check dead_redis local_conf ''k'' 60 100 redis_start 100 = (NONCE_ABORT, st', w') \<and>
    rs_retry_after st' = 104 \<and> 1 \<le> rs_backoff st' \<and> rs_backoff st' \<le> 8"
proof -
  let ?r = "redis_check dead_redis local_conf ''k'' 60 100 redis_start 100"
  have f: "fst ?r = NONCE_ABORT" "rs_retry_after (fst (snd ?r)) = 104" by code_simp+
  then obtain st' w' where s: "?r = (NONCE_ABORT, st', w')" by (metis prod.collapse)
  have "rs_retry_after st' = 104" using f(2) s by simp
  moreover have "rs_retry_after redis_start = 0" "0 \<le> rs_backoff redis_start" "max 1 (rc_backoff_max local_conf) = 8" by code_simp+
  ultimately show ?thesis using redis_check_backoff [OF s] s by auto
qed

section \<open>Consecutive failures\<close>

text \<open>The server cannot be reached: no connection, or no reply or an error to the command and its retry.\<close>

definition unreached :: "'w hiredis \<Rightarrow> redis_conf \<Rightarrow> bytes \<Rightarrow> int \<Rightarrow> redis_state \<Rightarrow> 'w \<Rightarrow> bool" where
  "unreached lib conf key ttl st w =
     (case redis_connect lib conf st w of
        (False, _, _) \<Rightarrow> True
      | (True, st, w) \<Rightarrow> fst (redis_command lib conf key ttl st w) \<in> {None, Some REPLY_ERROR})"

text \<open>
  The checks of a worker, each with its key, its lifetime, its time and the world it finds, and beside the
  worker's state the number of failures since the last definite answer: a check that is refused before the
  network is used, or whose reply says nothing, does not count.
\<close>

definition redis_next :: "'w hiredis \<Rightarrow> redis_conf \<Rightarrow> bytes \<times> int \<times> int \<times> 'w \<Rightarrow> redis_state \<times> nat \<Rightarrow> redis_state \<times> nat" where
  "redis_next lib conf call s =
     (case (call, s) of ((key, ttl, now, w), st, failures) \<Rightarrow>
        case redis_check lib conf key ttl now st w of (r, st', _) \<Rightarrow>
          (st', if ttl < 1 \<or> holds_off st now then failures
                else if unreached lib conf key ttl st w then Suc failures
                else if r = NONCE_ABORT then failures else 0))"

definition redis_calls :: "'w hiredis \<Rightarrow> redis_conf \<Rightarrow> (bytes \<times> int \<times> int \<times> 'w) list \<Rightarrow> redis_state \<times> nat \<Rightarrow> redis_state \<times> nat" where
  "redis_calls lib conf calls s = fold (redis_next lib conf) calls s"

definition backoff_after :: "redis_conf \<Rightarrow> nat \<Rightarrow> int" where
  "backoff_after conf failures = (if failures = 0 then 0 else min (2 ^ (failures - 1)) (max 1 (rc_backoff_max conf)))"

lemma backoff_after_Suc: "redis_next_backoff (backoff_after conf n) (rc_backoff_max conf) = backoff_after conf (Suc n)"
proof (cases n)
  case 0
  then show ?thesis by (simp add: backoff_after_def redis_next_backoff_def Let_def)
next
  case (Suc m)
  then show ?thesis using next_backoff_min [of "2 ^ m" "rc_backoff_max conf"] by (simp add: backoff_after_def)
qed

lemma redis_check_fails:
  assumes "1 \<le> ttl" and "\<not> holds_off st now" and "unreached lib conf key ttl st w" and "redis_check lib conf key ttl now st w = (r, st', w')"
  shows "r = NONCE_ABORT \<and> rs_backoff st' = redis_next_backoff (rs_backoff st) (rc_backoff_max conf) \<and>
    rs_retry_after st' = wall_clock lib w' + rs_backoff st'"
proof -
  obtain ok st1 w1 where c: "redis_connect lib conf st w = (ok, st1, w1)" by (metis prod_cases3)
  obtain resp retried st2 w2 where m: "redis_command lib conf key ttl st1 w1 = (resp, retried, st2, w2)" by (metis prod_cases4)
  note k = redis_connect_keeps [OF c] redis_command_keeps [OF m]
  from assms c m have "(r, st', w') = (NONCE_ABORT, redis_arm_backoff lib conf st1 w1, w1) \<or>
      (r, st', w') = (NONCE_ABORT, redis_arm_backoff lib conf (redis_close st2) w2, w2)"
    by (auto simp: redis_check_def holds_off_def unreached_def split: bool.splits)
  with k show ?thesis by (auto simp: redis_arm_backoff_def redis_close_def Let_def)
qed

lemma redis_check_reached:
  assumes "1 \<le> ttl" and "\<not> holds_off st now" and "\<not> unreached lib conf key ttl st w" and "redis_check lib conf key ttl now st w = (r, st', w')"
  shows "rs_backoff st' = (if r = NONCE_ABORT then rs_backoff st else 0)"
proof -
  obtain ok st1 w1 where c: "redis_connect lib conf st w = (ok, st1, w1)" by (metis prod_cases3)
  obtain resp retried st2 w2 where m: "redis_command lib conf key ttl st1 w1 = (resp, retried, st2, w2)" by (metis prod_cases4)
  note k = redis_connect_keeps [OF c] redis_command_keeps [OF m]
  from assms(3) c m have ok: "ok" "resp \<noteq> None" "resp \<noteq> Some REPLY_ERROR" by (cases ok; auto simp: unreached_def)+
  then consider "resp = Some REPLY_NIL" | v where "resp = Some (REPLY_STATUS v)" | "resp = Some REPLY_OTHER"
    by (metis not_None_eq redis_reply.exhaust)
  then show ?thesis
    using assms(1,2,4) ok(1) c m k by cases (auto simp: redis_check_def holds_off_def redis_close_def split: if_splits)
qed

lemma redis_next_backoff_after:
  assumes "redis_next lib conf call (st, n) = (st', n')" and "rs_backoff st = backoff_after conf n"
  shows "rs_backoff st' = backoff_after conf n'"
proof -
  obtain key ttl now w where call: "call = (key, ttl, now, w)" by (metis prod_cases4)
  obtain r st1 w1 where r: "redis_check lib conf key ttl now st w = (r, st1, w1)" by (metis prod_cases3)
  with assms(1) call have n: "st' = st1" "n' = (if ttl < 1 \<or> holds_off st now then n
      else if unreached lib conf key ttl st w then Suc n else if r = NONCE_ABORT then n else 0)"
    by (auto simp: redis_next_def)
  consider "ttl < 1 \<or> holds_off st now" | "1 \<le> ttl" "\<not> holds_off st now" "unreached lib conf key ttl st w"
    | "1 \<le> ttl" "\<not> holds_off st now" "\<not> unreached lib conf key ttl st w" by linarith
  then show ?thesis
  proof cases
    case 1
    with r have "st1 = st" by (auto simp: redis_check_def holds_off_def split: if_splits)
    with 1 n assms(2) show ?thesis by simp
  next
    case 2
    from redis_check_fails [OF 2 r] 2 n assms(2) show ?thesis by (simp add: backoff_after_Suc)
  next
    case 3
    from redis_check_reached [OF 3 r] 3 n assms(2) show ?thesis by (simp add: backoff_after_def)
  qed
qed

lemma redis_calls_backoff:
  "redis_calls lib conf calls (st, n) = (st', n') \<Longrightarrow> rs_backoff st = backoff_after conf n \<Longrightarrow> rs_backoff st' = backoff_after conf n'"
proof (induction calls arbitrary: st n)
  case Nil
  then show ?case by (simp add: redis_calls_def)
next
  case (Cons call calls)
  obtain st1 n1 where s: "redis_next lib conf call (st, n) = (st1, n1)" by fastforce
  with Cons.prems(1) have "redis_calls lib conf calls (st1, n1) = (st', n')" by (simp add: redis_calls_def)
  with Cons.IH redis_next_backoff_after [OF s Cons.prems(2)] show ?case by blast
qed

text \<open>C28: The window after a failure is exponential, and not the connect timeout.  Take any client library, any
  configuration and any checks of a worker from its start, each in whatever world it finds.  After \<open>n\<close> failures
  in a row the next one holds off further attempts until \<open>min (2 ^ n) (max 1 backoff_max)\<close> seconds
  after the time it is noticed, whatever the timeouts are; until then a check answers without the
  network and changes nothing, and a definite answer starts the count again.\<close>

theorem redis_backoff_is_exponential:
  assumes "redis_calls lib conf calls (redis_start, 0) = (st, n)" and "redis_check lib conf key ttl now st w = (r, st', w')" and "1 \<le> ttl"
  shows "rs_backoff st = (if n = 0 then 0 else min (2 ^ (n - 1)) (max 1 (rc_backoff_max conf))) \<and>
    (holds_off st now \<longrightarrow> r = NONCE_ABORT \<and> st' = st \<and> w' = w) \<and>
    (\<not> holds_off st now \<and> unreached lib conf key ttl st w \<longrightarrow>
       r = NONCE_ABORT \<and> rs_retry_after st' = wall_clock lib w' + min (2 ^ n) (max 1 (rc_backoff_max conf))) \<and>
    (r = NONCE_OK \<or> r = NONCE_DECLINED \<longrightarrow> rs_retry_after st' = 0 \<and>
       redis_calls lib conf (calls @ [(key, ttl, now, w)]) (redis_start, 0) = (st', 0))"
proof -
  have "rs_backoff redis_start = backoff_after conf 0" by (simp add: redis_start_def backoff_after_def)
  from redis_calls_backoff [OF assms(1) this] have b: "rs_backoff st = backoff_after conf n" .
  then have nn: "0 \<le> rs_backoff st" by (simp add: backoff_after_def le_max_iff_disj)
  note k = redis_check_backoff [OF assms(2) nn]
  have "rs_retry_after st' = wall_clock lib w' + min (2 ^ n) (max 1 (rc_backoff_max conf)) \<and> r = NONCE_ABORT"
    if "\<not> holds_off st now" "unreached lib conf key ttl st w"
    using redis_check_fails [OF assms(3) that assms(2)] by (simp add: b backoff_after_Suc) (simp add: backoff_after_def)
  moreover have "redis_calls lib conf (calls @ [(key, ttl, now, w)]) (redis_start, 0) = (st', 0)" if d: "r = NONCE_OK \<or> r = NONCE_DECLINED"
  proof -
    have "\<not> holds_off st now" using k d assms(3) by auto
    moreover have "\<not> unreached lib conf key ttl st w"
      using redis_check_fails [OF assms(3) \<open>\<not> holds_off st now\<close> _ assms(2)] d by auto
    ultimately show ?thesis using assms d by (auto simp: redis_calls_def redis_next_def)
  qed
  ultimately show ?thesis using k b assms(3) by (auto simp: backoff_after_def)
qed

theorem redis_backoff_is_exponential_witness:
  "\<exists>st st' w'. redis_calls dead_redis local_conf [(''k'', 60, 100, 100), (''k'', 60, 104, 104)] (redis_start, 0) = (st, 2) \<and>
     redis_check dead_redis local_conf ''k'' 60 109 st 109 = (NONCE_ABORT, st', w') \<and> rs_retry_after st' = wall_clock dead_redis w' + 4"
proof -
  let ?s = "redis_calls dead_redis local_conf [(''k'', 60, 100, 100), (''k'', 60, 104, 104)] (redis_start, 0)"
  let ?r = "redis_check dead_redis local_conf ''k'' 60 109 (fst ?s) 109"
  have n: "snd ?s = 2" by code_simp
  then have s: "?s = (fst ?s, 2)" by (metis prod.collapse)
  obtain r st' w' where r: "?r = (r, st', w')" by (metis prod_cases3)
  have u: "\<not> holds_off (fst ?s) 109" "unreached dead_redis local_conf ''k'' 60 (fst ?s) 109" by code_simp+
  have "(1 :: int) \<le> 60" by simp
  from redis_backoff_is_exponential [OF s r this] u
  have "r = NONCE_ABORT \<and> rs_retry_after st' = wall_clock dead_redis w' + min (2 ^ 2) (max 1 (rc_backoff_max local_conf))" by blast
  moreover have "min (2 ^ 2) (max 1 (rc_backoff_max local_conf)) = 4" by code_simp
  ultimately show ?thesis using s r by (metis (no_types))
qed

end
