(* ===== verification/Request.thy ===== *)
theory Request
  imports Profile
begin

text \<open>
  How the module reads a request (\<open>src/ngx_http_auth_httpsig_module.c\<close>): the search for a header, the
  collection of its lines, and the snapshot the signature base is built from.

  Of nginx's request structure the record \<open>http_request\<close> has the fields the module reads; the parts of the
  header list are one list.  The value of the variable named by \<open>auth_httpsig_scheme_var\<close> is an argument.
  Every \<open>ngx_array_push\<close> and \<open>ngx_pnalloc\<close> is an allocation of the request pool.
\<close>

record http_request =
  hr_method_name :: bytes
  hr_connect :: bool
  hr_unparsed_uri :: bytes
  hr_headers :: "(bytes \<times> bytes) list"
  hr_host :: "bytes option"
  hr_server :: bytes

section \<open>Headers\<close>

definition header_is :: "bytes \<times> bytes \<Rightarrow> string \<Rightarrow> bool" where
  "header_is h name \<longleftrightarrow> length (fst h) = length name \<and> ngx_strncasecmp (fst h) name (length name) = 0"

definition find_header :: "(bytes \<times> bytes) list \<Rightarrow> string \<Rightarrow> bytes option" where
  "find_header headers name = map_option snd (find (\<lambda>h. header_is h name) headers)"

definition is_ows :: "char \<Rightarrow> bool" where
  "is_ows c \<longleftrightarrow> c = CHR '' '' \<or> c = CHR 0x09"

definition strip_ows :: "bytes \<Rightarrow> bytes" where
  "strip_ows v = rev (dropWhile is_ows (rev (dropWhile is_ows v)))"

fun collect_header_loop :: "(bytes \<times> bytes) list \<Rightarrow> string \<Rightarrow> bytes list \<Rightarrow> (pool, unit, bytes list) op" where
  "collect_header_loop [] name arr = ret arr"
| "collect_header_loop (h # hs) name arr =
     (if \<not> header_is h name then collect_header_loop hs name arr
      else bnd pool_alloc (\<lambda>_. collect_header_loop hs name (arr @ [strip_ows (snd h)])))"

definition collect_header :: "(bytes \<times> bytes) list \<Rightarrow> string \<Rightarrow> (pool, unit, bytes list) op" where
  "collect_header headers name = bnd pool_alloc (\<lambda>_. collect_header_loop headers name [])"

section \<open>The request snapshot\<close>

definition default_ports :: "(string \<times> string) list" where
  "default_ports = [(''http'', '':80''), (''https'', '':443'')]"

text \<open>The suffix of the first entry that applies is removed.\<close>

fun strip_port_loop :: "(string \<times> string) list \<Rightarrow> bytes \<Rightarrow> bytes \<Rightarrow> bytes" where
  "strip_port_loop [] scheme authority = authority"
| "strip_port_loop ((s, suffix) # ports) scheme authority =
     (if length scheme = length s \<and> ngx_strncasecmp scheme s (length s) = 0
         \<and> length suffix < length authority
         \<and> drop (length authority - length suffix) authority = suffix
      then take (length authority - length suffix) authority
      else strip_port_loop ports scheme authority)"

definition is_scheme_char :: "char \<Rightarrow> bool" where
  "is_scheme_char c \<longleftrightarrow> (CHR ''a'' \<le> c \<and> c \<le> CHR ''z'') \<or> (CHR ''A'' \<le> c \<and> c \<le> CHR ''Z'')
     \<or> (CHR ''0'' \<le> c \<and> c \<le> CHR ''9'') \<or> c = CHR ''+'' \<or> c = CHR ''-'' \<or> c = CHR ''.''"

text \<open>The path and query of the request target, without the scheme and authority of an absolute form.\<close>

definition path_query :: "bytes \<Rightarrow> bytes" where
  "path_query uri =
     (let cp = dropWhile is_scheme_char uri
      in if length cp < length uri \<and> 3 \<le> length cp \<and> take 3 cp = ''://'' then
           dropWhile (\<lambda>c. c \<noteq> CHR ''/'' \<and> c \<noteq> CHR ''?'') (drop 3 cp)
         else uri)"

definition request_target :: "http_request \<Rightarrow> request \<Rightarrow> request" where
  "request_target r req =
     (if hr_connect r \<or> hr_unparsed_uri r = ''*'' then req\<lparr>rq_target_defined := False\<rparr>
      else
        let pq = path_query (hr_unparsed_uri r);
            rest = dropWhile (\<lambda>c. c \<noteq> CHR ''?'') pq;
            req = req\<lparr>rq_target_defined := True\<rparr>
        in if rest \<noteq> [] then
             req\<lparr>rq_has_query := True, rq_path := takeWhile (\<lambda>c. c \<noteq> CHR ''?'') pq, rq_query := tl rest\<rparr>
           else req\<lparr>rq_path := pq\<rparr>)"

fun headers_loop :: "(bytes \<times> bytes) list \<Rightarrow> header list \<Rightarrow> (pool, unit, header list) op" where
  "headers_loop [] arr = ret arr"
| "headers_loop ((name, value) # hs) arr =
     bnd pool_alloc (\<lambda>_.
     bnd pool_alloc (\<lambda>_.
       headers_loop hs (arr @ [\<lparr>h_name = ngx_strlow name, h_value = strip_ows value\<rparr>])))"

definition request_zero :: request where
  "request_zero =
     \<lparr>rq_method = [], rq_scheme = [], rq_authority = [], rq_path = [], rq_query = [], rq_has_query = False,
      rq_request_target = [], rq_target_defined = False, rq_headers = []\<rparr>"

text \<open>\<open>scheme\<close> is \<open>None\<close> when the variable is not found.\<close>

definition build_request :: "bytes option \<Rightarrow> http_request \<Rightarrow> (pool, unit, request) op" where
  "build_request scheme r =
     (case scheme of
        None \<Rightarrow> (\<lambda>pool. (NGX_ERROR, pool))
      | Some s \<Rightarrow>
          let host = (case hr_host r of Some h \<Rightarrow> h | None \<Rightarrow> hr_server r) in
          bnd pool_alloc (\<lambda>_.
            let req = request_zero\<lparr>rq_method := hr_method_name r, rq_scheme := s,
                        rq_authority := strip_port_loop default_ports s (ngx_strlow host),
                        rq_request_target := hr_unparsed_uri r\<rparr>;
                req = request_target r req
            in bnd pool_alloc (\<lambda>_.
               bnd (headers_loop (hr_headers r) []) (\<lambda>hs.
                 ret (req\<lparr>rq_headers := hs\<rparr>)))))"

end
