(* ===== verification/Module.thy ===== *)
theory Module
  imports Request Directory Keys_Cache Cache Nonce_Redis
begin

text \<open>
  The request handling of \<open>src/ngx_http_auth_httpsig_module.c\<close>: the key directory fetch with its completion
  and its backstop, the resolution of the fetched document, the nonce check, the evaluation of a request, and
  the access handler.

  \<open>st\<close> is what outlives a call: the request's context and its pool (with the nonce verdict kept in it), and
  the state shared beyond the request: the zones, the worker's cache and its Redis connection, and the
  outside world \<open>'w\<close>.  \<open>env\<close> is what a call only reads: the configuration of the location, the request, the
  libraries, and the cached time, which nginx does not change while a handler runs.  \<open>ngx_pool_cleanup_add\<close> counts
  as one allocation, since it links nothing unless both of its own succeed.
\<close>

section \<open>Configuration\<close>

datatype httpsig_mode = MODE_OFF | MODE_OBSERVE | MODE_ENFORCE

datatype nonce_backend = NONCE_STORE_OFF | NONCE_STORE_SHM | NONCE_STORE_REDIS

record directory_conf =
  dc_enabled :: bool
  dc_allow :: "bytes list"
  dc_cache_min_ttl :: int
  dc_cache_max_ttl :: int
  dc_key_rotation_retry_ttl :: int
  dc_max_size :: nat

record status_conf =
  status_missing :: nat
  status_parse_error :: nat
  status_invalid :: nat
  status_replay :: nat

record 'jwks loc_conf =
  lc_mode :: httpsig_mode
  lc_keyid_fallback_allow :: bool
  lc_require :: bool
  lc_nonce_required :: bool
  lc_nonce_failure_closed :: bool
  lc_nonce_store :: nonce_backend
  lc_jwks_keys :: "'jwks keys option"
  lc_profile_def :: profile
  lc_expires_max :: int
  lc_max_skew :: int
  lc_directory :: directory_conf
  lc_status :: status_conf
  lc_satisfy_any :: bool

section \<open>State\<close>

record httpsig_ctx =
  cx_done :: bool
  cx_directory_done :: bool
  cx_claimed :: bool
  cx_keys_unavailable :: bool
  cx_internal_error :: bool
  cx_nonce_store_unavailable :: bool
  cx_result :: httpsig_result
  cx_directory_reason :: fetch_reason
  cx_keyid :: bytes
  cx_agent :: bytes
  cx_directory_host :: bytes
  cx_jwks :: bytes
  cx_directory_generation :: nat

text \<open>\<open>ngx_pcalloc\<close>: the zeroed context, whose \<open>result\<close> is the first code of the enumeration.\<close>

definition ctx_zero :: httpsig_ctx where
  "ctx_zero =
     \<lparr>cx_done = False, cx_directory_done = False, cx_claimed = False, cx_keys_unavailable = False,
      cx_internal_error = False, cx_nonce_store_unavailable = False, cx_result = RESULT_OK,
      cx_directory_reason = FETCH_OK, cx_keyid = [], cx_agent = [], cx_directory_host = [], cx_jwks = [],
      cx_directory_generation = 0\<rparr>"

record nonce_verdict =
  nv_result :: httpsig_result
  nv_unavailable :: bool
  nv_internal_error :: bool

record directory_cleanup =
  dcl_host :: bytes
  dcl_retry_ttl :: int

record ('jwks, 'w) state =
  st_ctx :: "httpsig_ctx option"
  st_pool :: pool
  st_verdict :: "nonce_verdict option"
  st_cleanup :: "directory_cleanup option"
  st_zone :: cache_ctx
  st_local_keys :: "'jwks keys_cache option"
  st_nonce_zone :: nonce_ctx
  st_redis :: redis_state
  st_world :: 'w

record ('json, 'jwks, 'w) env =
  ev_lib :: "('json, 'jwks) jwx"
  ev_hiredis :: "'w hiredis"
  ev_redis_conf :: redis_conf
  ev_lcf :: "'jwks loc_conf"
  ev_request :: http_request
  ev_scheme :: "bytes option"
  ev_now :: int
  ev_subrequest_ok :: bool

datatype handler_rc = HANDLER_OK | HANDLER_DECLINED | HANDLER_AGAIN | HANDLER_ERROR | HANDLER_STATUS nat

definition HTTP_UNAUTHORIZED :: nat where "HTTP_UNAUTHORIZED = 401"
definition HTTP_FORBIDDEN :: nat where "HTTP_FORBIDDEN = 403"
definition HTTP_INTERNAL_SERVER_ERROR :: nat where "HTTP_INTERNAL_SERVER_ERROR = 500"
definition HTTP_SERVICE_UNAVAILABLE :: nat where "HTTP_SERVICE_UNAVAILABLE = 503"

text \<open>An operation of the request pool.\<close>

definition on_st_pool :: "(pool, 'e, 'a) op \<Rightarrow> (('jwks, 'w) state, 'e, 'a) op" where
  "on_st_pool m st = (case m (st_pool st) of (r, pool) \<Rightarrow> (r, st\<lparr>st_pool := pool\<rparr>))"

definition st_palloc :: "('jwks, 'w) state \<Rightarrow> bool \<times> ('jwks, 'w) state" where
  "st_palloc st = (case palloc (st_pool st) of (ok, pool) \<Rightarrow> (ok, st\<lparr>st_pool := pool\<rparr>))"

section \<open>The fetched document\<close>

text \<open>The parse without the worker's cache.\<close>

definition resolve_direct :: "('json, 'jwks, 'w) env \<Rightarrow> httpsig_ctx \<Rightarrow> ('jwks, 'w) state \<Rightarrow>
    'jwks keys option \<times> ('jwks, 'w) state" where
  "resolve_direct env ctx st =
     (case on_st_pool (load_jwks (ev_lib env) (cx_jwks ctx)) st of
        (NGX_OK keys, st) \<Rightarrow> (Some keys, st)
      | (_, st) \<Rightarrow> (None, st))"

definition resolve_keys :: "('json, 'jwks, 'w) env \<Rightarrow> httpsig_ctx \<Rightarrow> ('jwks, 'w) state \<Rightarrow>
    'jwks keys option \<times> ('jwks, 'w) state" where
  "resolve_keys env ctx st =
     (if cx_jwks ctx = [] then (None, st)
      else case st_local_keys st of
        Some kc \<Rightarrow>
          if cx_directory_generation ctx \<noteq> 0 then
            (case kc_get kc (cx_directory_host ctx) (cx_directory_generation ctx) of
               (Some keys, kc) \<Rightarrow> (Some keys, st\<lparr>st_local_keys := Some kc\<rparr>)
             | (None, kc) \<Rightarrow>
                 (case kc_put (ev_lib env) kc (cx_directory_host ctx) (cx_jwks ctx) (cx_directory_generation ctx) (st_pool st) of
                    (NGX_OK keys, kc, pool) \<Rightarrow> (Some keys, st\<lparr>st_local_keys := Some kc, st_pool := pool\<rparr>)
                  | (_, kc, pool) \<Rightarrow> resolve_direct env ctx (st\<lparr>st_local_keys := Some kc, st_pool := pool\<rparr>)))
          else resolve_direct env ctx st
      | None \<Rightarrow> resolve_direct env ctx st)"

section \<open>The nonce check\<close>

text \<open>The configured store.\<close>

definition nonce_consult :: "('json, 'jwks, 'w) env \<Rightarrow> bytes \<Rightarrow> int \<Rightarrow> int \<Rightarrow> ('jwks, 'w) state \<Rightarrow> nonce_rc \<times> ('jwks, 'w) state" where
  "nonce_consult env key ttl now st =
     (case lc_nonce_store (ev_lcf env) of
        NONCE_STORE_SHM \<Rightarrow>
          (case shm_check (st_nonce_zone st) key ttl now of (rc, zone) \<Rightarrow> (rc, st\<lparr>st_nonce_zone := zone\<rparr>))
      | NONCE_STORE_REDIS \<Rightarrow>
          (case redis_check (ev_hiredis env) (ev_redis_conf env) key ttl (ev_now env) (st_redis st) (st_world st) of
             (rc, redis, w) \<Rightarrow> (rc, st\<lparr>st_redis := redis, st_world := w\<rparr>))
      | NONCE_STORE_OFF \<Rightarrow> (NONCE_ERROR, st))"

text \<open>The verdict for a nonce that has not been checked in this request; the flag is \<open>ctx->internal_error\<close>.\<close>

definition nonce_verdict_zero :: nonce_verdict where
  "nonce_verdict_zero = \<lparr>nv_result = RESULT_OK, nv_unavailable = False, nv_internal_error = False\<rparr>"

definition nonce_judge :: "('json, 'jwks, 'w) env \<Rightarrow> signature \<Rightarrow> int \<Rightarrow> ('jwks, 'w) state \<Rightarrow> nonce_verdict \<times> ('jwks, 'w) state" where
  "nonce_judge env sig now st =
     (let verdict = nonce_verdict_zero in
      if NONCE_MAX_LEN < length (sg_nonce sig) then (verdict\<lparr>nv_result := RESULT_NONCE_TOO_LONG\<rparr>, st)
      else case nonce_store_key (sg_agent_host sig) (sg_keyid sig) (sg_nonce sig) (st_pool st) of
        (None, pool) \<Rightarrow> (verdict\<lparr>nv_internal_error := True\<rparr>, st\<lparr>st_pool := pool\<rparr>)
      | (Some key, pool) \<Rightarrow>
          (case nonce_consult env key (nonce_store_ttl (sg_expires sig) (lc_max_skew (ev_lcf env)) now) now (st\<lparr>st_pool := pool\<rparr>) of
             (NONCE_OK, st) \<Rightarrow> (verdict, st)
           | (NONCE_DECLINED, st) \<Rightarrow> (verdict\<lparr>nv_result := RESULT_NONCE_REPLAYED\<rparr>, st)
           | (NONCE_ABORT, st) \<Rightarrow>
               (verdict\<lparr>nv_result := if lc_nonce_failure_closed (ev_lcf env) then RESULT_NONCE_STORE_UNAVAILABLE else RESULT_OK,
                        nv_unavailable := True\<rparr>, st)
           | (NONCE_ERROR, st) \<Rightarrow> (verdict\<lparr>nv_internal_error := True\<rparr>, st)))"

definition check_nonce :: "('json, 'jwks, 'w) env \<Rightarrow> httpsig_ctx \<Rightarrow> signature \<Rightarrow> int \<Rightarrow> ('jwks, 'w) state \<Rightarrow>
    httpsig_result \<times> httpsig_ctx \<times> ('jwks, 'w) state" where
  "check_nonce env ctx sig now st =
     (if lc_nonce_store (ev_lcf env) = NONCE_STORE_OFF then (RESULT_OK, ctx, st)
      else if sg_nonce sig = [] then
        (if lc_nonce_required (ev_lcf env) then RESULT_NONCE_MISSING else RESULT_OK, ctx, st)
      else case st_verdict st of
        Some verdict \<Rightarrow>
          (nv_result verdict,
           ctx\<lparr>cx_nonce_store_unavailable := nv_unavailable verdict,
               cx_internal_error := cx_internal_error ctx \<or> nv_internal_error verdict\<rparr>, st)
      | None \<Rightarrow>
          (case st_palloc st of
             (False, st) \<Rightarrow> (RESULT_OK, ctx\<lparr>cx_internal_error := True\<rparr>, st)
           | (True, st) \<Rightarrow>
               (case nonce_judge env sig now st of
                  (verdict, st) \<Rightarrow>
                    (nv_result verdict,
                     if nv_internal_error verdict then ctx\<lparr>cx_internal_error := True\<rparr>
                     else if nv_result verdict = RESULT_NONCE_TOO_LONG then ctx
                     else ctx\<lparr>cx_nonce_store_unavailable := nv_unavailable verdict\<rparr>,
                     st\<lparr>st_verdict := Some verdict\<rparr>))))"

section \<open>Evaluation\<close>

text \<open>From the request snapshot on: the keys, and the judgment with the signature it leaves behind.\<close>

definition verify_request :: "('json, 'jwks, 'w) env \<Rightarrow> httpsig_ctx \<Rightarrow> request \<Rightarrow> ('jwks, 'w) state \<Rightarrow>
    (httpsig_result, unit) rc \<times> signature \<times> httpsig_ctx \<times> ('jwks, 'w) state" where
  "verify_request env ctx req st =
     (case resolve_keys env ctx st of
        (dynamic_keys, st) \<Rightarrow>
          let ctx = (if dynamic_keys = None \<and> cx_jwks ctx \<noteq> []
                     then ctx\<lparr>cx_keys_unavailable := True, cx_directory_reason := FETCH_INVALID\<rparr> else ctx)
          in case keys_chain dynamic_keys (lc_jwks_keys (ev_lcf env)) (st_pool st) of
            (keys, pool) \<Rightarrow>
              let pctx = \<lparr>pc_profile = lc_profile_def (ev_lcf env), pc_keys = keys,
                          pc_kid_fallback_keys = if lc_keyid_fallback_allow (ev_lcf env) then dynamic_keys else None,
                          pc_expires_max = lc_expires_max (ev_lcf env), pc_max_skew = lc_max_skew (ev_lcf env),
                          pc_now = ev_now env\<rparr>
              in case profile_verify (ev_lib env) (ev_now env) pctx req (pool, signature_zero) of
                (rc, pool, sig) \<Rightarrow> (rc, sig, ctx, st\<lparr>st_pool := pool\<rparr>))"

text \<open>The result of the request; the context is marked done before.\<close>

definition judge_request :: "('json, 'jwks, 'w) env \<Rightarrow> httpsig_ctx \<Rightarrow> request \<Rightarrow> ('jwks, 'w) state \<Rightarrow>
    httpsig_ctx \<times> ('jwks, 'w) state" where
  "judge_request env ctx req st =
     (case verify_request env ctx req st of
        (NGX_ERROR, sig, ctx, st) \<Rightarrow> (ctx\<lparr>cx_internal_error := True\<rparr>, st)
      | (NGX_DECLINED result, sig, ctx, st) \<Rightarrow>
          (ctx\<lparr>cx_result :=
             if (result = RESULT_UNKNOWN_KEYID \<or> result = RESULT_KEYID_NOT_THUMBPRINT) \<and> cx_keys_unavailable ctx
             then RESULT_KEY_UNAVAILABLE else result\<rparr>, st)
      | (NGX_OK _, sig, ctx, st) \<Rightarrow>
          (case check_nonce env ctx sig (ev_now env) st of
             (result, ctx, st) \<Rightarrow>
               (if result = RESULT_OK
                then ctx\<lparr>cx_result := result, cx_keyid := sg_keyid sig, cx_agent := sg_agent_host sig\<rparr>
                else ctx\<lparr>cx_result := result\<rparr>, st)))"

text \<open>
  \<open>evaluate_new\<close> is what follows once the context is there and not done.  The first flag of \<open>evaluate\<close> is the
  return value \<open>NGX_OK\<close>, the second result \<open>*out\<close>.
\<close>

definition evaluate_new :: "('json, 'jwks, 'w) env \<Rightarrow> httpsig_ctx \<Rightarrow> ('jwks, 'w) state \<Rightarrow> httpsig_ctx \<times> ('jwks, 'w) state" where
  "evaluate_new env ctx st =
     (let ctx = ctx\<lparr>cx_done := True, cx_result := RESULT_NOT_SIGNED\<rparr> in
      if find_header (hr_headers (ev_request env)) ''signature-input'' = None then (ctx, st)
      else case on_st_pool (build_request (ev_scheme env) (ev_request env)) st of
        (NGX_OK req, st) \<Rightarrow> judge_request env ctx req st
      | (_, st) \<Rightarrow> (ctx\<lparr>cx_internal_error := True\<rparr>, st))"

definition evaluate :: "('json, 'jwks, 'w) env \<Rightarrow> ('jwks, 'w) state \<Rightarrow> bool \<times> httpsig_ctx option \<times> ('jwks, 'w) state" where
  "evaluate env st =
     (if lc_mode (ev_lcf env) = MODE_OFF then (True, None, st)
      else
        let run = (\<lambda>ctx st. case evaluate_new env ctx st of (ctx, st) \<Rightarrow> (True, Some ctx, st\<lparr>st_ctx := Some ctx\<rparr>))
        in case st_ctx st of
          Some ctx \<Rightarrow> if cx_done ctx then (True, Some ctx, st) else run ctx st
        | None \<Rightarrow>
            (case st_palloc st of
               (False, st) \<Rightarrow> (False, None, st)
             | (True, st) \<Rightarrow> run ctx_zero st))"

section \<open>Access\<close>

definition deny_code :: "'jwks loc_conf \<Rightarrow> nat \<Rightarrow> handler_rc" where
  "deny_code lcf code =
     HANDLER_STATUS (if lc_satisfy_any lcf \<and> code \<noteq> HTTP_FORBIDDEN \<and> code \<noteq> HTTP_UNAUTHORIZED then HTTP_FORBIDDEN else code)"

definition access_result :: "'jwks loc_conf \<Rightarrow> httpsig_result \<Rightarrow> handler_rc" where
  "access_result lcf result =
     (case result of
        RESULT_OK \<Rightarrow> HANDLER_OK
      | RESULT_NOT_SIGNED \<Rightarrow>
          if \<not> lc_require lcf then HANDLER_DECLINED else deny_code lcf (status_missing (lc_status lcf))
      | RESULT_KEY_UNAVAILABLE \<Rightarrow> HANDLER_DECLINED
      | RESULT_NONCE_REPLAYED \<Rightarrow>
          if lc_mode lcf \<noteq> MODE_ENFORCE then HANDLER_DECLINED else deny_code lcf (status_replay (lc_status lcf))
      | RESULT_NONCE_STORE_UNAVAILABLE \<Rightarrow>
          if lc_mode lcf \<noteq> MODE_ENFORCE then HANDLER_DECLINED else deny_code lcf HTTP_SERVICE_UNAVAILABLE
      | _ \<Rightarrow>
          if lc_mode lcf \<noteq> MODE_ENFORCE then HANDLER_DECLINED
          else if result = RESULT_PARSE_ERROR then deny_code lcf (status_parse_error (lc_status lcf))
          else deny_code lcf (status_invalid (lc_status lcf)))"

definition access_handler :: "('json, 'jwks, 'w) env \<Rightarrow> ('jwks, 'w) state \<Rightarrow> handler_rc \<times> ('jwks, 'w) state" where
  "access_handler env st =
     (let lcf = ev_lcf env;
          internal = (if lc_mode lcf = MODE_ENFORCE then HANDLER_STATUS HTTP_INTERNAL_SERVER_ERROR else HANDLER_DECLINED)
      in if lc_mode lcf \<noteq> MODE_ENFORCE \<and> \<not> lc_require lcf then (HANDLER_DECLINED, st)
         else case evaluate env st of
           (False, _, st) \<Rightarrow> (internal, st)
         | (True, None, st) \<Rightarrow> (internal, st)
         | (True, Some ctx, st) \<Rightarrow>
             if cx_internal_error ctx then (internal, st) else (access_result lcf (cx_result ctx), st))"

section \<open>The key directory fetch\<close>

definition directory_fail_open :: "httpsig_ctx \<Rightarrow> fetch_reason \<Rightarrow> ('jwks, 'w) state \<Rightarrow> handler_rc \<times> ('jwks, 'w) state" where
  "directory_fail_open ctx reason st =
     (let ctx = (if cx_jwks ctx = [] then ctx\<lparr>cx_keys_unavailable := True\<rparr> else ctx)
      in (HANDLER_DECLINED, st\<lparr>st_ctx := Some (ctx\<lparr>cx_directory_reason := reason, cx_directory_done := True\<rparr>)\<rparr>))"

definition directory_fail_open_release :: "('json, 'jwks, 'w) env \<Rightarrow> httpsig_ctx \<Rightarrow> int \<Rightarrow> fetch_reason \<Rightarrow> ('jwks, 'w) state \<Rightarrow>
    handler_rc \<times> ('jwks, 'w) state" where
  "directory_fail_open_release env ctx retry_ttl reason st =
     directory_fail_open (ctx\<lparr>cx_claimed := False\<rparr>) reason
       (st\<lparr>st_zone := cache_release (st_zone st) (cx_directory_host ctx) (ev_now env + retry_ttl)\<rparr>)"

text \<open>With the fetch right held: the cleanup, the subrequest, and its request body.\<close>

definition directory_fetch :: "('json, 'jwks, 'w) env \<Rightarrow> httpsig_ctx \<Rightarrow> ('jwks, 'w) state \<Rightarrow> handler_rc \<times> ('jwks, 'w) state" where
  "directory_fetch env ctx st =
     (let ctx = ctx\<lparr>cx_claimed := True\<rparr>;
          retry_ttl = dc_cache_min_ttl (lc_directory (ev_lcf env));
          fail = directory_fail_open_release env ctx retry_ttl FETCH_FAILED
      in case st_palloc st of
           (False, st) \<Rightarrow> fail st
         | (True, st) \<Rightarrow>
             let st = st\<lparr>st_cleanup := Some \<lparr>dcl_host = cx_directory_host ctx, dcl_retry_ttl = retry_ttl\<rparr>\<rparr> in
             (case st_palloc st of
                (False, st) \<Rightarrow> fail st
              | (True, st) \<Rightarrow>
                  if \<not> ev_subrequest_ok env then fail st
                  else (case st_palloc st of
                          (body, st) \<Rightarrow> (HANDLER_AGAIN, st\<lparr>st_ctx := Some ctx\<rparr>))))"

text \<open>
  What the handler does with a status of the lookup.  On a hit, an unknown keyid may claim a refetch, which
  goes on as if the lookup had claimed the fetch.
\<close>

definition rotation_signal :: "('json, 'jwks, 'w) env \<Rightarrow> bytes \<Rightarrow> 'jwks keys option \<Rightarrow> bool" where
  "rotation_signal env keyid keys \<longleftrightarrow>
     keys \<noteq> None \<and> \<not> keys_has (ev_lib env) keys keyid \<and> \<not> keys_has_kid (ev_lib env) keys keyid
     \<and> \<not> keys_has (ev_lib env) (lc_jwks_keys (ev_lcf env)) keyid"

definition directory_hit :: "('json, 'jwks, 'w) env \<Rightarrow> httpsig_ctx \<Rightarrow> bytes \<Rightarrow> ('jwks, 'w) state \<Rightarrow>
    handler_rc \<times> ('jwks, 'w) state" where
  "directory_hit env ctx keyid st =
     (let done = (\<lambda>st. (HANDLER_DECLINED, st\<lparr>st_ctx := Some (ctx\<lparr>cx_directory_done := True\<rparr>)\<rparr>)) in
      if keyid = [] then done st
      else case resolve_keys env ctx st of
        (keys, st) \<Rightarrow>
          if rotation_signal env keyid keys then
            (case cache_claim_rotation_refetch (st_zone st) (cx_directory_host ctx) (ev_now env)
                    (dc_key_rotation_retry_ttl (lc_directory (ev_lcf env))) of
               (True, zone) \<Rightarrow> directory_fetch env ctx (st\<lparr>st_zone := zone\<rparr>)
             | (False, zone) \<Rightarrow> done (st\<lparr>st_zone := zone\<rparr>))
          else done st)"

definition directory_lookup :: "('json, 'jwks, 'w) env \<Rightarrow> httpsig_ctx \<Rightarrow> bytes \<Rightarrow> ('jwks, 'w) state \<Rightarrow>
    handler_rc \<times> ('jwks, 'w) state" where
  "directory_lookup env ctx keyid st =
     (case cache_lookup (st_zone st) (st_pool st) (cx_directory_host ctx) (ev_now env) of
        (out, zone, pool) \<Rightarrow>
          let st = st\<lparr>st_zone := zone, st_pool := pool\<rparr>;
              ctx = ctx\<lparr>cx_directory_generation := lk_generation out\<rparr>
          in (case lk_rc out of
                NGX_OK CACHE_HIT \<Rightarrow> directory_hit env (ctx\<lparr>cx_jwks := lk_jwks out\<rparr>) keyid st
              | NGX_OK CACHE_BUSY \<Rightarrow>
                  if lk_jwks out \<noteq> [] then
                    (HANDLER_DECLINED, st\<lparr>st_ctx := Some (ctx\<lparr>cx_jwks := lk_jwks out, cx_directory_done := True\<rparr>)\<rparr>)
                  else directory_fail_open ctx FETCH_BUSY st
              | NGX_OK CACHE_NEGATIVE \<Rightarrow> directory_fail_open ctx FETCH_UNAVAILABLE st
              | NGX_OK CACHE_UNAVAILABLE \<Rightarrow> directory_fail_open ctx FETCH_UNAVAILABLE st
              | NGX_OK CACHE_CLAIMED \<Rightarrow> directory_fetch env ctx st
              | _ \<Rightarrow> directory_fail_open ctx FETCH_FAILED st))"

text \<open>From the header lines to the host.\<close>

definition directory_start :: "('json, 'jwks, 'w) env \<Rightarrow> httpsig_ctx \<Rightarrow> ('jwks, 'w) state \<Rightarrow> handler_rc \<times> ('jwks, 'w) state" where
  "directory_start env ctx st =
     (let headers = hr_headers (ev_request env);
          st = st\<lparr>st_ctx := Some ctx\<rparr>;
          ineligible = (\<lambda>st. (HANDLER_DECLINED, st\<lparr>st_ctx := Some (ctx\<lparr>cx_directory_done := True\<rparr>)\<rparr>))
      in case on_st_pool (collect_header headers ''signature-input'') st of
           (NGX_OK sig_input, st) \<Rightarrow>
             (case on_st_pool (collect_header headers ''signature-agent'') st of
                (NGX_OK sig_agent, st) \<Rightarrow>
                  if sig_input = [] \<or> sig_agent = [] then ineligible st
                  else (case on_st_pool (select_label (lc_profile_def (ev_lcf env)) sig_input) st of
                          (NGX_ERROR, st) \<Rightarrow> (HANDLER_ERROR, st)
                        | (NGX_DECLINED _, st) \<Rightarrow> ineligible st
                        | (NGX_OK (label, keyid), st) \<Rightarrow>
                            (case agent_authority sig_agent label (st_pool st) of
                               (authority, pool) \<Rightarrow>
                                 if authority = [] then directory_fail_open ctx FETCH_NOT_ALLOWED (st\<lparr>st_pool := pool\<rparr>)
                                 else (case normalize_host authority pool of
                                         (Inl _, pool) \<Rightarrow> directory_fail_open ctx FETCH_NOT_ALLOWED (st\<lparr>st_pool := pool\<rparr>)
                                       | (Inr host, pool) \<Rightarrow>
                                           if \<not> directory_allowed (dc_allow (lc_directory (ev_lcf env))) host
                                           then directory_fail_open ctx FETCH_NOT_ALLOWED (st\<lparr>st_pool := pool\<rparr>)
                                           else directory_lookup env (ctx\<lparr>cx_directory_host := host\<rparr>) keyid
                                             (st\<lparr>st_pool := pool\<rparr>))))
              | (_, st) \<Rightarrow> (HANDLER_ERROR, st))
         | (_, st) \<Rightarrow> (HANDLER_ERROR, st))"

text \<open>\<open>main\<close> is \<open>r == r->main\<close>.\<close>

definition directory_handler :: "('json, 'jwks, 'w) env \<Rightarrow> bool \<Rightarrow> ('jwks, 'w) state \<Rightarrow> handler_rc \<times> ('jwks, 'w) state" where
  "directory_handler env main st =
     (if \<not> main then (HANDLER_DECLINED, st)
      else if lc_mode (ev_lcf env) = MODE_OFF \<or> \<not> dc_enabled (lc_directory (ev_lcf env)) then (HANDLER_DECLINED, st)
      else case st_ctx st of
        Some ctx \<Rightarrow>
          if cx_directory_done ctx then (HANDLER_DECLINED, st)
          else if cx_claimed ctx then (HANDLER_AGAIN, st)
          else if cx_done ctx then (HANDLER_DECLINED, st\<lparr>st_ctx := Some (ctx\<lparr>cx_directory_done := True\<rparr>)\<rparr>)
          else directory_start env ctx st
      | None \<Rightarrow>
          (case st_palloc st of
             (False, st) \<Rightarrow> (HANDLER_ERROR, st)
           | (True, st) \<Rightarrow> directory_start env ctx_zero st))"

section \<open>Completion of a fetch\<close>

text \<open>
  What the subrequest left behind: whether it ended with \<open>NGX_OK\<close> and an upstream, and then the upstream's
  schema, the status, the content type, the body, the \<open>Cache-Control\<close> lines and the \<open>Age\<close> value as
  \<open>ngx_atotm\<close>, which is not in the repository, reads it (\<open>None\<close> when absent or not a number).
\<close>

record fetch_response =
  fr_schema :: bytes
  fr_status :: nat
  fr_content_type :: bytes
  fr_body :: bytes
  fr_cache_control :: "bytes list"
  fr_age :: "int option"

definition bare_schema :: "bytes \<Rightarrow> bytes" where
  "bare_schema schema =
     (if 3 \<le> length schema \<and> drop (length schema - 3) schema = ''://'' then take (length schema - 3) schema else schema)"

text \<open>The \<open>Cache-Control\<close> lines joined, or nothing when the allocation for them fails.\<close>

definition joined_cache_control :: "bytes list \<Rightarrow> ('jwks, 'w) state \<Rightarrow> bytes \<times> ('jwks, 'w) state" where
  "joined_cache_control lines st =
     (if lines = [] then ([], st)
      else case st_palloc st of
        (False, st) \<Rightarrow> ([], st)
      | (True, st) \<Rightarrow> (join_values lines, st))"

definition directory_reject :: "('json, 'jwks, 'w) env \<Rightarrow> httpsig_ctx \<Rightarrow> fetch_reason \<Rightarrow> ('jwks, 'w) state \<Rightarrow> ('jwks, 'w) state" where
  "directory_reject env ctx reason st =
     (let ctx = (if cx_jwks ctx = [] then ctx\<lparr>cx_keys_unavailable := True\<rparr> else ctx)
      in st\<lparr>st_zone := cache_release (st_zone st) (cx_directory_host ctx)
                         (ev_now env + dc_cache_min_ttl (lc_directory (ev_lcf env))),
            st_ctx := Some (ctx\<lparr>cx_directory_reason := reason, cx_claimed := False, cx_directory_done := True\<rparr>)\<rparr>)"

definition directory_accept :: "('json, 'jwks, 'w) env \<Rightarrow> httpsig_ctx \<Rightarrow> bytes \<Rightarrow> bytes \<Rightarrow> int \<Rightarrow> ('jwks, 'w) state \<Rightarrow> ('jwks, 'w) state" where
  "directory_accept env ctx body cache_control age st =
     (case st_palloc st of
        (False, st) \<Rightarrow> directory_reject env ctx FETCH_FAILED st
      | (True, st) \<Rightarrow>
          (case on_st_pool (load_jwks (ev_lib env) body) st of
             (NGX_OK validated, st) \<Rightarrow>
               let dc = lc_directory (ev_lcf env);
                   ttl = directory_ttl cache_control age (dc_cache_min_ttl dc) (dc_cache_max_ttl dc)
               in (case cache_store (st_zone st) (cx_directory_host ctx) body (ev_now env + ttl) (dc_cache_min_ttl dc) (ev_now env) of
                     (generation, zone) \<Rightarrow>
                       st\<lparr>st_zone := zone,
                          st_ctx := Some (ctx\<lparr>cx_jwks := body, cx_directory_generation := generation,
                                             cx_claimed := False, cx_directory_done := True\<rparr>)\<rparr>)
           | (_, st) \<Rightarrow> directory_reject env ctx FETCH_INVALID st))"

text \<open>The post-subrequest handler; its return value is always \<open>NGX_OK\<close>.\<close>

definition directory_done :: "('json, 'jwks, 'w) env \<Rightarrow> fetch_response option \<Rightarrow> httpsig_ctx \<Rightarrow> ('jwks, 'w) state \<Rightarrow> ('jwks, 'w) state" where
  "directory_done env response ctx st =
     (case response of
        None \<Rightarrow> directory_reject env ctx FETCH_FAILED st
      | Some fr \<Rightarrow>
          (case joined_cache_control (fr_cache_control fr) st of
             (cache_control, st) \<Rightarrow>
               (case check_response (bare_schema (fr_schema fr)) (fr_status fr) (fr_content_type fr)
                       (pf_directory_media_type (lc_profile_def (ev_lcf env))) (length (fr_body fr))
                       (dc_max_size (lc_directory (ev_lcf env))) of
                  FETCH_OK \<Rightarrow>
                    directory_accept env ctx (fr_body fr) cache_control (case fr_age fr of Some age \<Rightarrow> age | None \<Rightarrow> 0) st
                | reason \<Rightarrow> directory_reject env ctx reason st)))"

text \<open>
  The backstop that runs when the request's pool is destroyed.  Its \<open>cln->ctx\<close> is the context the handler used:
  it is claimed only while the request waits for the fetch, and then no internal redirect has dropped it.
\<close>

definition run_cleanup :: "('json, 'jwks, 'w) env \<Rightarrow> ('jwks, 'w) state \<Rightarrow> ('jwks, 'w) state" where
  "run_cleanup env st =
     (case st_cleanup st of
        None \<Rightarrow> st
      | Some cln \<Rightarrow>
          (case st_ctx st of
             None \<Rightarrow> st
           | Some ctx \<Rightarrow>
               if cx_claimed ctx then
                 st\<lparr>st_ctx := Some (ctx\<lparr>cx_claimed := False\<rparr>),
                    st_zone := cache_release (st_zone st) (dcl_host cln) (ev_now env + dcl_retry_ttl cln)\<rparr>
               else st))"

section \<open>Variables\<close>

text \<open>\<open>None\<close> is an unset variable.\<close>

definition variable_verified :: "('json, 'jwks, 'w) env \<Rightarrow> ('jwks, 'w) state \<Rightarrow> bytes option \<times> ('jwks, 'w) state" where
  "variable_verified env st =
     (case evaluate env st of
        (True, Some ctx, st) \<Rightarrow>
          (if cx_result ctx = RESULT_NOT_SIGNED \<or> cx_result ctx = RESULT_KEY_UNAVAILABLE then None
           else Some (if cx_result ctx = RESULT_OK then ''1'' else ''0''), st)
      | (_, _, st) \<Rightarrow> (None, st))"

definition variable_keyid :: "('json, 'jwks, 'w) env \<Rightarrow> ('jwks, 'w) state \<Rightarrow> bytes option \<times> ('jwks, 'w) state" where
  "variable_keyid env st =
     (case evaluate env st of
        (True, Some ctx, st) \<Rightarrow> (if cx_result ctx \<noteq> RESULT_OK then None else Some (cx_keyid ctx), st)
      | (_, _, st) \<Rightarrow> (None, st))"

definition variable_agent :: "('json, 'jwks, 'w) env \<Rightarrow> ('jwks, 'w) state \<Rightarrow> bytes option \<times> ('jwks, 'w) state" where
  "variable_agent env st =
     (case evaluate env st of
        (True, Some ctx, st) \<Rightarrow>
          (if cx_result ctx \<noteq> RESULT_OK \<or> cx_agent ctx = [] then None else Some (cx_agent ctx), st)
      | (_, _, st) \<Rightarrow> (None, st))"

definition variable_directory_host :: "('jwks, 'w) state \<Rightarrow> bytes option" where
  "variable_directory_host st =
     (case st_ctx st of
        None \<Rightarrow> None
      | Some ctx \<Rightarrow> if cx_directory_host ctx = [] then None else Some (cx_directory_host ctx))"

definition variable_directory_hostname :: "('jwks, 'w) state \<Rightarrow> bytes option" where
  "variable_directory_hostname st =
     (case st_ctx st of
        None \<Rightarrow> None
      | Some ctx \<Rightarrow> if cx_directory_host ctx = [] then None else Some (directory_hostname (cx_directory_host ctx)))"

definition variable_error :: "('json, 'jwks, 'w) env \<Rightarrow> ('jwks, 'w) state \<Rightarrow> bytes option \<times> ('jwks, 'w) state" where
  "variable_error env st =
     (case evaluate env st of
        (True, Some ctx, st) \<Rightarrow>
          (if cx_internal_error ctx then Some ''internal''
           else if cx_nonce_store_unavailable ctx then Some ''nonce_store_unavailable''
           else if cx_result ctx = RESULT_OK \<or> cx_result ctx = RESULT_NOT_SIGNED then None
           else if cx_result ctx = RESULT_KEY_UNAVAILABLE \<and> cx_directory_reason ctx \<noteq> FETCH_OK
           then Some (directory_reason_name (cx_directory_reason ctx))
           else Some (result_name (cx_result ctx)), st)
      | (_, _, st) \<Rightarrow> (None, st))"

end
