(* ===== verification/Request_Props.thy ===== *)
theory Request_Props
  imports Request Base_Props
begin

text \<open>
  What the request snapshot contains: it is a function of the request alone, splits the target without
  losing anything, and has no line feed when the request has none.
\<close>

section \<open>The snapshot\<close>

definition snapshot :: "bytes \<Rightarrow> http_request \<Rightarrow> request" where
  "snapshot s r =
     (request_target r
        (request_zero\<lparr>rq_method := hr_method_name r, rq_scheme := s,
           rq_authority := strip_port_loop default_ports s
             (ngx_strlow (case hr_host r of Some h \<Rightarrow> h | None \<Rightarrow> hr_server r)),
           rq_request_target := hr_unparsed_uri r\<rparr>))
       \<lparr>rq_headers := map (\<lambda>(name, value). \<lparr>h_name = ngx_strlow name, h_value = strip_ows value\<rparr>) (hr_headers r)\<rparr>"

lemma headers_loop_OK:
  "headers_loop hs arr p = (NGX_OK xs, q) \<Longrightarrow>
   xs = arr @ map (\<lambda>(name, value). \<lparr>h_name = ngx_strlow name, h_value = strip_ows value\<rparr>) hs"
  by (induction hs arr arbitrary: p rule: headers_loop.induct) (auto simp: bnd_eq_OK)

lemma headers_loop_Nil [run_simps]:
  "headers_loop hs arr [] =
   (NGX_OK (arr @ map (\<lambda>(name, value). \<lparr>h_name = ngx_strlow name, h_value = strip_ows value\<rparr>) hs), [])"
  by (induction hs arr rule: headers_loop.induct) (auto simp: run_simps bnd_def ret_def)

lemma build_request_OK:
  "build_request scheme r p = (NGX_OK req, q) \<Longrightarrow> \<exists>s. scheme = Some s \<and> req = snapshot s r"
  by (auto simp: build_request_def snapshot_def bnd_eq_OK Let_def dest!: headers_loop_OK split: option.splits)

lemma build_request_Nil: "build_request (Some s) r [] = (NGX_OK (snapshot s r), [])"
  by (simp add: build_request_def snapshot_def Let_def bnd_def run_simps ret_def split: option.split)

section \<open>The target\<close>

lemma snapshot_headers [simp]: "rq_headers (snapshot s r) =
    map (\<lambda>(name, value). \<lparr>h_name = ngx_strlow name, h_value = strip_ows value\<rparr>) (hr_headers r)"
  by (simp add: snapshot_def)

lemma request_target_cases:
  obtains "request_target r req0 = req0\<lparr>rq_target_defined := False\<rparr>" "hr_connect r \<or> hr_unparsed_uri r = ''*''"
  | pq where "pq = path_query (hr_unparsed_uri r)" "CHR ''?'' \<notin> set pq" "\<not> hr_connect r"
      "request_target r req0 = req0\<lparr>rq_target_defined := True, rq_path := pq\<rparr>"
  | p q where "path_query (hr_unparsed_uri r) = p @ CHR ''?'' # q" "CHR ''?'' \<notin> set p" "\<not> hr_connect r"
      "request_target r req0 = req0\<lparr>rq_target_defined := True, rq_has_query := True, rq_path := p, rq_query := q\<rparr>"
proof (cases "hr_connect r \<or> hr_unparsed_uri r = ''*''")
  case True
  then show ?thesis by (intro that(1)) (auto simp: request_target_def)
next
  case False
  let ?pq = "path_query (hr_unparsed_uri r)" and ?P = "\<lambda>c. c \<noteq> CHR ''?''"
  show ?thesis
  proof (cases "dropWhile ?P ?pq")
    case Nil
    then have "CHR ''?'' \<notin> set ?pq" by (auto simp: dropWhile_eq_Nil_conv)
    with False Nil show ?thesis by (intro that(2)) (auto simp: request_target_def Let_def)
  next
    case (Cons c q)
    then have "c = CHR ''?''" using hd_dropWhile [of ?P ?pq] by simp
    with Cons have pq: "?pq = takeWhile ?P ?pq @ CHR ''?'' # q" using takeWhile_dropWhile_id [of ?P ?pq] by simp
    show ?thesis
    proof (rule that(3) [OF pq])
      show "CHR ''?'' \<notin> set (takeWhile ?P ?pq)" by (blast dest: set_takeWhileD)
    qed (use False Cons in \<open>simp_all add: request_target_def Let_def del: dropWhile_eq_Nil_conv\<close>)
  qed
qed

lemma path_query_suffix:
  "\<exists>prefix. uri = prefix @ path_query uri \<and>
     (prefix = [] \<or> (\<exists>scheme authority. prefix = scheme @ ''://'' @ authority \<and> scheme \<noteq> [] \<and> list_all is_scheme_char scheme
        \<and> CHR ''/'' \<notin> set authority \<and> CHR ''?'' \<notin> set authority))"
proof -
  let ?Q = "\<lambda>c. c \<noteq> CHR ''/'' \<and> c \<noteq> CHR ''?''"
  define sc cp where "sc = takeWhile is_scheme_char uri" and "cp = dropWhile is_scheme_char uri"
  have uri: "uri = sc @ cp" by (simp add: sc_def cp_def)
  show ?thesis
  proof (cases "length cp < length uri \<and> 3 \<le> length cp \<and> take 3 cp = ''://''")
    case True
    define au where "au = takeWhile ?Q (drop 3 cp)"
    from True have "cp = ''://'' @ drop 3 cp" by (metis append_take_drop_id)
    moreover have "drop 3 cp = au @ dropWhile ?Q (drop 3 cp)" by (simp add: au_def)
    ultimately have "uri = (sc @ ''://'' @ au) @ dropWhile ?Q (drop 3 cp)" using uri by (metis append.assoc)
    then have "uri = (sc @ ''://'' @ au) @ path_query uri"
      using True by (simp add: path_query_def cp_def)
    moreover have "sc \<noteq> []" using True uri by auto
    moreover have "list_all is_scheme_char sc" unfolding sc_def list_all_iff by (meson set_takeWhileD)
    moreover have "CHR ''/'' \<notin> set au" "CHR ''?'' \<notin> set au"
      by (auto simp: au_def dest: set_takeWhileD)
    ultimately show ?thesis
      by (rule_tac exI [of _ "sc @ ''://'' @ au"]) blast
  next
    case False
    then have "path_query uri = uri" by (auto simp: path_query_def cp_def Let_def)
    then show ?thesis by auto
  qed
qed

section \<open>Line feeds\<close>

text \<open>nginx accepts no line feed inside a request line or a header line.\<close>

definition http_no_LF :: "bytes \<Rightarrow> http_request \<Rightarrow> bool" where
  "http_no_LF s r \<longleftrightarrow> no_LF s \<and> no_LF (hr_method_name r) \<and> no_LF (hr_unparsed_uri r) \<and> no_LF (hr_server r)
     \<and> (case hr_host r of Some h \<Rightarrow> no_LF h | None \<Rightarrow> True) \<and> list_all (\<lambda>h. no_LF (snd h)) (hr_headers r)"

lemma set_strip_port: "set (strip_port_loop ports s a) \<subseteq> set a"
  by (induction ports s a rule: strip_port_loop.induct) (auto dest: in_set_takeD)

lemma set_strip_ows: "set (strip_ows v) \<subseteq> set v"
  unfolding strip_ows_def set_rev by (metis set_dropWhileD set_rev subsetI)

lemma LF_code: "code_of LF = (10 :: nat)"
  by simp

lemma strlow_no_LF: "no_LF v \<Longrightarrow> no_LF (ngx_strlow v)"
proof -
  have "ngx_tolower c \<noteq> LF" if "c \<noteq> LF" for c
  proof
    assume "ngx_tolower c = LF"
    then have "code_of (ngx_tolower c) = (10 :: nat)" by simp
    moreover have "code_of c \<noteq> (10 :: nat)" using that by (metis LF_code code_of_eq)
    ultimately show False by (simp add: code_of_tolower split: if_splits)
  qed
  then show "no_LF v \<Longrightarrow> no_LF (ngx_strlow v)" unfolding no_LF_def ngx_strlow_def set_map image_iff by metis
qed

lemma path_query_no_LF: "no_LF uri \<Longrightarrow> no_LF (path_query uri)"
proof -
  assume "no_LF uri"
  moreover obtain prefix where "uri = prefix @ path_query uri" using path_query_suffix [of uri] by blast
  ultimately have "no_LF (prefix @ path_query uri)" by simp
  then show ?thesis by simp
qed

lemma no_LF_subset: "no_LF v \<Longrightarrow> set w \<subseteq> set v \<Longrightarrow> no_LF w"
  by (auto simp: no_LF_def)

lemma snapshot_no_LF:
  assumes "http_no_LF s r"
  shows "request_no_LF (snapshot s r)"
proof -
  let ?a = "strip_port_loop default_ports s (ngx_strlow (case hr_host r of Some h \<Rightarrow> h | None \<Rightarrow> hr_server r))"
  have "no_LF ?a"
    using assms by (intro no_LF_subset [OF strlow_no_LF set_strip_port]) (auto simp: http_no_LF_def split: option.splits)
  moreover have "no_LF (path_query (hr_unparsed_uri r))" using assms by (simp add: http_no_LF_def path_query_no_LF)
  moreover have "\<forall>h\<in>set (rq_headers (snapshot s r)). no_LF (h_value h)"
    using assms no_LF_subset [OF _ set_strip_ows] by (fastforce simp: http_no_LF_def list_all_iff)
  ultimately show ?thesis
    using assms unfolding request_no_LF_def
    by (rule_tac request_target_cases [of r "request_zero\<lparr>rq_method := hr_method_name r, rq_scheme := s, rq_authority := ?a,
                                        rq_request_target := hr_unparsed_uri r\<rparr>"])
      (auto simp: http_no_LF_def request_zero_def snapshot_def simp del: snapshot_headers)
qed

section \<open>Properties\<close>

text \<open>C40: The snapshot loses nothing of the request target: path and query put back together are the raw target, after
  the scheme and authority of an absolute form, the path never contains a question mark, and every header
  line is there in order.  Whichever allocations succeed, the snapshot is the same.\<close>

theorem request_target_lossless:
  assumes "build_request scheme r p = (NGX_OK req, q)" and "\<not> hr_connect r" and "hr_unparsed_uri r \<noteq> ''*''"
  shows "(\<exists>prefix. hr_unparsed_uri r = prefix @ rq_path req @ (if rq_has_query req then CHR ''?'' # rq_query req else []) \<and>
      (prefix = [] \<or> (\<exists>sch authority. prefix = sch @ ''://'' @ authority \<and> sch \<noteq> [] \<and> list_all is_scheme_char sch
         \<and> CHR ''/'' \<notin> set authority \<and> CHR ''?'' \<notin> set authority))) \<and>
    CHR ''?'' \<notin> set (rq_path req) \<and> rq_target_defined req \<and>
    map h_value (rq_headers req) = map (strip_ows \<circ> snd) (hr_headers r) \<and>
    build_request scheme r [] = (NGX_OK req, [])"
proof -
  from build_request_OK [OF assms(1)] obtain s where s: "scheme = Some s" "req = snapshot s r" by blast
  have "CHR ''?'' \<notin> set (rq_path req) \<and> rq_target_defined req \<and>
    path_query (hr_unparsed_uri r) = rq_path req @ (if rq_has_query req then CHR ''?'' # rq_query req else [])"
    unfolding s(2) snapshot_def
    by (rule request_target_cases [of r "request_zero\<lparr>rq_method := hr_method_name r, rq_scheme := s,
          rq_authority := strip_port_loop default_ports s (ngx_strlow (case hr_host r of Some h \<Rightarrow> h | None \<Rightarrow> hr_server r)),
          rq_request_target := hr_unparsed_uri r\<rparr>"])
      (use assms(2,3) in \<open>auto simp: request_zero_def\<close>)
  moreover have "map h_value (rq_headers req) = map (strip_ows \<circ> snd) (hr_headers r)"
    by (simp add: s(2) case_prod_beta)
  ultimately show ?thesis
    using path_query_suffix [of "hr_unparsed_uri r"] build_request_Nil [of s r] s by metis
qed

theorem request_target_lossless_witness:
  "rq_path (snapshot ''https'' \<lparr>hr_method_name = ''GET'', hr_connect = False, hr_unparsed_uri = ''http://a/p?q?'',
     hr_headers = [(''Host'', '' a'')], hr_host = Some ''A:443'', hr_server = []\<rparr>) = ''/p''"
proof -
  let ?r = "\<lparr>hr_method_name = ''GET'', hr_connect = False, hr_unparsed_uri = ''http://a/p?q?'',
     hr_headers = [(''Host'', '' a'')], hr_host = Some ''A:443'', hr_server = []\<rparr>"
  have "rq_path (snapshot ''https'' ?r) = ''/p''" by code_simp
  with request_target_lossless [OF build_request_Nil, of "?r" "''https''"] show ?thesis by simp
qed

end
