(* ===== verification/Profile_Run.thy ===== *)
theory Profile_Run
  imports Profile_Props Nonce_Props
begin

text \<open>
  What the judgment reports about an accepted request: which member was selected, every field of the
  signature, and where the agent host comes from; and that renaming the label of a signature changes that host
  without a key.
\<close>

section \<open>The signature left behind\<close>

text \<open>The host reported for the lines \<open>raws\<close> of Signature-Agent, and the pool after its extraction.\<close>

definition reported :: "bytes list \<Rightarrow> bytes \<Rightarrow> pool \<Rightarrow> bytes \<times> pool" where
  "reported raws label p = (if raws = [] then ([], p) else agent_host raws label p)"

lemma verify_signature_full:
  assumes "verify_signature lib pctx req sd l raws s = (NGX_OK (), t)" and "sg_agent_host (snd s) = []"
  shows "\<exists>bs p. snd t = (snd s)\<lparr>sg_signature := bs, sg_agent_host := fst (reported raws (sg_label (snd s)) p)\<rparr> \<and>
    fst t = snd (reported raws (sg_label (snd s)) p) \<and> (fst s = [] \<longrightarrow> p = [])"
proof -
  from assms obtain i bs where i: "dict_get sd (sg_label (snd s)) = Some (MEMBER_ITEM i)" "it_bare i = SFV_BYTE_SEQUENCE bs"
    by (auto simp: verify_signature_def split: option.splits sfv_value.splits sfv_bare.splits)
  with assms(1) obtain base p where b: "base_build req l (fst s) = (NGX_OK base, p)"
    and v: "verify_finish lib pctx raws base (p, (snd s)\<lparr>sg_signature := bs\<rparr>) = (NGX_OK (), t)"
    by (auto simp: verify_signature_def bnd_eq_OK)
  from v have "snd t = (snd s)\<lparr>sg_signature := bs, sg_agent_host := fst (reported raws (sg_label (snd s)) p)\<rparr>"
    "fst t = snd (reported raws (sg_label (snd s)) p)"
    using assms(2) by (cases "snd s"; auto simp: verify_finish_def reported_def split: rc.splits if_splits prod.splits)+
  moreover have "fst s = [] \<longrightarrow> p = []" using b base_build_pool by metis
  ultimately show ?thesis by blast
qed

lemma verify_entry_full:
  assumes "verify_entry lib clock pctx req sd entry (q, signature_zero) = (NGX_OK (), t)"
  obtains l bs p where "e_value entry = MEMBER_INNER_LIST l" "params_typed (il_params l)"
    "profile_match (pc_profile pctx) (entry_sig entry l) = NGX_OK ()"
    "window_ok pctx (if pc_now pctx \<noteq> 0 then pc_now pctx else clock) (entry_sig entry l)"
    "snd t = (entry_sig entry l)\<lparr>sg_signature := bs,
       sg_agent_host := fst (reported (field_values req signature_agent) (e_key entry) p)\<rparr>"
    "fst t = snd (reported (field_values req signature_agent) (e_key entry) p)" "q = [] \<longrightarrow> p = []"
proof (cases "e_value entry")
  case (MEMBER_ITEM i)
  with assms show ?thesis by (simp add: verify_entry_def)
next
  case (MEMBER_INNER_LIST l)
  from assms obtain raws q1 where c: "(collect req signature_agent :: (pool, httpsig_result, bytes list) op) q = (NGX_OK raws, q1)"
    and typed: "params_typed (il_params l)"
    and m: "profile_match (pc_profile pctx) (entry_sig entry l) = NGX_OK ()"
    and w: "window_ok pctx (if pc_now pctx \<noteq> 0 then pc_now pctx else clock) (entry_sig entry l)"
    and v: "verify_signature lib pctx req sd l raws (q1, entry_sig entry l) = (NGX_OK (), t)"
    unfolding verify_entry_def MEMBER_INNER_LIST sfv_value.case bnd_eq_OK
    by (auto simp: extract_params_OK entry_sig_def [symmetric] split: if_splits)
  have raws: "raws = field_values req signature_agent" "q = [] \<longrightarrow> q1 = []"
    using transparentD [OF transp_collect c] c by (auto simp: collect_Nil)
  have "sg_agent_host (entry_sig entry l) = []" "sg_label (entry_sig entry l) = e_key entry"
    by (simp_all add: entry_sig_def filled_def signature_zero_def)
  with verify_signature_full [OF v] raws obtain bs p where
    "snd t = (entry_sig entry l)\<lparr>sg_signature := bs, sg_agent_host := fst (reported (field_values req signature_agent) (e_key entry) p)\<rparr>"
    "fst t = snd (reported (field_values req signature_agent) (e_key entry) p)" "q = [] \<longrightarrow> p = []"
    by auto
  then show ?thesis by (rule that [OF MEMBER_INNER_LIST typed m w])
qed

lemma profile_verify_full:
  assumes "profile_verify lib clock pctx req (q, sig0) = (NGX_OK (), t)"
  obtains input entry l bs p where
    "parse_dictionary (join_values (field_values req ''signature-input'')) [] = (NGX_OK input, [])"
    "select_entry input (pf_tag (pc_profile pctx)) = Some entry"
    "e_value entry = MEMBER_INNER_LIST l" "params_typed (il_params l)"
    "profile_match (pc_profile pctx) (entry_sig entry l) = NGX_OK ()"
    "window_ok pctx (if pc_now pctx \<noteq> 0 then pc_now pctx else clock) (entry_sig entry l)"
    "snd t = (entry_sig entry l)\<lparr>sg_signature := bs,
       sg_agent_host := fst (reported (field_values req signature_agent) (e_key entry) p)\<rparr>"
    "fst t = snd (reported (field_values req signature_agent) (e_key entry) p)" "q = [] \<longrightarrow> p = []"
proof -
  have fv: "v = join_values (field_values req n)" if "field_value req n q = (NGX_OK v, q')" for n q v q'
    using that by (auto simp: field_value_def Let_def bnd_eq_OK split: if_splits)
  from assms obtain input_raw q1 sig_raw q2 input q3 sd q4 where
    r: "field_value req ''signature-input'' q = (NGX_OK input_raw, q1)" "field_value req ''signature'' q1 = (NGX_OK sig_raw, q2)"
      "parse_dictionary input_raw q2 = (NGX_OK input, q3)" "parse_dictionary sig_raw q3 = (NGX_OK sd, q4)"
    and d: "(if d_duplicate_keys input \<or> d_duplicate_keys sd then declined RESULT_PARSE_ERROR
       else case select_entry input (pf_tag (pc_profile pctx)) of
         None \<Rightarrow> declined RESULT_NOT_SIGNED
       | Some entry \<Rightarrow> verify_entry lib clock pctx req sd entry) (q4, signature_zero) = (NGX_OK (), t)"
    unfolding profile_verify_def bnd_eq_OK by auto
  have "q = [] \<Longrightarrow> q2 = []" using r(1,2) by (auto simp: field_value_Nil)
  then have "q = [] \<longrightarrow> q4 = []" using r(3,4) parse_dictionary_pool by metis
  note q = this
  from transparentD [OF parse_transparent(1) r(3)] fv [OF r(1)]
  have i: "parse_dictionary (join_values (field_values req ''signature-input'')) [] = (NGX_OK input, [])" by simp
  from d obtain entry where e: "select_entry input (pf_tag (pc_profile pctx)) = Some entry"
    and v: "verify_entry lib clock pctx req sd entry (q4, signature_zero) = (NGX_OK (), t)"
    by (auto split: if_splits option.splits)
  from verify_entry_full [OF v] show ?thesis
    using that [OF i e] q by metis
qed

section \<open>Renaming a label\<close>

text \<open>The Dictionary of a field.\<close>

definition dict_of :: "request \<Rightarrow> bytes \<Rightarrow> sfv_dictionary option" where
  "dict_of req name =
     (if field_values req name = [] then None
      else case fst (parse_dictionary (join_values (field_values req name)) []) of NGX_OK d \<Rightarrow> Some d | _ \<Rightarrow> None)"

lemma dict_of_Some:
  "dict_of req name = Some d \<longleftrightarrow> field_values req name \<noteq> [] \<and> parse_dictionary (join_values (field_values req name)) [] = (NGX_OK d, [])"
  using parse_dictionary_Nil [of "join_values (field_values req name)" d "[]"] by (auto simp: dict_of_def split: rc.splits)

text \<open>Components that cover Signature-Agent, each time by one member, and neither Signature nor Signature-Input.\<close>

definition names_members :: "sfv_inner_list \<Rightarrow> bool" where
  "names_members l \<longleftrightarrow> (\<exists>item\<in>set (il_items l). it_bare item = SFV_STRING signature_agent) \<and>
     (\<forall>item\<in>set (il_items l). bare_value (it_bare item) \<noteq> ''signature-input'' \<and> bare_value (it_bare item) \<noteq> ''signature'' \<and>
        (bare_value (it_bare item) = signature_agent \<longrightarrow> field_agent_key signature_agent (it_params item) \<noteq> None))"

text \<open>
  What anyone who has seen a signed request can send, without a key: the same request with the signature under
  the label \<open>x\<close>, and one line of Signature-Agent with the members of the original and a member \<open>x\<close> with an
  address of their own.
\<close>

definition relabels :: "request \<Rightarrow> signature \<Rightarrow> bytes \<Rightarrow> bytes \<Rightarrow> request \<Rightarrow> bool" where
  "relabels req sig x url req' \<longleftrightarrow>
     req'\<lparr>rq_headers := rq_headers req\<rparr> = req \<and>
     (\<forall>name. name \<notin> {''signature-input'', ''signature'', signature_agent} \<longrightarrow> field_values req' name = field_values req name) \<and>
     (\<exists>l. sg_components sig = Some l \<and> dict_of req' ''signature-input'' =
        Some \<lparr>d_entries = [\<lparr>e_key = x, e_value = MEMBER_INNER_LIST l\<rparr>], d_duplicate_keys = False\<rparr>) \<and>
     (\<exists>sd sd' i. dict_of req ''signature'' = Some sd \<and> dict_get sd (sg_label sig) = Some (MEMBER_ITEM i) \<and>
        dict_of req' ''signature'' = Some sd' \<and> \<not> d_duplicate_keys sd' \<and> dict_get sd' x = Some (MEMBER_ITEM i)) \<and>
     (\<exists>line agents agents' ps. field_values req' signature_agent = [line] \<and> dict_of req signature_agent = Some agents \<and>
        dict_of req' signature_agent = Some agents' \<and> (\<forall>k v. dict_get agents k = Some v \<longrightarrow> dict_get agents' k = Some v) \<and>
        dict_get agents' x = Some (MEMBER_ITEM \<lparr>it_bare = SFV_STRING url, it_params = ps\<rparr>) \<and> agent_type_ok ps)"

text \<open>The values of the components do not change.\<close>

lemma derive_component_headers: "derive_component (req\<lparr>rq_headers := hs\<rparr>) item = derive_component req item"
proof -
  let ?req = "req\<lparr>rq_headers := hs\<rparr>"
  have f: "rq_method ?req = rq_method req" "rq_scheme ?req = rq_scheme req" "rq_authority ?req = rq_authority req" "rq_path ?req = rq_path req"
    "rq_query ?req = rq_query req" "rq_has_query ?req = rq_has_query req" "rq_request_target ?req = rq_request_target req"
    "rq_target_defined ?req = rq_target_defined req"
    by simp_all
  show ?thesis
    unfolding derive_component_def query_param_def derive_value_def base_query_def target_uri_def effective_path_def f ..
qed

lemma field_value_same: "field_values req' name = field_values req name \<Longrightarrow> field_value req' name = field_value req name"
  by (simp add: field_value_def)

lemma agent_member_kept:
  assumes "dict_of req signature_agent = Some agents" and "dict_of req' signature_agent = Some agents'"
    and "\<And>v. dict_get agents key = Some v \<Longrightarrow> dict_get agents' key = Some v"
    and "field_agent_member req key [] = (NGX_OK v, [])"
  shows "field_agent_member req' key [] = (NGX_OK v, [])"
proof -
  note d = assms(1,2) [unfolded dict_of_Some]
  have run: "field_agent_member r key [] =
      (case dict_get a key of
         None \<Rightarrow> declined BASE_MISSING_FIELD
       | Some (MEMBER_INNER_LIST l) \<Rightarrow> declined_as BASE_MISSING_FIELD (serialize_inner_list l)
       | Some (MEMBER_ITEM i) \<Rightarrow> declined_as BASE_MISSING_FIELD (serialize_item i)) []"
    if "field_values r signature_agent \<noteq> []" "parse_dictionary (join_values (field_values r signature_agent)) [] = (NGX_OK a, [])" for r a
    using that by (simp add: field_agent_member_def field_value_def bnd_def declined_as_def ret_def pool_alloc_Nil)
  from assms(4) obtain m where "dict_get agents key = Some m"
    unfolding run [OF conjunct1 [OF d(1)] conjunct2 [OF d(1)]] by (cases "dict_get agents key") (simp_all add: declined_def)
  with assms(3,4) show ?thesis unfolding run [OF conjunct1 [OF d(1)] conjunct2 [OF d(1)]] run [OF conjunct1 [OF d(2)] conjunct2 [OF d(2)]] by simp
qed

lemma relabels_value:
  assumes "relabels req sig x url req'" and "names_members l" and "item \<in> set (il_items l)" and "value_of req item = Some v"
  shows "value_of req' item = Some v"
proof -
  let ?name = "bare_value (it_bare item)"
  from assms(1) have h: "req' = req\<lparr>rq_headers := rq_headers req'\<rparr>"
    unfolding relabels_def by (metis request.surjective request.update_convs(9))
  from assms(2,3) have n: "?name \<noteq> ''signature-input''" "?name \<noteq> ''signature''"
    "?name = signature_agent \<Longrightarrow> field_agent_key signature_agent (it_params item) \<noteq> None" unfolding names_members_def by blast+
  from assms(1) obtain agents agents' where a: "dict_of req signature_agent = Some agents" "dict_of req' signature_agent = Some agents'"
    "\<And>k v. dict_get agents k = Some v \<Longrightarrow> dict_get agents' k = Some v" unfolding relabels_def by blast
  show ?thesis
  proof (cases "?name \<noteq> [] \<and> hd ?name = CHR ''@''")
    case True
    with assms(4) show ?thesis unfolding value_of_Some component_value_def by (subst h) (simp add: derive_component_headers)
  next
    case False
    then have c: "component_value r item = base_field r item" for r unfolding component_value_def by (rule if_not_P)
    with assms(4) have f: "base_field req item [] = (NGX_OK v, [])" by (simp add: value_of_Some)
    have "base_field req' item [] = (NGX_OK v, [])"
    proof (cases "field_agent_key ?name (it_params item)")
      case None
      then have "?name \<noteq> signature_agent" using n(3) by auto
      with n(1,2) assms(1) have "field_values req' ?name = field_values req ?name" unfolding relabels_def by blast
      then have v: "field_value req' ?name = field_value req ?name" by (rule field_value_same)
      have "base_field req' item = base_field req item" unfolding base_field_def Let_def None option.case v ..
      with f show ?thesis by (simp only:)
    next
      case (Some key)
      then have b: "base_field r item = (if \<exists>c\<in>set ?name. CHR ''A'' \<le> c \<and> c \<le> CHR ''Z''
          then declined BASE_UNKNOWN_COMPONENT else field_agent_member r key)" for r
        by (simp only: base_field_def Let_def option.case)
      show ?thesis
      proof (cases "\<exists>c\<in>set ?name. CHR ''A'' \<le> c \<and> c \<le> CHR ''Z''")
        case True
        with f show ?thesis unfolding b if_P [OF True] by (simp add: declined_def)
      next
        case False
        from agent_member_kept [OF a] f show ?thesis unfolding b if_not_P [OF False] by blast
      qed
    qed
    with c show ?thesis by (simp add: value_of_Some)
  qed
qed

lemma relabels_base:
  assumes "relabels req sig x url req'" and "names_members l" and "base_build req l [] = (NGX_OK base, [])"
  shows "base_build req' l [] = (NGX_OK base, [])"
proof -
  have "base_values req' (il_items l) vs" if "base_values req (il_items l) vs" for vs
    using that relabels_value [OF assms(1,2)] unfolding base_values_def by (auto simp: list_all2_conv_all_nth)
  with assms(3) show ?thesis unfolding base_build_run by blast
qed

text \<open>The member named like the label is the one reported.\<close>

lemma agent_entry_loop_kept: "fst (agent_entry_loop es x (Some s) fb) = Some s"
  by (induction es arbitrary: fb) (auto split: option.split)

lemma agent_entry_labelled:
  assumes "x \<noteq> []" and "dict_get d x = Some (MEMBER_ITEM \<lparr>it_bare = SFV_STRING url, it_params = ps\<rparr>)" and "agent_type_ok ps"
  shows "fst (agent_entry d x None fb) = Some url"
proof -
  from assms(2) obtain e where e: "find (\<lambda>e. str_eq (e_key e) x) (d_entries d) = Some e"
    "e_value e = MEMBER_ITEM \<lparr>it_bare = SFV_STRING url, it_params = ps\<rparr>" by (auto simp: dict_get_def)
  then have u: "agent_usable e = Some url" using assms(3) by (simp add: agent_usable_def)
  have "find (\<lambda>e. str_eq (e_key e) x) es = Some e \<Longrightarrow> fst (agent_entry_loop es x None fb) = Some url" for es fb
    using assms(1) u by (induction es arbitrary: fb) (auto simp: agent_entry_loop_kept split: if_splits option.split)
  with e(1) show ?thesis by (simp add: agent_entry_def)
qed

lemma agent_host_labelled:
  assumes "x \<noteq> []" and "parse_dictionary line [] = (NGX_OK d, [])" and "agent_type_ok ps" and "agent_bounds url = Some (host, authority)"
    and "dict_get d x = Some (MEMBER_ITEM \<lparr>it_bare = SFV_STRING url, it_params = ps\<rparr>)"
  shows "agent_host [line] x [] = (ngx_strlow host, [])"
proof -
  have "parse_dictionary [] [] = (NGX_OK \<lparr>d_entries = [], d_duplicate_keys = False\<rparr>, [])" by code_simp
  with assms(2,5) have "line \<noteq> []" by (auto simp: dict_get_def)
  moreover have "length line \<le> MAX_SFV_LENGTH"
    using assms(2) by (auto simp: parse_dictionary_def parse_with_def parse_begin_def split: if_splits)
  moreover obtain fb where "agent_entry d x None None = (Some url, fb)"
    using agent_entry_labelled [OF assms(1,5,3), of None] by (metis prod.collapse)
  ultimately show ?thesis using assms(2,4) by (simp add: agent_host_def agent_part_def agent_url_def agent_copy_def)
qed

section \<open>A component that names one member\<close>

text \<open>
  A signature may cover one member of Signature-Agent, by the parameter \<open>key\<close>.  The first request is signed
  that way under the label \<open>s\<close>; the second is the first under another label, with a member of that name
  added to Signature-Agent, which takes no key to do.
\<close>

definition quoted :: "bytes \<Rightarrow> bytes" where
  "quoted s = [CHR 0x22] @ s @ [CHR 0x22]"

definition agent_request :: "bytes \<Rightarrow> bytes \<Rightarrow> request" where
  "agent_request label agents = example_request\<lparr>rq_headers :=
     [\<lparr>h_name = ''signature-input'', h_value = label @ ''=('' @ quoted ''@authority'' @ '' '' @ quoted ''signature-agent'' @ '';key=''
         @ quoted ''s'' @ '');created=100;expires=200;keyid='' @ quoted ''k'' @ '';nonce='' @ quoted ''n'' @ '';tag='' @ quoted ''web-bot-auth''\<rparr>,
      \<lparr>h_name = ''signature'', h_value = label @ ''=:'' @ replicate 86 CHR ''A'' @ ''==:''\<rparr>,
      \<lparr>h_name = ''signature-agent'', h_value = agents\<rparr>]\<rparr>"

definition honest_request :: request where
  "honest_request = agent_request ''s'' (''s='' @ quoted ''https://agent.example'')"

definition relabelled_request :: request where
  "relabelled_request = agent_request ''x'' (''s='' @ quoted ''https://agent.example'' @ '', x='' @ quoted ''https://evil.example'')"

definition agent_list :: sfv_inner_list where
  "agent_list =
     \<lparr>il_items = [\<lparr>it_bare = SFV_STRING ''@authority'', it_params = []\<rparr>,
                 \<lparr>it_bare = SFV_STRING ''signature-agent'', it_params = [\<lparr>p_key = ''key'', p_value = SFV_STRING ''s''\<rparr>]\<rparr>],
      il_params = [\<lparr>p_key = ''created'', p_value = SFV_INTEGER 100\<rparr>, \<lparr>p_key = ''expires'', p_value = SFV_INTEGER 200\<rparr>,
        \<lparr>p_key = ''keyid'', p_value = SFV_STRING ''k''\<rparr>, \<lparr>p_key = ''nonce'', p_value = SFV_STRING ''n''\<rparr>,
        \<lparr>p_key = ''tag'', p_value = SFV_STRING ''web-bot-auth''\<rparr>]\<rparr>"

definition agent_values :: "bytes list" where
  "agent_values = [''example.com'', [CHR 0x22] @ ''https://agent.example'' @ [CHR 0x22]]"

lemma agent_parse:
  "parse_dictionary (join_values (field_values honest_request ''signature-input'')) [] =
     (NGX_OK \<lparr>d_entries = [\<lparr>e_key = ''s'', e_value = MEMBER_INNER_LIST agent_list\<rparr>], d_duplicate_keys = False\<rparr>, [])"
  "parse_dictionary (join_values (field_values relabelled_request ''signature-input'')) [] =
     (NGX_OK \<lparr>d_entries = [\<lparr>e_key = ''x'', e_value = MEMBER_INNER_LIST agent_list\<rparr>], d_duplicate_keys = False\<rparr>, [])"
  by code_simp+

lemma agent_parse_sig:
  "parse_dictionary (join_values (field_values honest_request ''signature'')) [] =
     (NGX_OK \<lparr>d_entries = [\<lparr>e_key = ''s'', e_value = MEMBER_ITEM \<lparr>it_bare = SFV_BYTE_SEQUENCE (replicate 64 CHR 0x00), it_params = []\<rparr>\<rparr>],
        d_duplicate_keys = False\<rparr>, [])"
  "parse_dictionary (join_values (field_values relabelled_request ''signature'')) [] =
     (NGX_OK \<lparr>d_entries = [\<lparr>e_key = ''x'', e_value = MEMBER_ITEM \<lparr>it_bare = SFV_BYTE_SEQUENCE (replicate 64 CHR 0x00), it_params = []\<rparr>\<rparr>],
        d_duplicate_keys = False\<rparr>, [])"
  by code_simp+

lemma agent_fields:
  "field_values relabelled_request ''signature-input'' \<noteq> []" "field_values relabelled_request ''signature'' \<noteq> []"
  "field_values honest_request ''signature-input'' \<noteq> []" "field_values honest_request ''signature'' \<noteq> []"
  "field_values honest_request signature_agent \<noteq> []" "field_values relabelled_request signature_agent \<noteq> []"
  by code_simp+

lemma agent_hosts:
  "reported (field_values honest_request signature_agent) ''s'' [] = (''agent.example'', [])"
  "reported (field_values relabelled_request signature_agent) ''x'' [] = (''evil.example'', [])"
  by code_simp+

lemma agent_base:
  "base_build honest_request agent_list [] = (NGX_OK (base_text agent_list agent_values), [])"
  "base_build relabelled_request agent_list [] = (NGX_OK (base_text agent_list agent_values), [])"
proof -
  have "length (il_items agent_list) \<le> MAX_SFV_ITEMS" "distinct (map ser_item (il_items agent_list))"
    "length (base_text agent_list agent_values) \<le> 512"
    by code_simp+
  moreover have "base_values honest_request (il_items agent_list) agent_values"
    "base_values relabelled_request (il_items agent_list) agent_values"
    unfolding base_values_def by code_simp+
  ultimately show "base_build honest_request agent_list [] = (NGX_OK (base_text agent_list agent_values), [])"
    "base_build relabelled_request agent_list [] = (NGX_OK (base_text agent_list agent_values), [])"
    unfolding base_build_run MAX_BASE_LENGTH_def by auto
qed

lemma agent_select:
  "select_entry \<lparr>d_entries = [\<lparr>e_key = k, e_value = MEMBER_INNER_LIST agent_list\<rparr>], d_duplicate_keys = False\<rparr> (pf_tag web_bot_auth) =
   Some \<lparr>e_key = k, e_value = MEMBER_INNER_LIST agent_list\<rparr>"
proof -
  have "entry_has_tag (pf_tag web_bot_auth) \<lparr>e_key = [], e_value = MEMBER_INNER_LIST agent_list\<rparr>" by code_simp
  then have "entry_has_tag (pf_tag web_bot_auth) \<lparr>e_key = k, e_value = MEMBER_INNER_LIST agent_list\<rparr>"
    by (simp add: entry_has_tag_def)
  then show ?thesis by (simp add: select_entry_def)
qed

lemma agent_signature:
  assumes "profile_verify lib clock pctx req ([], sig0) = (NGX_OK (), (q, sig))" and "pc_profile pctx = web_bot_auth"
    and "parse_dictionary (join_values (field_values req ''signature-input'')) [] =
       (NGX_OK \<lparr>d_entries = [\<lparr>e_key = k, e_value = MEMBER_INNER_LIST agent_list\<rparr>], d_duplicate_keys = False\<rparr>, [])"
  shows "sg_components sig = Some agent_list \<and> sg_keyid sig = ''k'' \<and> sg_nonce sig = ''n'' \<and> sg_expires sig = 200 \<and>
    sg_agent_host sig = fst (reported (field_values req signature_agent) k []) \<and>
    q = snd (reported (field_values req signature_agent) k [])"
proof -
  have p: "str_param (il_params agent_list) ''keyid'' = Some ''k''" "str_param (il_params agent_list) ''nonce'' = Some ''n''"
    "int_param (il_params agent_list) ''expires'' = Some 200"
    by (simp_all add: str_param_Some int_param_Some agent_list_def param_get_def)
  show ?thesis
  proof (rule profile_verify_full [OF assms(1)])
    fix input entry l bs p'
    assume i: "parse_dictionary (join_values (field_values req ''signature-input'')) [] = (NGX_OK input, [])"
      "select_entry input (pf_tag (pc_profile pctx)) = Some entry" "e_value entry = MEMBER_INNER_LIST l"
      and s: "snd (q, sig) = (entry_sig entry l)\<lparr>sg_signature := bs,
        sg_agent_host := fst (reported (field_values req signature_agent) (e_key entry) p')\<rparr>"
        "fst (q, sig) = snd (reported (field_values req signature_agent) (e_key entry) p')" "[] = [] \<longrightarrow> p' = ([] :: pool)"
    from i assms(2,3) have "entry = \<lparr>e_key = k, e_value = MEMBER_INNER_LIST agent_list\<rparr>" "l = agent_list"
      by (auto simp: agent_select)
    with s show ?thesis by (simp add: entry_sig_def filled_def p)
  qed
qed

lemma honest_accepted: "fst (profile_verify toy_jwx clock signed_ctx honest_request ([], signature_zero)) = NGX_OK ()"
proof -
  let ?i = "\<lparr>it_bare = SFV_BYTE_SEQUENCE (replicate 64 CHR 0x00), it_params = []\<rparr>"
  have m: "meets_profile signed_ctx 150 honest_request agent_list ''k''"
    unfolding meets_profile_def by (simp add: signed_ctx_def agent_list_def param_get_def)
  have "fst (verify_entry toy_jwx clock signed_ctx honest_request
      \<lparr>d_entries = [\<lparr>e_key = ''s'', e_value = MEMBER_ITEM ?i\<rparr>], d_duplicate_keys = False\<rparr>
      \<lparr>e_key = ''s'', e_value = MEMBER_INNER_LIST agent_list\<rparr> ([], signature_zero)) = NGX_OK ()"
    unfolding verify_web_bot_auth_Nil [OF signed_ctx_simps(1)]
    using m by (auto simp: agent_base dict_get_def signed_ctx_simps signed_verifies)
  then show ?thesis
    unfolding profile_verify_Nil signed_ctx_simps(1)
    by (intro exI conjI) (rule agent_fields agent_parse(1) agent_parse_sig(1) agent_select | assumption | simp)+
qed

section \<open>Properties\<close>

text \<open>C30: The signature does not bind the agent.  Take any accepted signature under web-bot-auth whose components
  cover Signature-Agent by members, as \<open>key\<close> allows, and any request that carries it under another label \<open>x\<close>, with
  a member \<open>x\<close> added to Signature-Agent that names any host, everything else being equal.  It is
  accepted as well, whatever the library and the keys, over the same base, with the same keyid and nonce; but
  the agent reported is the added host, and when that is not the original one the nonce is looked up
  under another key, so that the first use of the nonce does not tell on the second.\<close>

theorem agent_not_bound:
  assumes "pc_profile pctx = web_bot_auth" and "profile_verify lib clock pctx req ([], sig0) = (NGX_OK (), (q, sig))"
    and "names_members (the (sg_components sig))" and "relabels req sig x url req'" and "x \<noteq> []"
    and "agent_bounds url = Some (host, authority)"
  shows "\<exists>q' sig'. profile_verify lib clock pctx req' ([], sig0) = (NGX_OK (), (q', sig')) \<and>
    sg_components sig' = sg_components sig \<and> sg_keyid sig' = sg_keyid sig \<and> sg_nonce sig' = sg_nonce sig \<and>
    base_build req' (the (sg_components sig)) [] = base_build req (the (sg_components sig)) [] \<and>
    sg_agent_host sig' = ngx_strlow host \<and>
    (ngx_strlow host \<noteq> sg_agent_host sig \<and> CHR 0x00 \<notin> set (sg_keyid sig) \<longrightarrow>
       fst (nonce_store_key (sg_agent_host sig') (sg_keyid sig') (sg_nonce sig') []) \<noteq>
       fst (nonce_store_key (sg_agent_host sig) (sg_keyid sig) (sg_nonce sig) []))"
proof -
  let ?tag = "pf_tag (pc_profile pctx)" and ?now = "if pc_now pctx \<noteq> 0 then pc_now pctx else clock"
  obtain input entry l bs p where r: "parse_dictionary (join_values (field_values req ''signature-input'')) [] = (NGX_OK input, [])"
    "select_entry input ?tag = Some entry" "e_value entry = MEMBER_INNER_LIST l"
    "sig = (entry_sig entry l)\<lparr>sg_signature := bs, sg_agent_host := fst (reported (field_values req signature_agent) (e_key entry) p)\<rparr>"
    by (rule profile_verify_full [OF assms(2)]) auto
  then have sig: "sg_components sig = Some l" "sg_label sig = e_key entry" by (simp_all add: entry_sig_def filled_def signature_zero_def)
  have members: "names_members l" using assms(3) sig(1) by simp
  from assms(2) have "fst (profile_verify lib clock pctx req ([], sig0)) = NGX_OK ()" by simp
  then obtain sd keyid i bytes base where v: "parse_dictionary (join_values (field_values req ''signature'')) [] = (NGX_OK sd, [])"
    "meets_profile pctx ?now req l keyid" "dict_get sd (e_key entry) = Some (MEMBER_ITEM i)" "it_bare i = SFV_BYTE_SEQUENCE bytes"
    "base_build req l [] = (NGX_OK base, [])" "verify_ed25519 lib (pc_keys pctx) keyid base bytes (pc_kid_fallback_keys pctx) = NGX_OK ()"
    unfolding profile_verify_Nil verify_web_bot_auth_Nil [OF assms(1)] using r(1-3) by auto
  let ?entry = "\<lparr>e_key = x, e_value = MEMBER_INNER_LIST l\<rparr>"
  let ?input = "\<lparr>d_entries = [?entry], d_duplicate_keys = False\<rparr>"
  from assms(4) sig v(1,3) obtain sd' line agents' ps where n: "dict_of req' ''signature-input'' = Some ?input"
    "dict_of req' ''signature'' = Some sd'" "\<not> d_duplicate_keys sd'" "dict_get sd' x = Some (MEMBER_ITEM i)"
    "field_values req' signature_agent = [line]" "dict_of req' signature_agent = Some agents'"
    "dict_get agents' x = Some (MEMBER_ITEM \<lparr>it_bare = SFV_STRING url, it_params = ps\<rparr>)" "agent_type_ok ps"
    unfolding relabels_def by (auto simp: dict_of_Some)
  have "entry_has_tag ?tag entry" using r(2) by (auto simp: select_entry_def find_Some_iff)
  then have sel: "select_entry ?input ?tag = Some ?entry" using r(3) by (simp add: select_entry_def entry_has_tag_def)
  have meets: "meets_profile pctx ?now req' l keyid"
    using v(2) members by (auto simp: meets_profile_def names_members_def signature_agent_def)
  note base = relabels_base [OF assms(4) members v(5)]
  have "fst (verify_entry lib clock pctx req' sd' ?entry ([], signature_zero)) = NGX_OK ()"
    unfolding verify_web_bot_auth_Nil [OF assms(1)] using meets n(4) v(4,6) base by auto
  then have "fst (profile_verify lib clock pctx req' ([], sig0)) = NGX_OK ()"
    unfolding profile_verify_Nil using n(1-3) sel by (auto simp: dict_of_Some)
  then obtain q' sig' where acc: "profile_verify lib clock pctx req' ([], sig0) = (NGX_OK (), (q', sig'))" unfolding fst_OK by auto
  obtain bs' where sig': "sig' = (entry_sig ?entry l)\<lparr>sg_signature := bs', sg_agent_host := fst (reported [line] x [])\<rparr>"
    by (rule profile_verify_full [OF acc]) (use n(1,5) sel in \<open>auto simp: dict_of_Some\<close>)
  have "reported [line] x [] = (ngx_strlow host, [])"
    using agent_host_labelled [OF assms(5) _ n(8) assms(6) n(7)] n(5,6) by (simp add: reported_def dict_of_Some)
  with sig' have host: "sg_agent_host sig' = ngx_strlow host" by simp
  have fields: "sg_components sig' = sg_components sig" "sg_keyid sig' = sg_keyid sig" "sg_nonce sig' = sg_nonce sig"
    using r(4) sig' by (simp_all add: entry_sig_def filled_def signature_zero_def)
  have nul_host: "\<not> low_host_char CHR 0x00" "\<not> low_v6_char CHR 0x00" by code_simp+
  have nul: "CHR 0x00 \<notin> set h" if "h = [] \<or> safe_host h" for h
    using that nul_host by (fastforce simp: safe_host_def)
  have "CHR 0x00 \<notin> set (sg_agent_host sig)" "CHR 0x00 \<notin> set (sg_agent_host sig')"
    using r(4) agent_host_safe agent_bounds_safe [OF assms(6)] host by (auto simp: reported_def intro!: nul)
  then have "fst (nonce_store_key (sg_agent_host sig') (sg_keyid sig') (sg_nonce sig') []) \<noteq>
      fst (nonce_store_key (sg_agent_host sig) (sg_keyid sig) (sg_nonce sig) [])"
    if "ngx_strlow host \<noteq> sg_agent_host sig" "CHR 0x00 \<notin> set (sg_keyid sig)"
    using nonce_key_injective [of "sg_agent_host sig'" "sg_keyid sig'" "sg_nonce sig'" "[]" _ "sg_agent_host sig" "sg_keyid sig" "sg_nonce sig" "[]"]
      that host fields by (fastforce simp: nonce_store_key_def)
  with acc fields host base v(5) sig(1) show ?thesis by auto
qed

text \<open>The relabelled demonstration request.\<close>

lemma agent_relabels:
  assumes "sg_components sig = Some agent_list" and "sg_label sig = ''s''"
  shows "relabels honest_request sig ''x'' ''https://evil.example'' relabelled_request"
proof -
  let ?agents = "[\<lparr>e_key = ''s'', e_value = MEMBER_ITEM \<lparr>it_bare = SFV_STRING ''https://agent.example'', it_params = []\<rparr>\<rparr>]"
  let ?evil = "\<lparr>e_key = ''x'', e_value = MEMBER_ITEM \<lparr>it_bare = SFV_STRING ''https://evil.example'', it_params = []\<rparr>\<rparr>"
  have a: "dict_of honest_request signature_agent = Some \<lparr>d_entries = ?agents, d_duplicate_keys = False\<rparr>"
    "dict_of relabelled_request signature_agent = Some \<lparr>d_entries = ?agents @ [?evil], d_duplicate_keys = False\<rparr>"
    by code_simp+
  have l: "field_values relabelled_request signature_agent = [''s='' @ quoted ''https://agent.example'' @ '', x='' @ quoted ''https://evil.example'']"
    by code_simp
  have s: "dict_of honest_request ''signature'' \<noteq> None" "dict_of relabelled_request ''signature'' \<noteq> None"
    using agent_parse_sig agent_fields by (simp_all add: dict_of_def)
  show ?thesis
    unfolding relabels_def
  proof (intro conjI)
    show "relabelled_request\<lparr>rq_headers := rq_headers honest_request\<rparr> = honest_request"
      by (simp add: relabelled_request_def honest_request_def agent_request_def)
    show "\<forall>name. name \<notin> {''signature-input'', ''signature'', signature_agent} \<longrightarrow>
        field_values relabelled_request name = field_values honest_request name"
      by (auto simp: relabelled_request_def honest_request_def agent_request_def field_values_def signature_agent_def)
    show "\<exists>l. sg_components sig = Some l \<and> dict_of relabelled_request ''signature-input'' =
        Some \<lparr>d_entries = [\<lparr>e_key = ''x'', e_value = MEMBER_INNER_LIST l\<rparr>], d_duplicate_keys = False\<rparr>"
      using assms(1) agent_parse(2) agent_fields(1) by (simp add: dict_of_Some)
    show "\<exists>sd sd' i. dict_of honest_request ''signature'' = Some sd \<and> dict_get sd (sg_label sig) = Some (MEMBER_ITEM i) \<and>
        dict_of relabelled_request ''signature'' = Some sd' \<and> \<not> d_duplicate_keys sd' \<and> dict_get sd' ''x'' = Some (MEMBER_ITEM i)"
      using agent_parse_sig agent_fields by (simp add: dict_of_Some assms(2) dict_get_def)
    show "\<exists>line agents agents' ps. field_values relabelled_request signature_agent = [line] \<and> dict_of honest_request signature_agent = Some agents \<and>
        dict_of relabelled_request signature_agent = Some agents' \<and> (\<forall>k v. dict_get agents k = Some v \<longrightarrow> dict_get agents' k = Some v) \<and>
        dict_get agents' ''x'' = Some (MEMBER_ITEM \<lparr>it_bare = SFV_STRING ''https://evil.example'', it_params = ps\<rparr>) \<and> agent_type_ok ps"
      by (rule exI, rule exI, rule exI, rule exI [of _ "[]"], intro conjI, rule l, rule a(1), rule a(2))
        (auto simp: dict_get_def agent_type_ok_def param_get_def)
  qed
qed

theorem agent_not_bound_witness:
  "\<exists>q sig. profile_verify toy_jwx 0 signed_ctx relabelled_request ([], signature_zero) = (NGX_OK (), (q, sig)) \<and>
     sg_agent_host sig = ''evil.example''"
proof -
  obtain q sig where h: "profile_verify toy_jwx 0 signed_ctx honest_request ([], signature_zero) = (NGX_OK (), (q, sig))"
    using honest_accepted [of 0] unfolding fst_OK by auto
  from agent_signature [OF h signed_ctx_simps(1) agent_parse(1)] have c: "sg_components sig = Some agent_list" by simp
  have "sg_label sig = ''s''"
    by (rule profile_verify_full [OF h]) (use agent_parse(1) agent_select in \<open>auto simp: entry_sig_def filled_def signed_ctx_simps\<close>)
  note r = agent_relabels [OF c this]
  have m: "names_members (the (sg_components sig))" unfolding c option.sel by code_simp
  have b: "agent_bounds ''https://evil.example'' = Some (''evil.example'', ''evil.example'')" by code_simp
  have "ngx_strlow ''evil.example'' = ''evil.example''" by code_simp
  with agent_not_bound [OF signed_ctx_simps(1) h m r _ b] show ?thesis by auto
qed

end
