(* ===== verification/Module_Demo.thy ===== *)
theory Module_Demo
  imports Module Request_Props Profile_Run Nonce_Redis_Props Key_Zone Nonce_Props
begin

text \<open>
  A concrete location, request and state, on which the theorems about the request handling are applied.
\<close>

definition demo_http :: http_request where
  "demo_http =
     \<lparr>hr_method_name = ''GET'', hr_connect = False, hr_unparsed_uri = ''/p?a=1'',
      hr_headers = map (\<lambda>h. (h_name h, h_value h)) (rq_headers honest_request),
      hr_host = Some ''Example.com:443'', hr_server = ''default''\<rparr>"

definition demo_conf :: "bytes loc_conf" where
  "demo_conf =
     \<lparr>lc_mode = MODE_ENFORCE, lc_keyid_fallback_allow = False, lc_require = True, lc_nonce_required = True,
      lc_nonce_failure_closed = True, lc_nonce_store = NONCE_STORE_SHM, lc_jwks_keys = Some (KEYS_JWKS ''k''),
      lc_profile_def = web_bot_auth, lc_expires_max = 86400, lc_max_skew = 60,
      lc_directory = \<lparr>dc_enabled = True, dc_allow = [''agent.example''], dc_cache_min_ttl = 60, dc_cache_max_ttl = 86400,
        dc_key_rotation_retry_ttl = 300, dc_max_size = 65536\<rparr>,
      lc_status = \<lparr>status_missing = 401, status_parse_error = 400, status_invalid = 403, status_replay = 409\<rparr>,
      lc_satisfy_any = False\<rparr>"

definition demo_env :: "((string \<times> string) list, bytes, int) env" where
  "demo_env =
     \<lparr>ev_lib = toy_jwx, ev_hiredis = dead_redis, ev_redis_conf = local_conf, ev_lcf = demo_conf,
      ev_request = demo_http, ev_scheme = Some ''https'', ev_now = 150, ev_subrequest_ok = True\<rparr>"

definition demo_state :: "nonce_ctx \<Rightarrow> (bytes, int) state" where
  "demo_state zone =
     \<lparr>st_ctx = None, st_pool = [], st_verdict = None, st_cleanup = None, st_zone = small_zone, st_local_keys = Some kc_empty,
      st_nonce_zone = zone, st_redis = redis_start, st_world = 0\<rparr>"

definition demo_key :: bytes where
  "demo_key = NONCE_KEY_PREFIX @ ''agent.example'' @ CHR 0x00 # ''k'' @ CHR 0x00 # ''n''"

lemma demo_env_simps [simp]:
  "ev_lib demo_env = toy_jwx" "ev_lcf demo_env = demo_conf" "ev_request demo_env = demo_http" "ev_now demo_env = 150"
  "ev_scheme demo_env = Some ''https''"
  by (simp_all add: demo_env_def)

lemma demo_snapshot: "snapshot ''https'' demo_http = honest_request"
  by code_simp

lemma demo_find: "find_header (hr_headers demo_http) ''signature-input'' \<noteq> None"
  by code_simp

lemma demo_verify:
  assumes "cx_jwks ctx = []" and "st_pool st = []"
  obtains sig where "verify_request demo_env ctx honest_request st = (NGX_OK (), sig, ctx, st)"
    "sg_agent_host sig = ''agent.example''" "sg_keyid sig = ''k''" "sg_nonce sig = ''n''" "sg_expires sig = 200"
proof -
  obtain q sig where v: "profile_verify toy_jwx 150 signed_ctx honest_request ([], signature_zero) = (NGX_OK (), (q, sig))"
    using honest_accepted [of 150] unfolding fst_OK by auto
  from agent_signature [OF v signed_ctx_simps(1) agent_parse(1)]
  have s: "sg_agent_host sig = ''agent.example''" "sg_keyid sig = ''k''" "sg_nonce sig = ''n''" "sg_expires sig = 200" "q = []"
    by (simp_all add: agent_hosts)
  have "verify_request demo_env ctx honest_request st = (NGX_OK (), sig, ctx, st\<lparr>st_pool := []\<rparr>)"
    using v s(5) assms
    by (simp add: verify_request_def resolve_keys_def keys_chain_def demo_conf_def signed_ctx_def)
  moreover have "st\<lparr>st_pool := []\<rparr> = st" using assms(2) by simp
  ultimately show ?thesis using that s by simp
qed

lemma demo_evaluate:
  assumes "shm_check zone demo_key 110 150 = (NONCE_OK, zone')"
  obtains st' ctx where "evaluate demo_env (demo_state zone) = (True, Some ctx, st')" "st_nonce_zone st' = zone'"
    "st_ctx st' = Some ctx" "cx_result ctx = RESULT_OK" "\<not> cx_internal_error ctx" "\<not> cx_nonce_store_unavailable ctx"
proof -
  let ?ctx = "ctx_zero\<lparr>cx_done := True, cx_result := RESULT_NOT_SIGNED\<rparr>"
  have ctx: "cx_jwks ?ctx = []" by (simp add: ctx_zero_def)
  have pool: "st_pool (demo_state zone) = []" by (simp add: demo_state_def)
  from demo_verify [OF ctx pool] obtain sig where
    v: "verify_request demo_env ?ctx honest_request (demo_state zone) = (NGX_OK (), sig, ?ctx, demo_state zone)"
      "sg_agent_host sig = ''agent.example''" "sg_keyid sig = ''k''" "sg_nonce sig = ''n''" "sg_expires sig = 200" by blast
  have k: "nonce_store_key ''agent.example'' ''k'' ''n'' [] = (Some demo_key, [])"
    by (simp add: nonce_store_key_def demo_key_def)
  have j: "nonce_judge demo_env sig 150 (demo_state zone) = (nonce_verdict_zero, (demo_state zone)\<lparr>st_nonce_zone := zone'\<rparr>)"
    using assms by (simp add: nonce_judge_def v k pool nonce_consult_def nonce_store_ttl_def demo_conf_def NONCE_MAX_LEN_def Let_def)
      (simp add: demo_state_def)
  have nv: "st_verdict (demo_state zone) = None" by (simp add: demo_state_def)
  have al: "st_palloc (demo_state zone) = (True, demo_state zone)" by (simp add: st_palloc_def demo_state_def)
  have c: "check_nonce demo_env ?ctx sig 150 (demo_state zone) =
      (RESULT_OK, ?ctx\<lparr>cx_nonce_store_unavailable := False\<rparr>,
       (demo_state zone)\<lparr>st_nonce_zone := zone', st_verdict := Some nonce_verdict_zero\<rparr>)"
    by (simp add: check_nonce_def v al j demo_conf_def nv nonce_verdict_zero_def)
  have b: "on_st_pool (build_request (ev_scheme demo_env) (ev_request demo_env)) (demo_state zone) = (NGX_OK honest_request, demo_state zone)"
    by (simp add: on_st_pool_def demo_state_def build_request_Nil demo_snapshot)
  obtain ctx st' where e: "evaluate_new demo_env ctx_zero (demo_state zone) = (ctx, st')" by fastforce
  have "evaluate_new demo_env ctx_zero (demo_state zone) = judge_request demo_env ?ctx honest_request (demo_state zone)"
    using demo_find b by (auto simp: evaluate_new_def Let_def)
  with e have "judge_request demo_env ?ctx honest_request (demo_state zone) = (ctx, st')" by simp
  then have "ctx = ?ctx\<lparr>cx_nonce_store_unavailable := False, cx_result := RESULT_OK, cx_keyid := ''k'', cx_agent := ''agent.example''\<rparr> \<and>
    st' = (demo_state zone)\<lparr>st_nonce_zone := zone', st_verdict := Some nonce_verdict_zero\<rparr>"
    unfolding judge_request_def v(1) by (simp add: c v)
  then have "st_nonce_zone st' = zone'" "cx_result ctx = RESULT_OK" "\<not> cx_internal_error ctx" "\<not> cx_nonce_store_unavailable ctx"
    by (simp_all add: ctx_zero_def)
  then have "evaluate demo_env (demo_state zone) = (True, Some ctx, st'\<lparr>st_ctx := Some ctx\<rparr>)"
    "cx_result ctx = RESULT_OK" "\<not> cx_internal_error ctx" "\<not> cx_nonce_store_unavailable ctx" "st_nonce_zone st' = zone'"
    using e by (simp_all add: evaluate_def demo_conf_def demo_state_def st_palloc_def ctx_zero_def)
  then show ?thesis
    by (intro that [of ctx "st'\<lparr>st_ctx := Some ctx\<rparr>"]) simp_all
qed

lemma demo_access:
  assumes "shm_check zone demo_key 110 150 = (NONCE_OK, zone')"
  obtains st' ctx where "access_handler demo_env (demo_state zone) = (HANDLER_OK, st')" "st_nonce_zone st' = zone'"
    "st_ctx st' = Some ctx" "\<not> cx_nonce_store_unavailable ctx"
  by (rule demo_evaluate [OF assms], rule that) (simp_all add: access_handler_def access_result_def demo_conf_def)

lemma demo_recorded:
  "\<exists>zone. shm_check small_store demo_key 110 150 = (NONCE_OK, zone) \<and> zone \<noteq> small_store"
proof -
  have "fst (shm_check small_store demo_key 110 150) = NONCE_OK"
    "ns_rbtree (snd (shm_check small_store demo_key 110 150)) \<noteq> ns_rbtree small_store"
    by code_simp+
  then show ?thesis by (metis prod.collapse)
qed

end
