(* ===== verification/Module_Props.thy ===== *)
theory Module_Props
  imports Module_Demo
begin

text \<open>
  The request handling shown correct: what an evaluation changes, that it happens once and consults the nonce
  store once, when access is granted, and when it is denied.
\<close>

section \<open>Frames\<close>

text \<open>What holds the nonces seen.\<close>

definition stores :: "('jwks, 'w) state \<Rightarrow> nonce_ctx \<times> redis_state \<times> 'w" where
  "stores st = (st_nonce_zone st, st_redis st, st_world st)"

lemma stores_simps [simp]:
  "stores (st\<lparr>st_pool := p\<rparr>) = stores st" "stores (st\<lparr>st_ctx := c\<rparr>) = stores st"
  "stores (st\<lparr>st_local_keys := k\<rparr>) = stores st" "stores (st\<lparr>st_verdict := v\<rparr>) = stores st"
  by (simp_all add: stores_def)

lemma on_st_pool_frame: "on_st_pool m st = (r, st') \<Longrightarrow> \<exists>p. m (st_pool st) = (r, p) \<and> st' = st\<lparr>st_pool := p\<rparr>"
  by (auto simp: on_st_pool_def split: prod.splits)

lemma st_palloc_frame: "st_palloc st = (ok, st') \<Longrightarrow> \<exists>p. palloc (st_pool st) = (ok, p) \<and> st' = st\<lparr>st_pool := p\<rparr>"
  by (auto simp: st_palloc_def split: prod.splits)

text \<open>All but the pool and the worker's cache of keys.\<close>

definition framed :: "('jwks, 'w) state \<Rightarrow> ('jwks, 'w) state \<Rightarrow> bool" where
  "framed st st' \<longleftrightarrow> st_ctx st' = st_ctx st \<and> st_verdict st' = st_verdict st \<and> st_cleanup st' = st_cleanup st
     \<and> st_zone st' = st_zone st \<and> stores st' = stores st"

lemma framed_simps [simp]:
  "framed st st" "framed st (st'\<lparr>st_pool := p\<rparr>) = framed st st'" "framed st (st'\<lparr>st_local_keys := l\<rparr>) = framed st st'"
  "framed (st\<lparr>st_pool := p\<rparr>) st' = framed st st'" "framed (st\<lparr>st_local_keys := l\<rparr>) st' = framed st st'"
  by (simp_all add: framed_def)

lemma resolve_direct_frame: "resolve_direct env ctx st = (k, st') \<Longrightarrow> framed st st'"
  by (auto simp: resolve_direct_def split: prod.splits rc.splits dest!: on_st_pool_frame)

lemma resolve_keys_frame: "resolve_keys env ctx st = (k, st') \<Longrightarrow> framed st st'"
  by (auto simp: resolve_keys_def split: if_splits option.splits prod.splits rc.splits dest!: resolve_direct_frame)

lemma verify_request_frame:
  "verify_request env ctx req st = (r, sig, ctx', st') \<Longrightarrow>
   framed st st' \<and> (ctx' = ctx \<or> ctx' = ctx\<lparr>cx_keys_unavailable := True, cx_directory_reason := FETCH_INVALID\<rparr>)"
  by (auto simp: verify_request_def Let_def split: prod.splits if_splits dest!: resolve_keys_frame)

lemma nonce_judge_frame:
  "nonce_judge env sig now st = (v, st') \<Longrightarrow> st_ctx st' = st_ctx st \<and> st_cleanup st' = st_cleanup st \<and> st_zone st' = st_zone st"
  by (auto simp: nonce_judge_def nonce_consult_def Let_def split: prod.splits if_splits option.splits nonce_rc.splits nonce_backend.splits)

lemma check_nonce_frame:
  "check_nonce env ctx sig now st = (r, ctx', st') \<Longrightarrow>
   st_ctx st' = st_ctx st \<and> st_cleanup st' = st_cleanup st \<and> st_zone st' = st_zone st \<and>
   cx_done ctx' = cx_done ctx \<and>
   (st_verdict st \<noteq> None \<longrightarrow> st_verdict st' = st_verdict st \<and> stores st' = stores st) \<and>
   (st_verdict st' = None \<longrightarrow> stores st' = stores st)"
  by (auto simp: check_nonce_def split: prod.splits if_splits option.splits bool.splits
      dest!: nonce_judge_frame st_palloc_frame)

lemma judge_request_frame:
  assumes "judge_request env ctx req st = (ctx', st')"
  shows "st_ctx st' = st_ctx st \<and> st_cleanup st' = st_cleanup st \<and> st_zone st' = st_zone st \<and> cx_done ctx' = cx_done ctx \<and>
   (st_verdict st \<noteq> None \<longrightarrow> st_verdict st' = st_verdict st \<and> stores st' = stores st) \<and>
   (st_verdict st' = None \<longrightarrow> stores st' = stores st)"
proof -
  obtain r sig ctx1 st1 where v: "verify_request env ctx req st = (r, sig, ctx1, st1)" by (metis prod_cases4)
  from verify_request_frame [OF v] have f: "framed st st1" "cx_done ctx1 = cx_done ctx" by auto
  show ?thesis
  proof (cases r)
    case (NGX_OK u)
    obtain res ctx2 st2 where n: "check_nonce env ctx1 sig (ev_now env) st1 = (res, ctx2, st2)" by (metis prod_cases3)
    from check_nonce_frame [OF n] f show ?thesis
      using assms v NGX_OK n by (auto simp: judge_request_def framed_def split: if_splits)
  qed (use assms v f in \<open>auto simp: judge_request_def framed_def\<close>)
qed

lemma evaluate_new_frame:
  "evaluate_new env ctx st = (ctx', st') \<Longrightarrow>
   st_ctx st' = st_ctx st \<and> st_cleanup st' = st_cleanup st \<and> st_zone st' = st_zone st \<and> cx_done ctx' \<and>
   (st_verdict st \<noteq> None \<longrightarrow> st_verdict st' = st_verdict st \<and> stores st' = stores st) \<and>
   (st_verdict st' = None \<longrightarrow> stores st' = stores st)"
  by (auto simp: evaluate_new_def Let_def split: prod.splits rc.splits if_splits
      dest!: judge_request_frame on_st_pool_frame)

text \<open>The context an evaluation starts from.\<close>

definition ctx_of :: "('jwks, 'w) state \<Rightarrow> httpsig_ctx" where
  "ctx_of st = (case st_ctx st of Some ctx \<Rightarrow> ctx | None \<Rightarrow> ctx_zero)"

definition started :: "('jwks, 'w) state \<Rightarrow> ('jwks, 'w) state" where
  "started st = (case st_ctx st of Some ctx \<Rightarrow> st | None \<Rightarrow> snd (st_palloc st))"

lemma started_frame [simp]:
  "st_cleanup (started st) = st_cleanup st" "st_zone (started st) = st_zone st" "st_verdict (started st) = st_verdict st"
  "stores (started st) = stores st" "st_ctx (started st) = st_ctx st" "st_local_keys (started st) = st_local_keys st"
  by (simp_all add: started_def st_palloc_def split: option.split prod.split)

lemma evaluate_cases:
  obtains "lc_mode (ev_lcf env) = MODE_OFF" "evaluate env st = (True, None, st)"
  | ctx where "st_ctx st = Some ctx" "cx_done ctx" "evaluate env st = (True, Some ctx, st)"
  | p where "st_ctx st = None" "evaluate env st = (False, None, st\<lparr>st_pool := p\<rparr>)"
  | ctx st1 where "lc_mode (ev_lcf env) \<noteq> MODE_OFF" "\<not> cx_done (ctx_of st)"
      "evaluate_new env (ctx_of st) (started st) = (ctx, st1)" "evaluate env st = (True, Some ctx, st1\<lparr>st_ctx := Some ctx\<rparr>)"
proof (cases "lc_mode (ev_lcf env) = MODE_OFF")
  case True
  then show ?thesis by (intro that(1)) (simp_all add: evaluate_def)
next
  case on: False
  show ?thesis
  proof (cases "st_ctx st")
    case None
    then show ?thesis
    proof (cases "st_palloc st")
      case (Pair ok st0)
      then obtain p where p: "st0 = st\<lparr>st_pool := p\<rparr>" using st_palloc_frame by blast
      show ?thesis
      proof (cases ok)
        case True
        obtain ctx st1 where "evaluate_new env ctx_zero st0 = (ctx, st1)" by fastforce
        with True Pair None on show ?thesis
          by (intro that(4)) (simp_all add: evaluate_def ctx_of_def started_def Let_def ctx_zero_def)
      next
        case False
        with Pair None on p show ?thesis by (intro that(3)) (simp_all add: evaluate_def)
      qed
    qed
  next
    case (Some ctx)
    obtain ctx1 st1 where "evaluate_new env ctx st = (ctx1, st1)" by fastforce
    with Some on that(2,4) show ?thesis
      by (cases "cx_done ctx") (simp_all add: evaluate_def ctx_of_def started_def Let_def)
  qed
qed

lemma evaluate_frame:
  "evaluate env st = (ok, out, st') \<Longrightarrow>
   st_cleanup st' = st_cleanup st \<and> st_zone st' = st_zone st \<and>
   (st_verdict st \<noteq> None \<longrightarrow> st_verdict st' = st_verdict st \<and> stores st' = stores st) \<and>
   (st_verdict st' = None \<longrightarrow> stores st' = stores st)"
  by (rule evaluate_cases [of env st]) (auto dest!: evaluate_new_frame)

section \<open>One evaluation, one look at the nonce\<close>

text \<open>
  The evaluations of one request, through its access handler and its variables: before each, an internal
  redirect may have dropped the context, which the flag tells.
\<close>

definition evaluate_again :: "bool \<Rightarrow> ('json, 'jwks, 'w) env \<Rightarrow> ('jwks, 'w) state \<Rightarrow> ('jwks, 'w) state" where
  "evaluate_again dropped env st = snd (snd (evaluate env (if dropped then st\<lparr>st_ctx := None\<rparr> else st)))"

definition evaluations :: "(bool \<times> ('json, 'jwks, 'w) env) list \<Rightarrow> ('jwks, 'w) state \<Rightarrow> ('jwks, 'w) state" where
  "evaluations es st = fold (\<lambda>(dropped, env). evaluate_again dropped env) es st"

lemma evaluate_again_frame:
  "(st_verdict st \<noteq> None \<longrightarrow> st_verdict (evaluate_again d env st) = st_verdict st \<and> stores (evaluate_again d env st) = stores st) \<and>
   (st_verdict (evaluate_again d env st) = None \<longrightarrow> stores (evaluate_again d env st) = stores st)"
  using evaluate_frame [of env "if d then st\<lparr>st_ctx := None\<rparr> else st"]
  by (cases "evaluate env (if d then st\<lparr>st_ctx := None\<rparr> else st)") (simp add: evaluate_again_def split: if_splits)

lemma evaluations_frame:
  "(st_verdict st \<noteq> None \<longrightarrow> st_verdict (evaluations es st) = st_verdict st \<and> stores (evaluations es st) = stores st) \<and>
   (st_verdict (evaluations es st) = None \<longrightarrow> st_verdict st = None \<and> stores (evaluations es st) = stores st)"
proof (induction es arbitrary: st)
  case Nil
  then show ?case by (simp add: evaluations_def)
next
  case (Cons e es)
  obtain d env where "e = (d, env)" by fastforce
  then have "evaluations (e # es) st = evaluations es (evaluate_again d env st)" by (simp add: evaluations_def)
  with Cons.IH [of "evaluate_again d env st"] evaluate_again_frame [of st d env] show ?case by metis
qed

section \<open>A refusal is never a success\<close>

lemma bnd_declined_cases:
  "bnd m f s = (NGX_DECLINED e, t) \<Longrightarrow>
   fst (m s) = NGX_DECLINED e \<or> (\<exists>x u. m s = (NGX_OK x, u) \<and> fst (f x u) = NGX_DECLINED e)"
  by (auto simp: bnd_def split: prod.splits rc.splits)

definition never_declines :: "'e \<Rightarrow> ('s, 'e, 'a) op \<Rightarrow> bool" where
  "never_declines e m \<longleftrightarrow> (\<forall>s. fst (m s) \<noteq> NGX_DECLINED e)"

lemma never_declines_bnd: "never_declines e m \<Longrightarrow> (\<And>x. never_declines e (f x)) \<Longrightarrow> never_declines e (bnd m f)"
  unfolding never_declines_def by (metis bnd_declined_cases prod.collapse)

lemma never_declines_basic:
  "never_declines e (ret x)" "never_declines e (declined d) \<longleftrightarrow> d \<noteq> e" "d \<noteq> e \<Longrightarrow> never_declines e (declined_as d m)"
  "never_declines e (set_sig g)"
  by (auto simp: never_declines_def declined_def ret_def set_sig_def declined_as_def split: prod.splits rc.splits)

lemma never_declines_pure: "\<forall>s. f (snd s) \<noteq> NGX_DECLINED e \<Longrightarrow> never_declines e (\<lambda>s. (f (snd s), s))"
  by (simp add: never_declines_def)

lemma pool_alloc_never: "fst (pool_alloc p) \<noteq> NGX_DECLINED e"
  by (simp add: pool_alloc_def palloc_with_def split: prod.split)

lemma collect_loop_never: "fst (collect_loop hs name arr p) \<noteq> NGX_DECLINED e"
  by (induction hs name arr arbitrary: p rule: collect_loop.induct)
    (auto simp: bnd_def pool_alloc_never split: prod.splits rc.splits, metis fst_conv pool_alloc_never)

lemma collect_never: "never_declines e (on_pool (collect req name))"
proof -
  have "fst (collect req name p) \<noteq> NGX_DECLINED e" for p
    unfolding collect_def by (metis bnd_declined_cases collect_loop_never pool_alloc_never prod.collapse)
  then show ?thesis unfolding never_declines_def on_pool_def by (metis (mono_tags, lifting) case_prod_beta fst_conv)
qed

lemma verify_finish_never: "never_declines RESULT_OK (verify_finish lib pctx raws base)"
proof -
  have "verify_ed25519 lib ks keyid base sig fb \<noteq> NGX_DECLINED RESULT_OK" for ks keyid sig fb
    by (auto simp: verify_ed25519_def Let_def split: rc.splits)
  then show ?thesis by (auto simp: never_declines_def verify_finish_def split: rc.splits prod.splits)
qed

lemma base_and_finish_never:
  "fst (bnd (set_sig g) (\<lambda>_. bnd (declined_as RESULT_PARSE_ERROR m) (verify_finish lib pctx raws)) s) \<noteq> NGX_DECLINED RESULT_OK"
proof -
  have "never_declines RESULT_OK (bnd (set_sig g) (\<lambda>_. bnd (declined_as RESULT_PARSE_ERROR m) (verify_finish lib pctx raws)))"
    by (intro never_declines_bnd never_declines_basic verify_finish_never) simp
  then show ?thesis unfolding never_declines_def by blast
qed

lemma verify_signature_never: "fst (verify_signature lib pctx req sd l raws s) \<noteq> NGX_DECLINED RESULT_OK"
  by (auto simp: verify_signature_def base_and_finish_never split: option.split sfv_value.split sfv_bare.split)

lemma profile_verify_never: "never_declines RESULT_OK (profile_verify lib clock pctx req)"
proof -
  have "never_declines RESULT_OK (verify_entry lib clock pctx req sd entry)" for sd entry
    unfolding verify_entry_def
    by (auto intro!: never_declines_bnd never_declines_basic never_declines_pure collect_never
        simp: never_declines_basic profile_match_def split: sfv_value.split if_splits)
      (auto simp: never_declines_def declined_def verify_signature_never)
  then show ?thesis
    unfolding profile_verify_def
    by (auto intro!: never_declines_bnd never_declines_basic simp: never_declines_basic split: option.split)
qed

lemma profile_verify_refusal: "profile_verify lib clock pctx req s = (r, t) \<Longrightarrow> r \<noteq> NGX_DECLINED RESULT_OK"
  using profile_verify_never unfolding never_declines_def by (metis fst_conv)

lemma verify_request_refusal: "verify_request env ctx req st = (r, sig, ctx', st') \<Longrightarrow> r \<noteq> NGX_DECLINED RESULT_OK"
  by (auto simp: verify_request_def Let_def split: prod.splits dest: profile_verify_refusal)

section \<open>What an evaluation means\<close>

text \<open>The signature a new evaluation of the request would accept, if any.\<close>

definition accepted_signature :: "('json, 'jwks, 'w) env \<Rightarrow> ('jwks, 'w) state \<Rightarrow> signature option" where
  "accepted_signature env st =
     (if find_header (hr_headers (ev_request env)) ''signature-input'' = None then None
      else case on_st_pool (build_request (ev_scheme env) (ev_request env)) (started st) of
        (NGX_OK req, st1) \<Rightarrow>
          (case verify_request env ((ctx_of st)\<lparr>cx_done := True, cx_result := RESULT_NOT_SIGNED\<rparr>) req st1 of
             (NGX_OK _, sig, _, _) \<Rightarrow> Some sig
           | _ \<Rightarrow> None)
      | _ \<Rightarrow> None)"

lemma evaluate_new_OK:
  assumes "evaluate_new env (ctx_of st) (started st) = (ctx, st')" and "cx_result ctx = RESULT_OK" and "\<not> cx_internal_error ctx"
  obtains sig ctx0 ctx1 st1 where "accepted_signature env st = Some sig" "framed (started st) st1"
    "check_nonce env ctx0 sig (ev_now env) st1 = (RESULT_OK, ctx1, st')"
    "ctx = ctx1\<lparr>cx_result := RESULT_OK, cx_keyid := sg_keyid sig, cx_agent := sg_agent_host sig\<rparr>"
proof -
  let ?ctx = "(ctx_of st)\<lparr>cx_done := True, cx_result := RESULT_NOT_SIGNED\<rparr>"
  from assms obtain v where h: "find_header (hr_headers (ev_request env)) ''signature-input'' = Some v"
    by (auto simp: evaluate_new_def Let_def split: if_splits)
  obtain rb st0 where b: "on_st_pool (build_request (ev_scheme env) (ev_request env)) (started st) = (rb, st0)" by fastforce
  with h assms obtain req where req: "rb = NGX_OK req"
    by (cases rb) (auto simp: evaluate_new_def Let_def)
  from b have st0: "framed (started st) st0" by (auto dest: on_st_pool_frame)
  obtain r sig ctx0 st1 where v: "verify_request env ?ctx req st0 = (r, sig, ctx0, st1)" by (metis prod_cases4)
  with b req h assms(1) have j: "judge_request env ?ctx req st0 = (ctx, st')" by (simp add: evaluate_new_def Let_def)
  have nd: "r \<noteq> NGX_DECLINED RESULT_OK" by (rule verify_request_refusal [OF v])
  obtain u where r: "r = NGX_OK u"
    using j v nd assms(2,3) by (cases r) (auto simp: judge_request_def split: if_splits)
  obtain res ctx1 st2 where n: "check_nonce env ctx0 sig (ev_now env) st1 = (res, ctx1, st2)" by (metis prod_cases3)
  have "accepted_signature env st = Some sig" using h b req v r by (simp add: accepted_signature_def)
  moreover have "framed (started st) st1" using st0 verify_request_frame [OF v] by (simp add: framed_def)
  moreover have "res = RESULT_OK" using j v r n assms(2) by (auto simp: judge_request_def split: if_splits)
  ultimately show ?thesis using that j v r n by (simp add: judge_request_def)
qed

lemma check_nonce_verdict:
  assumes "check_nonce env ctx sig now st = (RESULT_OK, ctx', st')" and "\<not> cx_internal_error ctx'"
  shows "lc_nonce_store (ev_lcf env) = NONCE_STORE_OFF \<or> sg_nonce sig = [] \<and> \<not> lc_nonce_required (ev_lcf env) \<or>
    sg_nonce sig \<noteq> [] \<and> (\<exists>v. st_verdict st' = Some v \<and> nv_result v = RESULT_OK \<and> \<not> nv_internal_error v)"
  using assms by (auto simp: check_nonce_def split: if_splits option.splits prod.splits bool.splits)

section \<open>Properties\<close>

text \<open>C29: A nonce is looked up once per request: whatever internal redirects drop the context in between, and
  whichever locations the evaluations belong to, at most one of them touches the nonce stores.\<close>

theorem nonce_consulted_once:
  assumes "st1 = evaluations before st" and "st2 = evaluate_again dropped env st1" and "stores st2 \<noteq> stores st1"
  shows "stores st1 = stores st \<and> stores (evaluations after st2) = stores st2"
  using evaluations_frame [of st before] evaluate_again_frame [of st1 dropped env] evaluations_frame [of st2 after] assms
  by metis

theorem nonce_consulted_once_witness:
  "\<exists>st2. st2 = evaluate_again False demo_env (demo_state small_store) \<and> stores st2 \<noteq> stores (demo_state small_store) \<and>
    stores (evaluations [(True, demo_env), (True, demo_env)] st2) = stores st2"
proof -
  obtain zone where z: "shm_check small_store demo_key 110 150 = (NONCE_OK, zone)" "zone \<noteq> small_store"
    using demo_recorded by blast
  obtain st' ctx where "evaluate demo_env (demo_state small_store) = (True, Some ctx, st')" "st_nonce_zone st' = zone"
    by (rule demo_evaluate [OF z(1)])
  then have "stores (evaluate_again False demo_env (demo_state small_store)) \<noteq> stores (demo_state small_store)"
    using z(2) by (simp add: evaluate_again_def stores_def demo_state_def)
  moreover have "demo_state small_store = evaluations [] (demo_state small_store)" by (simp add: evaluations_def)
  ultimately show ?thesis
    using nonce_consulted_once [of "demo_state small_store" "[]" "demo_state small_store" _ False demo_env "[(True, demo_env), (True, demo_env)]"]
    by blast
qed

text \<open>C1: Access is granted (\<open>NGX_OK\<close>) only to a verified request: the evaluation accepted a signature of this
  request, its keyid and agent are what the variables report, and when a nonce store is configured the
  nonce was absent and not required, or the store's verdict on it was good; nothing failed internally.\<close>

theorem access_granted_verified:
  assumes "access_handler env st = (HANDLER_OK, st')" and "\<not> cx_done (ctx_of st)"
  shows "\<exists>sig ctx. accepted_signature env st = Some sig \<and> st_ctx st' = Some ctx \<and> \<not> cx_internal_error ctx \<and>
    cx_keyid ctx = sg_keyid sig \<and> cx_agent ctx = sg_agent_host sig \<and>
    (lc_nonce_store (ev_lcf env) = NONCE_STORE_OFF \<or> sg_nonce sig = [] \<and> \<not> lc_nonce_required (ev_lcf env) \<or>
     (\<exists>v. st_verdict st' = Some v \<and> nv_result v = RESULT_OK \<and> \<not> nv_internal_error v))"
proof (rule evaluate_cases [of env st])
  fix ctx st1
  assume n: "evaluate_new env (ctx_of st) (started st) = (ctx, st1)" and e: "evaluate env st = (True, Some ctx, st1\<lparr>st_ctx := Some ctx\<rparr>)"
  from assms(1) e have ok: "\<not> cx_internal_error ctx" "access_result (ev_lcf env) (cx_result ctx) = HANDLER_OK"
    "st' = st1\<lparr>st_ctx := Some ctx\<rparr>"
    by (auto simp: access_handler_def Let_def split: if_splits)
  from ok(2) have "cx_result ctx = RESULT_OK"
    by (auto simp: access_result_def deny_code_def split: httpsig_result.splits if_splits)
  then obtain sig ctx0 ctx1 st0 where s: "accepted_signature env st = Some sig"
      "check_nonce env ctx0 sig (ev_now env) st0 = (RESULT_OK, ctx1, st1)"
      "ctx = ctx1\<lparr>cx_result := RESULT_OK, cx_keyid := sg_keyid sig, cx_agent := sg_agent_host sig\<rparr>"
    using evaluate_new_OK [OF n _ ok(1)] by metis
  with check_nonce_verdict [OF s(2)] ok show ?thesis by auto
qed (use assms in \<open>auto simp: access_handler_def Let_def ctx_of_def split: if_splits\<close>)

theorem access_granted_verified_witness:
  "\<exists>st' sig ctx. access_handler demo_env (demo_state small_store) = (HANDLER_OK, st') \<and>
    accepted_signature demo_env (demo_state small_store) = Some sig \<and> st_ctx st' = Some ctx \<and> cx_agent ctx = sg_agent_host sig"
proof -
  obtain zone where z: "shm_check small_store demo_key 110 150 = (NONCE_OK, zone)" using demo_recorded by blast
  obtain st' ctx where a: "access_handler demo_env (demo_state small_store) = (HANDLER_OK, st')"
    by (rule demo_access [OF z])
  have "\<not> cx_done (ctx_of (demo_state small_store))" by (simp add: ctx_of_def demo_state_def ctx_zero_def)
  from access_granted_verified [OF a this] a show ?thesis by blast
qed

end
