(* ===== verification/Fetch_Props.thy ===== *)
theory Fetch_Props
  imports Module_Props
begin

text \<open>
  The key directory fetch: where a fetch can go, and that the right to fetch a host always comes back, whatever
  fails on the way, and how often a request waits for one.
\<close>

section \<open>Hosts being fetched\<close>

definition fetched :: "(bytes \<rightharpoonup> cache_node) \<Rightarrow> bytes set" where
  "fetched m = {h. \<exists>n. m h = Some n \<and> cn_fetching n}"

abbreviation fetched_hosts :: "cache_ctx \<Rightarrow> bytes set" where
  "fetched_hosts ctx \<equiv> fetched (fst (zone_of ctx))"

lemma fetched_evicts: "evicts now m m' \<Longrightarrow> fetched m' \<subseteq> fetched m"
  using evicts_Some by (fastforce simp: fetched_def)

lemma fetched_step: "zone_step z e r z' \<Longrightarrow> fetched (fst z') \<subseteq> fetched (fst z) \<union> {h. grants e r h}"
proof (induction rule: zone_step.induct)
  case (claim_new m h now m' g pool)
  then show ?case using fetched_evicts [OF claim_new.hyps(2)] by (auto simp: fetched_def answer_def split: if_splits)
next
  case (unavailable m h now m' g pool)
  then show ?case using fetched_evicts [OF unavailable.hyps(2)] by auto
next
  case (store m h n m' clock g jwks expires_at retry_ttl)
  then have "fetched m' \<subseteq> fetched m" using fetched_evicts by blast
  then show ?case by (auto simp: fetched_def split: if_splits)
next
  case (store_backoff m h n m' clock g jwks expires_at retry_ttl)
  then have "fetched m' \<subseteq> fetched m" using fetched_evicts by blast
  then show ?case by (auto simp: fetched_def split: if_splits)
next
  case (store_no_room m h clock m' g jwks expires_at retry_ttl)
  then show ?case using fetched_evicts [OF store_no_room.hyps(2)] by auto
qed (auto simp: fetched_def answer_def split: if_splits)

lemma fetched_release: "zone_step z (Release_for h t) Released z' \<Longrightarrow> fetched (fst z') = fetched (fst z) - {h}"
  by (elim release_stepE) (auto simp: fetched_def)

lemma fetched_store: "zone_step z (Store_for h jwks exp ttl clock) (Stored g) z' \<Longrightarrow> fetched (fst z') \<subseteq> fetched (fst z) - {h}"
  using fetched_step [of z "Store_for h jwks exp ttl clock" "Stored g" z']
  by (auto elim!: store_stepE simp: fetched_def evicts_def split: if_splits)

lemma cache_release_fetched:
  "cache_inv z \<Longrightarrow> cache_inv (cache_release z h t) \<and> fetched_hosts (cache_release z h t) = fetched_hosts z - {h}"
  using release_refines fetched_release by blast

lemma cache_store_fetched:
  "cache_inv z \<Longrightarrow> cache_store z h jwks exp ttl clock = (g, z') \<Longrightarrow> cache_inv z' \<and> fetched_hosts z' \<subseteq> fetched_hosts z - {h}"
  using store_refines fetched_store by blast

lemma cache_lookup_fetched:
  assumes "cache_inv z" and "cache_lookup z pool h now = (out, z', pool')"
  shows "cache_inv z' \<and> fetched_hosts z' \<subseteq> fetched_hosts z \<union> (if lk_rc out = NGX_OK CACHE_CLAIMED then {h} else {}) \<and>
    (lk_rc out = NGX_OK CACHE_CLAIMED \<longrightarrow> (\<exists>x. held h now x (zone_of z')))"
proof -
  note z = lookup_refines [OF assms]
  have "grants (Lookup_for pool h now) (Looked out) k \<longleftrightarrow> k = h \<and> lk_rc out = NGX_OK CACHE_CLAIMED" for k by auto
  with fetched_step [OF conjunct2 [OF z]] grants_held [OF conjunct2 [OF z], of h] z show ?thesis by auto
qed

lemma cache_rotation_fetched:
  assumes "cache_inv z" and "cache_claim_rotation_refetch z h now ttl = (ok, z')"
  shows "cache_inv z' \<and> fetched_hosts z' \<subseteq> fetched_hosts z \<union> (if ok then {h} else {}) \<and> (ok \<longrightarrow> (\<exists>x. held h now x (zone_of z')))"
proof -
  note z = rotation_refines [OF assms]
  have "grants (Claim_rotation h now ttl) (Claimed_rotation ok) k \<longleftrightarrow> k = h \<and> ok" for k by auto
  with fetched_step [OF conjunct2 [OF z]] grants_held [OF conjunct2 [OF z], of h] z show ?thesis by auto
qed

section \<open>The handler, layer by layer\<close>

text \<open>How a call leaves the context and the zone that was \<open>zone\<close> before.\<close>

definition settled :: "('json, 'jwks, 'w) env \<Rightarrow> cache_ctx \<Rightarrow> handler_rc \<Rightarrow> ('jwks, 'w) state \<Rightarrow> bool" where
  "settled env zone rc st \<longleftrightarrow> cache_inv (st_zone st) \<and>
     (if rc = HANDLER_AGAIN then
        (\<exists>c cl x. st_ctx st = Some c \<and> cx_claimed c \<and> st_cleanup st = Some cl \<and> dcl_host cl = cx_directory_host c \<and>
           held (cx_directory_host c) (ev_now env) x (zone_of (st_zone st)) \<and>
           fetched_hosts (st_zone st) \<subseteq> insert (cx_directory_host c) (fetched_hosts zone))
      else \<not> cx_claimed (ctx_of st) \<and> fetched_hosts (st_zone st) \<subseteq> fetched_hosts zone)"

lemma settled_again:
  "settled env zone HANDLER_AGAIN st \<longleftrightarrow> cache_inv (st_zone st) \<and>
     (\<exists>c cl x. st_ctx st = Some c \<and> cx_claimed c \<and> st_cleanup st = Some cl \<and> dcl_host cl = cx_directory_host c \<and>
        held (cx_directory_host c) (ev_now env) x (zone_of (st_zone st)) \<and>
        fetched_hosts (st_zone st) \<subseteq> insert (cx_directory_host c) (fetched_hosts zone))"
  by (simp add: settled_def)

lemma settled_done:
  "rc \<noteq> HANDLER_AGAIN \<Longrightarrow> settled env zone rc st \<longleftrightarrow>
     cache_inv (st_zone st) \<and> \<not> cx_claimed (ctx_of st) \<and> fetched_hosts (st_zone st) \<subseteq> fetched_hosts zone"
  by (simp add: settled_def)

lemma fail_open_settled:
  assumes "directory_fail_open ctx reason st = (rc, st')" and "\<not> cx_claimed ctx" and "cache_inv (st_zone st)"
    and "fetched_hosts (st_zone st) \<subseteq> fetched_hosts zone"
  shows "rc \<noteq> HANDLER_AGAIN" "settled env zone rc st'"
  using assms by (auto simp: directory_fail_open_def settled_done Let_def ctx_of_def split: if_splits)

lemma fail_open_release_settled:
  assumes "directory_fail_open_release env ctx retry_ttl reason st = (rc, st')" and "cache_inv (st_zone st)"
    and "fetched_hosts (st_zone st) \<subseteq> insert (cx_directory_host ctx) (fetched_hosts zone)"
  shows "rc \<noteq> HANDLER_AGAIN" "settled env zone rc st'"
proof -
  let ?st = "st\<lparr>st_zone := cache_release (st_zone st) (cx_directory_host ctx) (ev_now env + retry_ttl)\<rparr>"
  have "cache_inv (st_zone ?st)" "fetched_hosts (st_zone ?st) \<subseteq> fetched_hosts zone"
    using cache_release_fetched [OF assms(2)] assms(3) by auto
  with fail_open_settled [of "ctx\<lparr>cx_claimed := False\<rparr>" reason ?st rc st'] assms(1)
  show "rc \<noteq> HANDLER_AGAIN" "settled env zone rc st'"
    by (simp_all add: directory_fail_open_release_def)
qed

lemma fetch_settled:
  assumes "directory_fetch env ctx st = (rc, st')" and "cache_inv (st_zone st)"
    and "fetched_hosts (st_zone st) \<subseteq> insert (cx_directory_host ctx) (fetched_hosts zone)"
    and "held (cx_directory_host ctx) (ev_now env) x (zone_of (st_zone st))"
  shows "settled env zone rc st'" and "rc = HANDLER_AGAIN \<longrightarrow> st_ctx st' = Some (ctx\<lparr>cx_claimed := True\<rparr>)"
proof -
  note rel = fail_open_release_settled [of env "ctx\<lparr>cx_claimed := True\<rparr>" "dc_cache_min_ttl (lc_directory (ev_lcf env))" FETCH_FAILED
      _ rc st' zone]
  obtain a st1 b st2 c st3 where al: "st_palloc st = (a, st1)"
    "st_palloc (st1\<lparr>st_cleanup := Some \<lparr>dcl_host = cx_directory_host ctx, dcl_retry_ttl = dc_cache_min_ttl (lc_directory (ev_lcf env))\<rparr>\<rparr>) = (b, st2)"
    "st_palloc st2 = (c, st3)"
    by (metis prod.collapse)
  then have z: "st_zone st1 = st_zone st" "st_zone st2 = st_zone st" "st_zone st3 = st_zone st"
    "st_cleanup st3 = Some \<lparr>dcl_host = cx_directory_host ctx, dcl_retry_ttl = dc_cache_min_ttl (lc_directory (ev_lcf env))\<rparr>"
    by (auto dest!: st_palloc_frame)
  have "settled env zone rc st' \<and> (rc = HANDLER_AGAIN \<longrightarrow> st_ctx st' = Some (ctx\<lparr>cx_claimed := True\<rparr>))"
  proof (cases "a \<and> b \<and> ev_subrequest_ok env")
    case True
    with assms(1) al have "rc = HANDLER_AGAIN" "st' = st3\<lparr>st_ctx := Some (ctx\<lparr>cx_claimed := True\<rparr>)\<rparr>"
      by (simp_all add: directory_fetch_def Let_def)
    with z assms(2-4) show ?thesis by (auto simp: settled_again)
  next
    case False
    then have "directory_fail_open_release env (ctx\<lparr>cx_claimed := True\<rparr>) (dc_cache_min_ttl (lc_directory (ev_lcf env))) FETCH_FAILED st1 = (rc, st') \<or>
      directory_fail_open_release env (ctx\<lparr>cx_claimed := True\<rparr>) (dc_cache_min_ttl (lc_directory (ev_lcf env))) FETCH_FAILED st2 = (rc, st')"
      using assms(1) al by (cases a; cases b) (simp_all add: directory_fetch_def Let_def)
    with rel [of st1] rel [of st2] z assms(2,3) show ?thesis by auto
  qed
  then show "settled env zone rc st'" "rc = HANDLER_AGAIN \<longrightarrow> st_ctx st' = Some (ctx\<lparr>cx_claimed := True\<rparr>)" by blast+
qed

lemma declined_settled:
  "\<not> cx_claimed ctx \<Longrightarrow> cache_inv (st_zone st) \<Longrightarrow> fetched_hosts (st_zone st) \<subseteq> fetched_hosts zone \<Longrightarrow>
   settled env zone HANDLER_DECLINED (st\<lparr>st_ctx := Some (ctx\<lparr>cx_directory_done := True\<rparr>)\<rparr>)"
  by (simp add: settled_done ctx_of_def)

lemma resolve_keys_zone: "resolve_keys env ctx st = (keys, st') \<Longrightarrow> st_zone st' = st_zone st"
  using resolve_keys_frame by (fastforce simp: framed_def)

lemma hit_settled:
  assumes "directory_hit env ctx keyid st = (rc, st')" and "\<not> cx_claimed ctx" and "cache_inv (st_zone st)"
    and "fetched_hosts (st_zone st) \<subseteq> fetched_hosts zone"
  shows "settled env zone rc st' \<and> (rc = HANDLER_AGAIN \<longrightarrow> cx_directory_host (ctx_of st') = cx_directory_host ctx)"
proof -
  obtain keys st1 where k: "resolve_keys env ctx st = (keys, st1)" by fastforce
  obtain ok z where r: "cache_claim_rotation_refetch (st_zone st1) (cx_directory_host ctx) (ev_now env)
      (dc_key_rotation_retry_ttl (lc_directory (ev_lcf env))) = (ok, z)" by fastforce
  note st1 = resolve_keys_zone [OF k]
  show ?thesis
  proof (cases "keyid \<noteq> [] \<and> rotation_signal env keyid keys")
    case False
    with assms k st1 declined_settled [of ctx st zone env] declined_settled [of ctx st1 zone env] show ?thesis
      by (auto simp: directory_hit_def Let_def split: if_splits)
  next
    case True
    from cache_rotation_fetched [OF _ r] st1 assms(3) have z: "cache_inv z"
      "fetched_hosts z \<subseteq> fetched_hosts (st_zone st) \<union> (if ok then {cx_directory_host ctx} else {})"
      "ok \<Longrightarrow> \<exists>x. held (cx_directory_host ctx) (ev_now env) x (zone_of z)" by simp_all
    show ?thesis
    proof (cases ok)
      case ok: True
      with z(3) obtain x where x: "held (cx_directory_host ctx) (ev_now env) x (zone_of (st_zone (st1\<lparr>st_zone := z\<rparr>)))" by auto
      from True ok k r assms(1) have f: "directory_fetch env ctx (st1\<lparr>st_zone := z\<rparr>) = (rc, st')"
        by (simp add: directory_hit_def Let_def)
      have "cache_inv (st_zone (st1\<lparr>st_zone := z\<rparr>))"
        "fetched_hosts (st_zone (st1\<lparr>st_zone := z\<rparr>)) \<subseteq> insert (cx_directory_host ctx) (fetched_hosts zone)"
        using z ok assms(4) by auto
      from fetch_settled [OF f this x] show ?thesis by (auto simp: ctx_of_def)
    next
      case False
      with True k r assms(1) have "rc = HANDLER_DECLINED" "st' = st1\<lparr>st_zone := z, st_ctx := Some (ctx\<lparr>cx_directory_done := True\<rparr>)\<rparr>"
        by (simp_all add: directory_hit_def Let_def)
      with declined_settled [of ctx "st1\<lparr>st_zone := z\<rparr>" zone env] assms(2,4) z False show ?thesis by auto
    qed
  qed
qed

text \<open>What the handler does with the reply of the shared cache, which left \<open>st\<close> and \<open>ctx\<close> behind.\<close>

lemma lookup_cases:
  assumes "directory_lookup env ctx0 keyid st0 = (rc, st')"
    and "cache_lookup (st_zone st0) (st_pool st0) (cx_directory_host ctx0) (ev_now env) = (out, z, p)"
    and st: "st = st0\<lparr>st_zone := z, st_pool := p\<rparr>" and ctx: "ctx = ctx0\<lparr>cx_directory_generation := lk_generation out\<rparr>"
  obtains (claimed) "lk_rc out = NGX_OK CACHE_CLAIMED" "directory_fetch env ctx st = (rc, st')"
  | (hit) "lk_rc out = NGX_OK CACHE_HIT" "directory_hit env (ctx\<lparr>cx_jwks := lk_jwks out\<rparr>) keyid st = (rc, st')"
  | (stale) "lk_rc out = NGX_OK CACHE_BUSY" "rc = HANDLER_DECLINED"
      "st' = st\<lparr>st_ctx := Some (ctx\<lparr>cx_jwks := lk_jwks out, cx_directory_done := True\<rparr>)\<rparr>"
  | (failed) reason where "lk_rc out \<noteq> NGX_OK CACHE_CLAIMED" "directory_fail_open ctx reason st = (rc, st')"
proof -
  note run = assms(1) [unfolded directory_lookup_def assms(2) Let_def prod.case, folded st ctx]
  show thesis
  proof (cases "\<exists>status. lk_rc out = NGX_OK status")
    case False
    then have "directory_fail_open ctx FETCH_FAILED st = (rc, st')" using run by (cases "lk_rc out") simp_all
    with False failed show thesis by blast
  next
    case True
    then obtain status where ok: "lk_rc out = NGX_OK status" by blast
    note run' = run [unfolded ok rc.case]
    show thesis
    proof (cases status)
      case CACHE_BUSY
      with run' ok stale failed show thesis by (cases "lk_jwks out = []") auto
    next
      case CACHE_HIT
      with run' ok hit show thesis by simp
    next
      case CACHE_CLAIMED
      with run' ok claimed show thesis by simp
    next
      case CACHE_NEGATIVE
      with run' ok failed show thesis by simp
    next
      case CACHE_UNAVAILABLE
      with run' ok failed show thesis by simp
    qed
  qed
qed

lemma lookup_settled:
  assumes "directory_lookup env ctx keyid st = (rc, st')" and "\<not> cx_claimed ctx" and "cache_inv (st_zone st)"
  shows "settled env (st_zone st) rc st' \<and> (rc = HANDLER_AGAIN \<longrightarrow> cx_directory_host (ctx_of st') = cx_directory_host ctx)"
proof -
  obtain out z p where l: "cache_lookup (st_zone st) (st_pool st) (cx_directory_host ctx) (ev_now env) = (out, z, p)"
    by (metis prod_cases3)
  note z = cache_lookup_fetched [OF assms(3) l]
  let ?st = "st\<lparr>st_zone := z, st_pool := p\<rparr>" and ?ctx = "ctx\<lparr>cx_directory_generation := lk_generation out\<rparr>"
  have z': "cache_inv (st_zone ?st) \<and> fetched_hosts (st_zone ?st) \<subseteq> fetched_hosts (st_zone st)" if "lk_rc out \<noteq> NGX_OK CACHE_CLAIMED"
    using z that by simp
  have c: "\<not> cx_claimed ?ctx" "\<not> cx_claimed (?ctx\<lparr>cx_jwks := lk_jwks out\<rparr>)" using assms(2) by simp_all
  from assms(1) l refl refl show ?thesis
  proof (cases rule: lookup_cases)
    case claimed
    with z obtain x where x: "held (cx_directory_host ?ctx) (ev_now env) x (zone_of (st_zone ?st))" by auto
    have "cache_inv (st_zone ?st)" "fetched_hosts (st_zone ?st) \<subseteq> insert (cx_directory_host ?ctx) (fetched_hosts (st_zone st))"
      using z claimed by auto
    from fetch_settled [OF claimed(2) this x] show ?thesis by (auto simp: ctx_of_def)
  next
    case hit
    with hit_settled [OF hit(2) c(2), of "st_zone st"] z' show ?thesis by simp
  next
    case stale
    with z' have "cache_inv (st_zone ?st)" "fetched_hosts (st_zone ?st) \<subseteq> fetched_hosts (st_zone st)" by simp_all
    from declined_settled [OF c(2) this] stale show ?thesis by simp
  next
    case (failed reason)
    with fail_open_settled [OF failed(2) c(1)] z' show ?thesis by blast
  qed
qed

text \<open>The lines of a header, as \<open>collect_header\<close> returns them.\<close>

definition header_lines :: "http_request \<Rightarrow> string \<Rightarrow> bytes list" where
  "header_lines r name = map (strip_ows \<circ> snd) (filter (\<lambda>h. header_is h name) (hr_headers r))"

lemma collect_header_OK:
  "collect_header hs name p = (NGX_OK xs, q) \<Longrightarrow> xs = map (strip_ows \<circ> snd) (filter (\<lambda>h. header_is h name) hs)"
proof -
  have "collect_header_loop hs name arr p = (NGX_OK xs, q) \<Longrightarrow>
      xs = arr @ map (strip_ows \<circ> snd) (filter (\<lambda>h. header_is h name) hs)" for hs arr p
    by (induction hs arbitrary: arr p) (fastforce simp: bnd_eq_OK split: if_splits)+
  then show "collect_header hs name p = (NGX_OK xs, q) \<Longrightarrow> ?thesis" by (auto simp: collect_header_def bnd_eq_OK)
qed

text \<open>A host that the Signature-Agent lines of the request name, for the label selected in its Signature-Input.\<close>

definition named_host :: "('json, 'jwks, 'w) env \<Rightarrow> bytes \<Rightarrow> bool" where
  "named_host env h \<longleftrightarrow> (\<exists>label keyid p q s.
     fst (select_label (lc_profile_def (ev_lcf env)) (header_lines (ev_request env) ''signature-input'') s) = NGX_OK (label, keyid) \<and>
     fst (normalize_host (fst (agent_authority (header_lines (ev_request env) ''signature-agent'') label p)) q) = Inr h)"

text \<open>The ways out of \<open>directory_start\<close>.\<close>

abbreviation carried :: "httpsig_ctx \<Rightarrow> ('jwks, 'w) state \<Rightarrow> ('jwks, 'w) state \<Rightarrow> bool" where
  "carried ctx st s \<equiv> st_zone s = st_zone st \<and> st_local_keys s = st_local_keys st \<and> st_ctx s = Some ctx"

lemma start_cases:
  assumes "directory_start env ctx st = (rc, st')"
  obtains (failed) "carried ctx st st'" "rc = HANDLER_ERROR"
  | (ineligible) s where "carried ctx st s" "rc = HANDLER_DECLINED" "st' = s\<lparr>st_ctx := Some (ctx\<lparr>cx_directory_done := True\<rparr>)\<rparr>"
  | (not_allowed) s where "carried ctx st s" "directory_fail_open ctx FETCH_NOT_ALLOWED s = (rc, st')"
  | (lookup) s h keyid where "carried ctx st s" "named_host env h" "directory_allowed (dc_allow (lc_directory (ev_lcf env))) h"
      "directory_lookup env (ctx\<lparr>cx_directory_host := h\<rparr>) keyid s = (rc, st')"
proof -
  let ?hs = "hr_headers (ev_request env)" and ?st0 = "st\<lparr>st_ctx := Some ctx\<rparr>"
  obtain ri st1 where i: "on_st_pool (collect_header ?hs ''signature-input'') ?st0 = (ri, st1)" by fastforce
  obtain ra st2 where a: "on_st_pool (collect_header ?hs ''signature-agent'') st1 = (ra, st2)" by fastforce
  have c1: "carried ctx st st1" using i by (auto dest!: on_st_pool_frame)
  then have c2: "carried ctx st st2" using a by (auto dest!: on_st_pool_frame)
  show thesis
  proof (cases "\<exists>sig_input sig_agent. ri = NGX_OK sig_input \<and> ra = NGX_OK sig_agent")
    case False
    then have "rc = HANDLER_ERROR \<and> (st' = st1 \<or> st' = st2)"
      using assms i a by (cases ri; cases ra) (auto simp: directory_start_def Let_def)
    with failed c1 c2 show thesis by blast
  next
    case True
    then obtain sig_input sig_agent where ok: "ri = NGX_OK sig_input" "ra = NGX_OK sig_agent" by blast
    from i a ok have lines: "sig_input = header_lines (ev_request env) ''signature-input''"
      "sig_agent = header_lines (ev_request env) ''signature-agent''"
      by (auto dest!: on_st_pool_frame collect_header_OK simp: header_lines_def)
    obtain rs st3 where s: "on_st_pool (select_label (lc_profile_def (ev_lcf env)) sig_input) st2 = (rs, st3)" by fastforce
    have c3: "carried ctx st st3" using s c2 by (auto dest!: on_st_pool_frame)
    show thesis
    proof (cases "(sig_input = [] \<or> sig_agent = []) \<or> (\<forall>x. rs \<noteq> NGX_OK x)")
      case True
      with assms i a ok s have "rc = HANDLER_DECLINED \<and> (st' = st2\<lparr>st_ctx := Some (ctx\<lparr>cx_directory_done := True\<rparr>)\<rparr> \<or>
          st' = st3\<lparr>st_ctx := Some (ctx\<lparr>cx_directory_done := True\<rparr>)\<rparr>) \<or> rc = HANDLER_ERROR \<and> st' = st3"
        by (cases rs) (auto simp: directory_start_def Let_def split: if_splits)
      with failed ineligible c2 c3 show thesis by blast
    next
      case False
      then obtain label keyid where l: "rs = NGX_OK (label, keyid)" "sig_input \<noteq> []" "sig_agent \<noteq> []" by fastforce
      obtain authority p where au: "agent_authority sig_agent label (st_pool st3) = (authority, p)" by fastforce
      obtain rn q where n: "normalize_host authority p = (rn, q)" by fastforce
      have named: "named_host env h" if "rn = Inr h" for h
      proof -
        obtain s0 where "select_label (lc_profile_def (ev_lcf env)) sig_input (st_pool st2) = (NGX_OK (label, keyid), s0)"
          using s l by (auto dest!: on_st_pool_frame)
        then show ?thesis unfolding named_host_def lines [symmetric] using au n that by (metis fst_conv)
      qed
      have c: "carried ctx st (st3\<lparr>st_pool := pool\<rparr>)" for pool using c3 by simp
      show thesis
        using assms i a ok s l au n not_allowed [OF c] lookup [OF c named]
        by (cases rn) (auto simp: directory_start_def Let_def split: if_splits)
    qed
  qed
qed

lemma start_settled:
  assumes "directory_start env ctx st = (rc, st')" and "\<not> cx_claimed ctx" and "cache_inv (st_zone st)"
  shows "settled env (st_zone st) rc st' \<and>
    (rc = HANDLER_AGAIN \<longrightarrow> named_host env (cx_directory_host (ctx_of st')) \<and>
       directory_allowed (dc_allow (lc_directory (ev_lcf env))) (cx_directory_host (ctx_of st')))"
  using assms(1)
proof (cases rule: start_cases)
  case failed
  with assms(2,3) show ?thesis by (simp add: settled_done ctx_of_def)
next
  case (ineligible s)
  with declined_settled [of ctx s "st_zone st"] assms(2,3) show ?thesis by simp
next
  case (not_allowed s)
  with fail_open_settled(1) [OF not_allowed(2) assms(2), of "st_zone st"] fail_open_settled(2) [OF not_allowed(2) assms(2), of "st_zone st" env]
    assms(3) show ?thesis by simp
next
  case (lookup s h keyid)
  with lookup_settled [OF lookup(4)] assms(2,3) show ?thesis by simp
qed

lemma handler_settled:
  assumes "directory_handler env main st = (rc, st')" and "\<not> cx_claimed (ctx_of st)" and "cache_inv (st_zone st)"
  shows "settled env (st_zone st) rc st' \<and>
    (rc = HANDLER_AGAIN \<longrightarrow> main \<and> lc_mode (ev_lcf env) \<noteq> MODE_OFF \<and> dc_enabled (lc_directory (ev_lcf env)) \<and>
       named_host env (cx_directory_host (ctx_of st')) \<and>
       directory_allowed (dc_allow (lc_directory (ev_lcf env))) (cx_directory_host (ctx_of st')))"
proof (cases "\<not> main \<or> lc_mode (ev_lcf env) = MODE_OFF \<or> \<not> dc_enabled (lc_directory (ev_lcf env))")
  case True
  with assms show ?thesis by (auto simp: directory_handler_def settled_done split: if_splits)
next
  case on: False
  show ?thesis
  proof (cases "st_ctx st")
    case None
    obtain a st1 where al: "st_palloc st = (a, st1)" by fastforce
    then have z: "st_zone st1 = st_zone st" "st_ctx st1 = None" using None by (auto dest!: st_palloc_frame)
    have c: "\<not> cx_claimed ctx_zero" by (simp add: ctx_zero_def)
    show ?thesis
    proof (cases a)
      case True
      with on None al assms(1) have "directory_start env ctx_zero st1 = (rc, st')" by (simp add: directory_handler_def)
      from start_settled [OF this c] z assms(3) on show ?thesis by simp
    next
      case False
      with on None al assms(1) have "rc = HANDLER_ERROR" "st' = st1" by (simp_all add: directory_handler_def)
      with z c assms(3) show ?thesis by (simp add: settled_done ctx_of_def)
    qed
  next
    case (Some ctx)
    with assms(2) have c: "\<not> cx_claimed ctx" by (simp add: ctx_of_def)
    show ?thesis
    proof (cases "cx_directory_done ctx \<or> cx_done ctx")
      case True
      with on Some c assms(1) have "rc = HANDLER_DECLINED \<and> (st' = st \<or> st' = st\<lparr>st_ctx := Some (ctx\<lparr>cx_directory_done := True\<rparr>)\<rparr>)"
        by (auto simp: directory_handler_def split: if_splits)
      with assms(2,3) c show ?thesis by (auto simp: settled_done ctx_of_def)
    next
      case False
      with on Some c assms(1) have "directory_start env ctx st = (rc, st')" by (simp add: directory_handler_def)
      from start_settled [OF this c assms(3)] on show ?thesis by simp
    qed
  qed
qed

section \<open>The end of a fetch\<close>

definition ended :: "bytes \<Rightarrow> cache_ctx \<Rightarrow> ('jwks, 'w) state \<Rightarrow> bool" where
  "ended h zone st \<longleftrightarrow> cache_inv (st_zone st) \<and> \<not> cx_claimed (ctx_of st) \<and> fetched_hosts (st_zone st) \<subseteq> fetched_hosts zone - {h}"

lemma reject_ended:
  "cache_inv (st_zone st) \<Longrightarrow> ended (cx_directory_host ctx) (st_zone st) (directory_reject env ctx reason st)"
  using cache_release_fetched by (fastforce simp: ended_def directory_reject_def Let_def ctx_of_def)

lemma accept_ended:
  assumes "cache_inv (st_zone st)"
  shows "ended (cx_directory_host ctx) (st_zone st) (directory_accept env ctx body cc age st)"
proof -
  obtain a st1 where al: "st_palloc st = (a, st1)" by fastforce
  then have z1: "st_zone st1 = st_zone st" by (auto dest!: st_palloc_frame)
  obtain r st2 where l: "on_st_pool (load_jwks (ev_lib env) body) st1 = (r, st2)" by fastforce
  then have z2: "st_zone st2 = st_zone st" using z1 by (auto dest!: on_st_pool_frame)
  let ?dc = "lc_directory (ev_lcf env)"
  obtain g z where s: "cache_store (st_zone st) (cx_directory_host ctx) body
      (ev_now env + directory_ttl cc age (dc_cache_min_ttl ?dc) (dc_cache_max_ttl ?dc)) (dc_cache_min_ttl ?dc) (ev_now env) = (g, z)"
    by fastforce
  show ?thesis
  proof (cases "a \<and> (\<exists>k. r = NGX_OK k)")
    case True
    with al l s z2 have "directory_accept env ctx body cc age st =
        st2\<lparr>st_zone := z, st_ctx := Some (ctx\<lparr>cx_jwks := body, cx_directory_generation := g, cx_claimed := False, cx_directory_done := True\<rparr>)\<rparr>"
      by (auto simp: directory_accept_def Let_def)
    with cache_store_fetched [OF assms s] show ?thesis by (simp add: ended_def ctx_of_def)
  next
    case False
    then have "directory_accept env ctx body cc age st = directory_reject env ctx FETCH_FAILED st1 \<or>
        directory_accept env ctx body cc age st = directory_reject env ctx FETCH_INVALID st2"
      using al l by (cases a; cases r) (auto simp: directory_accept_def)
    with reject_ended [of st1 ctx env] reject_ended [of st2 ctx env] z1 z2 assms show ?thesis by auto
  qed
qed

lemma done_ended:
  assumes "cache_inv (st_zone st)"
  shows "ended (cx_directory_host ctx) (st_zone st) (directory_done env response ctx st)"
proof (cases response)
  case None
  with reject_ended [OF assms] show ?thesis by (simp add: directory_done_def)
next
  case (Some fr)
  obtain cc st1 where j: "joined_cache_control (fr_cache_control fr) st = (cc, st1)" by fastforce
  then have z: "st_zone st1 = st_zone st" by (auto simp: joined_cache_control_def split: if_splits prod.splits bool.splits dest!: st_palloc_frame)
  show ?thesis
    using reject_ended [of st1 ctx env] accept_ended [of st1 ctx env] z assms Some j
    by (auto simp: directory_done_def split: fetch_reason.split)
qed

lemma cleanup_ended:
  assumes "cache_inv (st_zone st)" and "st_ctx st = Some ctx" and "cx_claimed ctx" and "st_cleanup st = Some cl"
  shows "ended (dcl_host cl) (st_zone st) (run_cleanup env st)"
  using cache_release_fetched [OF assms(1)] assms by (fastforce simp: ended_def run_cleanup_def ctx_of_def)

lemma done_marks: "\<exists>ctx'. st_ctx (directory_done env response ctx st) = Some ctx' \<and> cx_directory_done ctx'"
  by (auto simp: directory_done_def directory_reject_def directory_accept_def Let_def
      split: option.split prod.split bool.split rc.split fetch_reason.split)

text \<open>The demonstration request starts a fetch.\<close>

lemma demo_lines:
  "collect_header (hr_headers demo_http) ''signature-input'' [] = (NGX_OK (header_lines demo_http ''signature-input''), [])"
  "collect_header (hr_headers demo_http) ''signature-agent'' [] = (NGX_OK (header_lines demo_http ''signature-agent''), [])"
  "header_lines demo_http ''signature-input'' \<noteq> []" "header_lines demo_http ''signature-agent'' \<noteq> []"
  by code_simp+

lemma demo_label: "select_label web_bot_auth (header_lines demo_http ''signature-input'') [] = (NGX_OK (''s'', ''k''), [])"
  by code_simp

lemma demo_authority:
  "agent_authority (header_lines demo_http ''signature-agent'') ''s'' [] = (''agent.example'', [])"
  "normalize_host ''agent.example'' [] = (Inr ''agent.example'', [])"
  by code_simp+

lemma demo_claim: "fst (cache_lookup small_zone [] ''agent.example'' 150) = \<lparr>lk_rc = NGX_OK CACHE_CLAIMED, lk_jwks = [], lk_generation = 0\<rparr>"
  "snd (snd (cache_lookup small_zone [] ''agent.example'' 150)) = []"
  by code_simp+

lemma demo_fetch:
  obtains st where "directory_handler demo_env True (demo_state small_store) = (HANDLER_AGAIN, st)"
    "cx_directory_host (ctx_of st) = ''agent.example''" "st_pool st = []" "st_local_keys st = Some kc_empty"
proof -
  obtain z where z: "cache_lookup small_zone [] ''agent.example'' 150 = (\<lparr>lk_rc = NGX_OK CACHE_CLAIMED, lk_jwks = [], lk_generation = 0\<rparr>, z, [])"
    using demo_claim by (metis prod.collapse)
  obtain rc st where h: "directory_handler demo_env True (demo_state small_store) = (rc, st)" by fastforce
  have "rc = HANDLER_AGAIN \<and> cx_directory_host (ctx_of st) = ''agent.example'' \<and> st_pool st = [] \<and> st_local_keys st = Some kc_empty"
    using h demo_lines z
    by (auto simp: directory_handler_def demo_conf_def demo_state_def st_palloc_def directory_start_def Let_def on_st_pool_def
        demo_label demo_authority directory_allowed_def directory_lookup_def directory_fetch_def demo_env_def ctx_of_def)
  with h that show ?thesis by blast
qed

lemma demo_fresh: "\<not> cx_claimed (ctx_of (demo_state zone))" "cache_inv (st_zone (demo_state zone))"
  using cache_init(1) [OF small_zone_init] by (simp_all add: ctx_of_def demo_state_def ctx_zero_def)

section \<open>Properties\<close>

text \<open>C33: A fetch goes only where the configuration allows.  The handler starts a fetch only for a main request, with
  the directory enabled, and for a host that is, byte for byte, an entry of the allow list, and that the
  Signature-Agent of this request names for the label selected in its Signature-Input; the worker then
  holds the fetch right of that host.\<close>

theorem fetch_only_allowed:
  assumes "directory_handler env main st = (HANDLER_AGAIN, st')" and "\<not> cx_claimed (ctx_of st)" and "cache_inv (st_zone st)"
  shows "main \<and> lc_mode (ev_lcf env) \<noteq> MODE_OFF \<and> dc_enabled (lc_directory (ev_lcf env)) \<and>
    (\<exists>ctx n. st_ctx st' = Some ctx \<and> cx_claimed ctx \<and>
       cx_directory_host ctx \<in> set (dc_allow (lc_directory (ev_lcf env))) \<and> named_host env (cx_directory_host ctx) \<and>
       cache_map (st_zone st') (cx_directory_host ctx) = Some n \<and> cn_fetching n \<and> cn_fetching_since n = ev_now env)"
proof -
  from handler_settled [OF assms] obtain ctx cl x where s: "main" "lc_mode (ev_lcf env) \<noteq> MODE_OFF" "dc_enabled (lc_directory (ev_lcf env))"
    "named_host env (cx_directory_host ctx)" "directory_allowed (dc_allow (lc_directory (ev_lcf env))) (cx_directory_host ctx)"
    "st_ctx st' = Some ctx" "cx_claimed ctx" "held (cx_directory_host ctx) (ev_now env) x (zone_of (st_zone st'))"
    unfolding settled_again by (auto simp: ctx_of_def)
  then show ?thesis by (auto simp: directory_allowed_def held_def zone_of_def split: if_splits)
qed

theorem fetch_only_allowed_witness:
  "\<exists>st' ctx. directory_handler demo_env True (demo_state small_store) = (HANDLER_AGAIN, st') \<and> st_ctx st' = Some ctx \<and>
     cx_directory_host ctx = ''agent.example'' \<and> ''agent.example'' \<in> set (dc_allow (lc_directory demo_conf))"
proof -
  obtain st' where h: "directory_handler demo_env True (demo_state small_store) = (HANDLER_AGAIN, st')"
    "cx_directory_host (ctx_of st') = ''agent.example''"
    by (rule demo_fetch)
  from fetch_only_allowed [OF h(1) demo_fresh] h(2) have "\<exists>ctx. st_ctx st' = Some ctx \<and> cx_directory_host ctx = ''agent.example'' \<and>
      cx_directory_host ctx \<in> set (dc_allow (lc_directory demo_conf))"
    by (auto simp: ctx_of_def)
  with h(1) show ?thesis by auto
qed

text \<open>C35: A fetch right always comes back.  A call of the handler that does not wait for a fetch leaves no host
  marked as being fetched that was not before.  When it does wait, then whatever other workers do in the
  meantime, both the completion of the subrequest, with any response and any allocation failing, and the
  backstop for a request that ends early leave the host released and the request without the right.\<close>

theorem fetch_right_returned:
  assumes "directory_handler env main st = (rc, st1)" and "\<not> cx_claimed (ctx_of st)" and "cache_inv (st_zone st)"
    and "cache_run es (st_zone st1) = (rs, zone)" and "st2 = st1\<lparr>st_zone := zone, st_pool := pool\<rparr>"
  shows "if rc \<noteq> HANDLER_AGAIN then fetched_hosts (st_zone st1) \<subseteq> fetched_hosts (st_zone st)
    else ended (cx_directory_host (ctx_of st1)) zone (directory_done env' response (ctx_of st1) st2) \<and>
         ended (cx_directory_host (ctx_of st1)) zone (run_cleanup env' st2)"
proof (cases "rc = HANDLER_AGAIN")
  case False
  with handler_settled [OF assms(1-3)] show ?thesis by (simp add: settled_done)
next
  case True
  from handler_settled [OF assms(1-3)] have "settled env (st_zone st) HANDLER_AGAIN st1" unfolding True by simp
  then obtain ctx cl where c: "st_ctx st1 = Some ctx" "cx_claimed ctx" "st_cleanup st1 = Some cl"
    "dcl_host cl = cx_directory_host ctx" "cache_inv (st_zone st1)"
    unfolding settled_again by auto
  have z: "cache_inv (st_zone st2)" "st_zone st2 = zone"
    using cache_zone.run_inv [OF c(5), of es rs zone] assms(4,5) by (simp_all add: cache_run_eq)
  from c assms(5) have "ended (dcl_host cl) (st_zone st2) (run_cleanup env' st2)"
    by (intro cleanup_ended [OF z(1)]) simp_all
  with done_ended [OF z(1), of "ctx_of st1" env' response] c z(2) True show ?thesis by (simp add: ctx_of_def)
qed

theorem fetch_right_returned_witness:
  "\<exists>st1. directory_handler demo_env True (demo_state small_store) = (HANDLER_AGAIN, st1) \<and>
     ended ''agent.example'' (st_zone st1) (directory_done demo_env None (ctx_of st1) (st1\<lparr>st_pool := [False]\<rparr>))"
proof -
  obtain st1 where h: "directory_handler demo_env True (demo_state small_store) = (HANDLER_AGAIN, st1)"
    "cx_directory_host (ctx_of st1) = ''agent.example''"
    by (rule demo_fetch)
  have "cache_run [] (st_zone st1) = ([], st_zone st1)" "st1\<lparr>st_pool := [False]\<rparr> = st1\<lparr>st_zone := st_zone st1, st_pool := [False]\<rparr>"
    by simp_all
  from fetch_right_returned [OF h(1) demo_fresh this, of demo_env None] h show ?thesis by auto
qed

section \<open>How often a request waits\<close>

text \<open>
  What can happen to a request while the module knows it: its preaccess phase runs, in the location and at the
  time of an environment; the subrequest it waits for completes; its access handler or a variable evaluates it; an
  internal redirect zeroes its contexts; or other requests and workers change everything but its context.
\<close>

datatype ('json, 'jwks, 'w) occurrence =
    Preaccess "('json, 'jwks, 'w) env" bool
  | Completion "('json, 'jwks, 'w) env" "fetch_response option"
  | Evaluation "('json, 'jwks, 'w) env"
  | is_redirect: Redirected
  | Elsewhere "('jwks, 'w) state"

text \<open>The flag tells that a fetch is started: the handler answers \<open>NGX_AGAIN\<close> for a context that held no fetch right.\<close>

fun occur :: "('json, 'jwks, 'w) occurrence \<Rightarrow> ('jwks, 'w) state \<Rightarrow> bool \<times> ('jwks, 'w) state" where
  "occur (Preaccess env main) st =
     (case directory_handler env main st of (rc, st') \<Rightarrow> (rc = HANDLER_AGAIN \<and> \<not> cx_claimed (ctx_of st), st'))"
| "occur (Completion env response) st = (False, if cx_claimed (ctx_of st) then directory_done env response (ctx_of st) st else st)"
| "occur (Evaluation env) st = (False, snd (snd (evaluate env st)))"
| "occur Redirected st = (False, st\<lparr>st_ctx := None\<rparr>)"
| "occur (Elsewhere st') st = (False, st'\<lparr>st_ctx := st_ctx st\<rparr>)"

fun fetches_started :: "('json, 'jwks, 'w) occurrence list \<Rightarrow> ('jwks, 'w) state \<Rightarrow> nat" where
  "fetches_started [] st = 0"
| "fetches_started (e # es) st = (case occur e st of (new, st') \<Rightarrow> of_bool new + fetches_started es st')"

text \<open>The fetches a context still allows: none once it holds a right or is done.\<close>

definition fetches_left :: "('jwks, 'w) state \<Rightarrow> nat" where
  "fetches_left st = of_bool (\<not> cx_claimed (ctx_of st) \<and> \<not> cx_directory_done (ctx_of st))"

abbreviation fetch_flags :: "httpsig_ctx \<Rightarrow> bool \<times> bool" where
  "fetch_flags ctx \<equiv> (cx_claimed ctx, cx_directory_done ctx)"

lemma verify_request_flags: "verify_request env ctx req st = (rc, sig, ctx', st') \<Longrightarrow> fetch_flags ctx' = fetch_flags ctx"
  by (auto simp: verify_request_def Let_def split: prod.splits if_splits)

lemma check_nonce_flags: "check_nonce env ctx sig now st = (result, ctx', st') \<Longrightarrow> fetch_flags ctx' = fetch_flags ctx"
  by (auto simp: check_nonce_def split: prod.splits if_splits option.splits bool.splits)

lemma judge_request_flags: "judge_request env ctx req st = (ctx', st') \<Longrightarrow> fetch_flags ctx' = fetch_flags ctx"
  by (auto simp: judge_request_def split: prod.splits rc.splits if_splits dest!: verify_request_flags check_nonce_flags)

lemma evaluate_new_flags: "evaluate_new env ctx st = (ctx', st') \<Longrightarrow> fetch_flags ctx' = fetch_flags ctx"
  by (auto simp: evaluate_new_def Let_def split: prod.splits rc.splits if_splits dest!: judge_request_flags)

lemma evaluate_flags:
  "cx_claimed (ctx_of (snd (snd (evaluate env st)))) = cx_claimed (ctx_of st) \<and>
   cx_directory_done (ctx_of (snd (snd (evaluate env st)))) = cx_directory_done (ctx_of st)"
  by (rule evaluate_cases [of env st]) (auto simp: ctx_of_def dest!: evaluate_new_flags split: option.splits)

lemma handler_starts:
  assumes "directory_handler env main st = (HANDLER_AGAIN, st')" and "\<not> cx_claimed (ctx_of st)"
  shows "\<not> cx_directory_done (ctx_of st) \<and> cx_claimed (ctx_of st')"
proof -
  have fetch: "cx_claimed (ctx_of s')" if "directory_fetch env ctx s = (HANDLER_AGAIN, s')" for ctx s s'
    using that by (auto simp: directory_fetch_def directory_fail_open_release_def directory_fail_open_def Let_def ctx_of_def
        split: prod.splits bool.splits if_splits)
  have lookup: "cx_claimed (ctx_of s')" if "directory_lookup env ctx k s = (HANDLER_AGAIN, s')" for ctx k s s'
    using that by (auto simp: directory_lookup_def directory_hit_def directory_fail_open_def Let_def
        split: prod.splits rc.splits cache_status.splits if_splits bool.splits dest!: fetch)
  have start: "cx_claimed (ctx_of s')" if "directory_start env ctx s = (HANDLER_AGAIN, s')" for ctx s s'
    using that by (cases rule: start_cases) (auto simp: directory_fail_open_def Let_def dest!: lookup)
  show ?thesis
    using assms by (auto simp: directory_handler_def ctx_of_def ctx_zero_def dest!: start
        split: if_splits option.splits prod.splits bool.splits)
qed

lemma handler_settled_flags:
  "cx_claimed (ctx_of st) \<or> cx_directory_done (ctx_of st) \<Longrightarrow> snd (directory_handler env main st) = st"
  by (auto simp: directory_handler_def ctx_of_def ctx_zero_def split: option.splits)

lemma occur_fetches_left:
  assumes "occur e st = (new, st')"
  shows "of_bool new + fetches_left st' \<le> fetches_left st + of_bool (is_redirect e)"
proof (cases e)
  case (Preaccess env main)
  obtain rc st1 where h: "directory_handler env main st = (rc, st1)" by fastforce
  with assms Preaccess have o: "new = (rc = HANDLER_AGAIN \<and> \<not> cx_claimed (ctx_of st))" "st' = st1" by auto
  show ?thesis
  proof (cases new)
    case True
    with o h handler_starts [of env main st st1] show ?thesis by (simp add: fetches_left_def)
  next
    case False
    with o h handler_settled_flags [of st env main] show ?thesis by (auto simp: fetches_left_def)
  qed
next
  case (Completion env response)
  with assms done_marks [of env response "ctx_of st" st] show ?thesis
    by (auto simp: fetches_left_def ctx_of_def split: if_splits option.splits)
next
  case (Evaluation env)
  with assms evaluate_flags [of env st] show ?thesis by (auto simp: fetches_left_def)
qed (use assms in \<open>auto simp: fetches_left_def ctx_of_def\<close>)

lemma fetches_started_le:
  "fetches_started es st \<le> fetches_left st + length (filter is_redirect es)"
proof (induction es arbitrary: st)
  case (Cons e es)
  obtain new st' where o: "occur e st = (new, st')" by fastforce
  from occur_fetches_left [OF o] Cons.IH [of st'] o show ?case by (auto split: if_splits)
qed simp

text \<open>C34: How often a request waits.  Over everything that can happen to a request, its preaccess phase running in any
  location, fetches completing with any response, evaluations, internal redirects and whatever other
  workers do in between, the handler starts at most one fetch per context: one more than the internal
  redirects that zeroed it, and none before the first redirect when the context already holds a
  fetch right or is done.  And once a fetch has completed, with whatever response, a later call of the handler
  lets the request go on and changes nothing.\<close>

theorem fetch_waits_bounded:
  "fetches_started es st \<le> length (filter is_redirect es) +
     (if cx_claimed (ctx_of st) \<or> cx_directory_done (ctx_of st) then 0 else 1) \<and>
   directory_handler env main (directory_done env' response ctx st') = (HANDLER_DECLINED, directory_done env' response ctx st')"
proof
  show "fetches_started es st \<le> length (filter is_redirect es) +
      (if cx_claimed (ctx_of st) \<or> cx_directory_done (ctx_of st) then 0 else 1)"
    using fetches_started_le [of es st] by (auto simp: fetches_left_def)
  show "directory_handler env main (directory_done env' response ctx st') = (HANDLER_DECLINED, directory_done env' response ctx st')"
    using done_marks [of env' response ctx st'] by (auto simp: directory_handler_def)
qed

text \<open>The bound is reached: after an internal redirect the same request waits a second time.\<close>

lemma fetch_waits_twice:
  "fetches_started [Preaccess demo_env True, Completion demo_env None, Redirected, Elsewhere (demo_state small_store),
     Preaccess demo_env True] (demo_state small_store) = 2"
proof -
  obtain st1 where h: "directory_handler demo_env True (demo_state small_store) = (HANDLER_AGAIN, st1)" by (rule demo_fetch)
  from handler_starts [OF h demo_fresh(1)] have c: "cx_claimed (ctx_of st1)" by simp
  have n: "(demo_state small_store)\<lparr>st_ctx := None\<rparr> = demo_state small_store" by (simp add: demo_state_def)
  with h c demo_fresh(1) show ?thesis by simp
qed

end
