(* ===== verification/Worker.thy ===== *)
theory Worker
  imports Fetch_Props Keys_Cache_Props
begin

text \<open>
  The two caches and the requests of a worker together: whatever other workers do to the shared cache, and in
  whatever order the requests of this one run, a request is verified with the keys of a document that was
  received for its own host.
\<close>

section \<open>What each part remembers\<close>

text \<open>
  \<open>docs\<close> are the documents received, with the host each was fetched from; \<open>log\<close> is the sequence of those that the
  shared cache stored, which the generation numbers count.
\<close>

definition doc_traced :: "(bytes \<times> bytes) set \<Rightarrow> (bytes \<times> bytes) list \<Rightarrow> httpsig_ctx \<Rightarrow> bool" where
  "doc_traced docs log ctx \<longleftrightarrow>
     (cx_jwks ctx \<noteq> [] \<longrightarrow> (cx_directory_host ctx, cx_jwks ctx) \<in> docs \<and>
        (cx_directory_generation ctx \<noteq> 0 \<longrightarrow> cx_directory_generation ctx \<le> length log \<and>
           log ! (cx_directory_generation ctx - 1) = (cx_directory_host ctx, cx_jwks ctx)))"

definition ctx_traced :: "(bytes \<times> bytes) set \<Rightarrow> (bytes \<times> bytes) list \<Rightarrow> httpsig_ctx \<Rightarrow> bool" where
  "ctx_traced docs log ctx \<longleftrightarrow>
     doc_traced docs log ctx \<and> (\<not> cx_directory_done ctx \<and> \<not> cx_claimed ctx \<longrightarrow> cx_jwks ctx = [])"

lemma doc_traced_updates [simp]:
  "doc_traced docs log (ctx\<lparr>cx_claimed := b\<rparr>) = doc_traced docs log ctx"
  "doc_traced docs log (ctx\<lparr>cx_directory_done := b\<rparr>) = doc_traced docs log ctx"
  "doc_traced docs log (ctx\<lparr>cx_keys_unavailable := b\<rparr>) = doc_traced docs log ctx"
  "doc_traced docs log (ctx\<lparr>cx_directory_reason := r\<rparr>) = doc_traced docs log ctx"
  by (simp_all add: doc_traced_def)

definition slot_traced :: "('json, 'jwks) jwx \<Rightarrow> (bytes \<times> bytes) list \<Rightarrow> 'jwks kc_slot \<Rightarrow> bool" where
  "slot_traced lib log s \<longleftrightarrow> 0 < sl_generation s \<and> sl_generation s \<le> length log \<and>
     (\<exists>doc p. log ! (sl_generation s - 1) = (sl_host s, doc) \<and> fst (load_jwks lib doc p) = NGX_OK (sl_keys s))"

definition local_traced :: "('json, 'jwks) jwx \<Rightarrow> (bytes \<times> bytes) list \<Rightarrow> 'jwks keys_cache option \<Rightarrow> bool" where
  "local_traced lib log local \<longleftrightarrow> (\<forall>kc. local = Some kc \<longrightarrow>
     length (kc_slots kc) = MAX_KEYS_CACHE_ENTRIES \<and> (\<forall>s. Some s \<in> set (kc_slots kc) \<longrightarrow> slot_traced lib log s))"

definition zone_traced :: "(bytes \<times> bytes) set \<Rightarrow> (bytes \<times> bytes) list \<Rightarrow> cache_ctx \<Rightarrow> bool" where
  "zone_traced docs log z \<longleftrightarrow> cache_inv z \<and> zone_logged log (zone_of z) \<and> set log \<subseteq> docs"

definition traced :: "('json, 'jwks) jwx \<Rightarrow> (bytes \<times> bytes) set \<Rightarrow> (bytes \<times> bytes) list \<Rightarrow> ('jwks, 'w) state \<Rightarrow> bool" where
  "traced lib docs log st \<longleftrightarrow> zone_traced docs log (st_zone st) \<and> local_traced lib log (st_local_keys st) \<and>
     (\<forall>ctx. st_ctx st = Some ctx \<longrightarrow> ctx_traced docs log ctx)"

lemma traced_simps [simp]:
  "traced lib docs log (st\<lparr>st_pool := p\<rparr>) = traced lib docs log st"
  "traced lib docs log (st\<lparr>st_cleanup := c\<rparr>) = traced lib docs log st"
  by (simp_all add: traced_def)

text \<open>More documents, and more of them stored, disturb nothing.\<close>

lemma nth_longer: "n \<le> length xs \<Longrightarrow> 0 < n \<Longrightarrow> (xs @ ys) ! (n - 1) = xs ! (n - 1)"
  by (simp add: nth_append) linarith

lemma doc_traced_mono:
  assumes "doc_traced docs log ctx" and "docs \<subseteq> docs'"
  shows "doc_traced docs' (log @ tail) ctx"
proof (cases "cx_jwks ctx = [] \<or> cx_directory_generation ctx = 0")
  case True
  with assms show ?thesis by (auto simp: doc_traced_def)
next
  case False
  with assms show ?thesis
    using nth_longer [of "cx_directory_generation ctx" log tail] by (auto simp: doc_traced_def)
qed

lemma ctx_traced_mono: "ctx_traced docs log ctx \<Longrightarrow> docs \<subseteq> docs' \<Longrightarrow> ctx_traced docs' (log @ tail) ctx"
  by (auto simp: ctx_traced_def intro: doc_traced_mono)

lemma slot_traced_mono: "slot_traced lib log s \<Longrightarrow> slot_traced lib (log @ tail) s"
  using nth_longer [of "sl_generation s" log tail] by (auto simp: slot_traced_def)

lemma local_traced_mono: "local_traced lib log local \<Longrightarrow> local_traced lib (log @ tail) local"
  by (simp add: local_traced_def slot_traced_mono)

lemma ctx_traced_zero: "ctx_traced docs log ctx_zero"
  by (simp add: ctx_traced_def doc_traced_def ctx_zero_def)

section \<open>The worker's cache\<close>

lemma local_tracedI:
  "length slots = MAX_KEYS_CACHE_ENTRIES \<Longrightarrow> (\<And>s. Some s \<in> set slots \<Longrightarrow> slot_traced lib log s) \<Longrightarrow>
   local_traced lib log (Some \<lparr>kc_slots = slots, kc_clock = c\<rparr>)"
  by (simp add: local_traced_def)

lemma slot_update: "Some s \<in> set (slots[i := v]) \<Longrightarrow> Some s \<in> set slots \<or> v = Some s"
  using set_update_subset_insert [of slots i v] by auto

lemma kc_get_traced:
  assumes "kc_get kc host g = (k, kc')" and "local_traced lib log (Some kc)"
  shows "local_traced lib log (Some kc')"
    and "k = Some keys \<Longrightarrow> g \<le> length log \<Longrightarrow> log ! (g - 1) = (host, doc) \<Longrightarrow> \<exists>p. fst (load_jwks lib doc p) = NGX_OK keys"
proof -
  have len: "length (kc_slots kc) = MAX_KEYS_CACHE_ENTRIES" and tr: "Some s \<in> set (kc_slots kc) \<Longrightarrow> slot_traced lib log s" for s
    using assms(2) by (simp_all add: local_traced_def)
  have hit: "\<exists>s i. k = Some (sl_keys s) \<and> Some s \<in> set (kc_slots kc) \<and> sl_host s = host \<and> sl_generation s = g \<and>
      kc' = \<lparr>kc_slots = (kc_slots kc)[i := Some (s\<lparr>sl_touched := kc_clock kc + 1\<rparr>)], kc_clock = kc_clock kc + 1\<rparr>" if "k \<noteq> None"
  proof -
    from that assms(1) obtain i where i: "kc_find kc host = Some i" "g \<noteq> 0"
      by (auto simp: kc_get_def split: if_splits option.splits)
    from kc_find_Some [OF len i(1)] obtain s where s: "i < length (kc_slots kc)" "kc_slots kc ! i = Some s" "sl_host s = host" by blast
    from s(1,2) have "Some s \<in> set (kc_slots kc)" by (metis nth_mem)
    with that assms(1) i s(2,3) show ?thesis by (auto simp: kc_get_def Let_def split: if_splits)
  qed
  show "local_traced lib log (Some kc')"
  proof (cases "k = None")
    case True
    with assms show ?thesis by (auto simp: kc_get_def Let_def split: if_splits option.splits)
  next
    case False
    then obtain s i where s: "Some s \<in> set (kc_slots kc)"
      "kc' = \<lparr>kc_slots = (kc_slots kc)[i := Some (s\<lparr>sl_touched := kc_clock kc + 1\<rparr>)], kc_clock = kc_clock kc + 1\<rparr>" using hit by blast
    have "slot_traced lib log (s\<lparr>sl_touched := kc_clock kc + 1\<rparr>)" using tr [OF s(1)] by (simp add: slot_traced_def)
    with tr len show ?thesis unfolding s(2) by (intro local_tracedI) (auto dest!: slot_update)
  qed
  assume "k = Some keys" "g \<le> length log" "log ! (g - 1) = (host, doc)"
  with hit tr show "\<exists>p. fst (load_jwks lib doc p) = NGX_OK keys" by (fastforce simp: slot_traced_def)
qed

lemma kc_insert_traced:
  assumes "local_traced lib log (Some kc)" and "0 < g" and "g \<le> length log" and "log ! (g - 1) = (host, doc)"
    and "fst (load_jwks lib doc p) = NGX_OK keys"
  shows "local_traced lib log (Some (kc_insert kc host g keys))"
proof -
  obtain i kc1 where s: "slot_for kc host = (i, kc1)" by fastforce
  have kc1: "length (kc_slots kc1) = MAX_KEYS_CACHE_ENTRIES \<and> (\<forall>s. Some s \<in> set (kc_slots kc1) \<longrightarrow> Some s \<in> set (kc_slots kc))"
    using s assms(1) by (auto simp: slot_for_def kc_evict_def local_traced_def split: option.splits if_splits dest!: slot_update)
  have "slot_traced lib log \<lparr>sl_host = host, sl_generation = g, sl_keys = keys, sl_touched = t\<rparr>" for t
    using assms(2-5) by (auto simp: slot_traced_def)
  with kc1 assms(1) show ?thesis
    unfolding kc_insert_def s prod.case Let_def
    by (intro local_tracedI) (auto simp: local_traced_def dest!: slot_update)
qed

lemma resolve_keys_traced:
  assumes "resolve_keys env ctx st = (k, st')" and "local_traced (ev_lib env) log (st_local_keys st)" and "doc_traced docs log ctx"
  shows "local_traced (ev_lib env) log (st_local_keys st')"
    and "k = Some keys \<Longrightarrow> cx_jwks ctx \<noteq> [] \<and> (\<exists>p. fst (load_jwks (ev_lib env) (cx_jwks ctx) p) = NGX_OK keys)"
proof -
  have direct: "st_local_keys s' = st_local_keys s \<and> (\<forall>keys. k = Some keys \<longrightarrow> (\<exists>p. fst (load_jwks (ev_lib env) (cx_jwks ctx) p) = NGX_OK keys))"
    if "resolve_direct env ctx s = (k, s')" for s s'
    using that by (auto simp: resolve_direct_def split: prod.splits rc.splits dest!: on_st_pool_frame) (metis fst_conv)
  have "local_traced (ev_lib env) log (st_local_keys st') \<and>
    (\<forall>keys. k = Some keys \<longrightarrow> cx_jwks ctx \<noteq> [] \<and> (\<exists>p. fst (load_jwks (ev_lib env) (cx_jwks ctx) p) = NGX_OK keys))"
  proof (cases "cx_jwks ctx = [] \<or> st_local_keys st = None \<or> cx_directory_generation ctx = 0")
    case True
    with assms(1,2) show ?thesis by (auto simp: resolve_keys_def split: if_splits option.splits dest!: direct)
  next
    case False
    then obtain kc where kc: "st_local_keys st = Some kc" "cx_jwks ctx \<noteq> []" "cx_directory_generation ctx \<noteq> 0" by auto
    let ?h = "cx_directory_host ctx" and ?g = "cx_directory_generation ctx"
    from assms(3) kc have g: "?g \<le> length log" "log ! (?g - 1) = (?h, cx_jwks ctx)" "0 < ?g" by (simp_all add: doc_traced_def)
    from assms(2) kc have l: "local_traced (ev_lib env) log (Some kc)" by simp
    obtain r kc1 where get: "kc_get kc ?h ?g = (r, kc1)" by fastforce
    note l1 = kc_get_traced(1) [OF get l]
    show ?thesis
    proof (cases r)
      case (Some keys)
      with kc_get_traced(2) [OF get l Some g(1,2)] get kc l1 assms(1) show ?thesis by (auto simp: resolve_keys_def)
    next
      case None
      obtain rp kc2 p where put: "kc_put (ev_lib env) kc1 ?h (cx_jwks ctx) ?g (st_pool st) = (rp, kc2, p)" by (metis prod_cases3)
      have l2: "local_traced (ev_lib env) log (Some kc2) \<and> (\<forall>keys. rp = NGX_OK keys \<longrightarrow> (\<exists>p. fst (load_jwks (ev_lib env) (cx_jwks ctx) p) = NGX_OK keys))"
        using put l1 kc_insert_traced [OF l1 g(3,1,2)]
        by (auto simp: kc_put_def split: if_splits prod.splits bool.splits rc.splits) (metis fst_conv)+
      show ?thesis
      proof (cases "\<exists>keys. rp = NGX_OK keys")
        case True
        with None get put kc l2 assms(1) show ?thesis by (auto simp: resolve_keys_def)
      next
        case False
        with None get put kc assms(1) have "resolve_direct env ctx (st\<lparr>st_local_keys := Some kc2, st_pool := p\<rparr>) = (k, st')"
          by (cases rp) (auto simp: resolve_keys_def)
        with direct [OF this] l2 kc(2) show ?thesis by auto
      qed
    qed
  qed
  then show "local_traced (ev_lib env) log (st_local_keys st')"
    and "k = Some keys \<Longrightarrow> cx_jwks ctx \<noteq> [] \<and> (\<exists>p. fst (load_jwks (ev_lib env) (cx_jwks ctx) p) = NGX_OK keys)" by blast+
qed

section \<open>The operations of a request\<close>

text \<open>The operations on the shared cache that store nothing.\<close>

lemma zone_traced_step:
  assumes "zone_traced docs log z" and "cache_step e z = (r, z')"
  shows "zone_traced (docs \<union> set (logged e r)) (log @ logged e r) z'"
  using step_refines [of z e r z'] zone_logged_step [of "zone_of z" e r "zone_of z'" log] assms unfolding zone_traced_def by auto

lemma zone_traced_ops:
  assumes "zone_traced docs log z"
  shows "zone_traced docs log (cache_release z h t)"
    and "cache_claim_rotation_refetch z h now ttl = (ok, z') \<Longrightarrow> zone_traced docs log z'"
    and "cache_lookup z pool h now = (out, z', pool') \<Longrightarrow> zone_traced docs log z'"
    and "cache_lookup z pool h now = (out, z', pool') \<Longrightarrow> lk_generation out = 0 \<and> lk_jwks out = [] \<or>
      0 < lk_generation out \<and> lk_generation out \<le> length log \<and> log ! (lk_generation out - 1) = (h, lk_jwks out)"
proof -
  show "zone_traced docs log (cache_release z h t)"
    using zone_traced_step [OF assms, of "Release_for h t" Released] by simp
  show "zone_traced docs log z'" if "cache_claim_rotation_refetch z h now ttl = (ok, z')"
    using zone_traced_step [OF assms, of "Claim_rotation h now ttl" "Claimed_rotation ok" z'] that by simp
  show "zone_traced docs log z'" if "cache_lookup z pool h now = (out, z', pool')"
    using zone_traced_step [OF assms, of "Lookup_for pool h now" "Looked out" z'] that by simp
  show "lk_generation out = 0 \<and> lk_jwks out = [] \<or>
      0 < lk_generation out \<and> lk_generation out \<le> length log \<and> log ! (lk_generation out - 1) = (h, lk_jwks out)"
    if "cache_lookup z pool h now = (out, z', pool')"
    using zone_logged_reply [OF conjunct2 [OF lookup_refines [OF _ that]]] assms unfolding zone_traced_def by blast
qed

lemma zone_traced_store:
  assumes "zone_traced docs log z" and "cache_store z h jwks t ttl now = (g, z')"
  shows "\<exists>tail. set tail \<subseteq> {(h, jwks)} \<and> zone_traced (insert (h, jwks) docs) (log @ tail) z' \<and>
    (g \<noteq> 0 \<longrightarrow> g \<le> length (log @ tail) \<and> (log @ tail) ! (g - 1) = (h, jwks))"
proof -
  have e: "cache_step (Store_for h jwks t ttl now) z = (Stored g, z')" using assms(2) by simp
  let ?tail = "if g = 0 then [] else [(h, jwks)]"
  from zone_traced_step [OF assms(1) e] have "zone_traced (insert (h, jwks) docs) (log @ ?tail) z'"
    by (auto simp: zone_traced_def split: if_splits)
  moreover have "g \<noteq> 0 \<Longrightarrow> g = length log + 1"
    using zone_logged_stored [OF conjunct2 [OF store_refines [OF _ assms(2)]]] assms(1) unfolding zone_traced_def by blast
  ultimately show ?thesis by (intro exI [of _ ?tail]) (auto simp: nth_append)
qed

lemma traced_ctxI:
  "zone_traced docs log (st_zone st) \<Longrightarrow> local_traced lib log (st_local_keys st) \<Longrightarrow> ctx_traced docs log ctx \<Longrightarrow>
   traced lib docs log (st\<lparr>st_ctx := Some ctx\<rparr>)"
  by (simp add: traced_def)

lemma ctx_traced_done [simp]: "ctx_traced docs log (ctx\<lparr>cx_directory_done := True\<rparr>) = doc_traced docs log ctx"
  by (simp add: ctx_traced_def doc_traced_def)

lemma fail_open_traced:
  assumes "directory_fail_open ctx reason st = (rc, st')" and "zone_traced docs log (st_zone st)" and "local_traced lib log (st_local_keys st)"
    and "doc_traced docs log ctx"
  shows "traced lib docs log st'"
  using assms by (auto simp: directory_fail_open_def Let_def traced_def ctx_traced_def doc_traced_def)

lemma fetch_traced:
  assumes "directory_fetch env ctx st = (rc, st')" and "zone_traced docs log (st_zone st)" and "local_traced lib log (st_local_keys st)"
    and "doc_traced docs log ctx"
  shows "traced lib docs log st'"
proof -
  let ?ctx = "ctx\<lparr>cx_claimed := True\<rparr>"
  have fail: "traced lib docs log s'" if "directory_fail_open_release env ?ctx t reason s = (rc, s')" "st_zone s = st_zone st"
      "st_local_keys s = st_local_keys st" for s s' t reason
    using that(1) unfolding directory_fail_open_release_def
    by (rule fail_open_traced) (use that(2,3) assms(2-4) zone_traced_ops(1) in \<open>simp_all add: ctx_traced_def\<close>)
  obtain a1 s1 where p1: "st_palloc st = (a1, s1)" by fastforce
  let ?s1 = "s1\<lparr>st_cleanup := Some \<lparr>dcl_host = cx_directory_host ctx, dcl_retry_ttl = dc_cache_min_ttl (lc_directory (ev_lcf env))\<rparr>\<rparr>"
  obtain a2 s2 where p2: "st_palloc ?s1 = (a2, s2)" by fastforce
  obtain a3 s3 where p3: "st_palloc s2 = (a3, s3)" by fastforce
  from p1 p2 p3 have z: "st_zone s1 = st_zone st" "st_local_keys s1 = st_local_keys st" "st_zone s2 = st_zone st" "st_local_keys s2 = st_local_keys st"
      "st_zone s3 = st_zone st" "st_local_keys s3 = st_local_keys st"
    by (auto dest!: st_palloc_frame)
  have "ctx_traced docs log ?ctx" using assms(4) by (simp add: ctx_traced_def doc_traced_def)
  then have "traced lib docs log (s3\<lparr>st_ctx := Some ?ctx\<rparr>)" using z assms(2,3) by (simp add: traced_def)
  with assms(1) p1 p2 p3 z fail show ?thesis
    by (auto simp: directory_fetch_def Let_def split: bool.splits if_splits)
qed

lemma hit_traced:
  assumes "directory_hit env ctx keyid st = (rc, st')" and "zone_traced docs log (st_zone st)" and "local_traced (ev_lib env) log (st_local_keys st)"
    and "doc_traced docs log ctx"
  shows "traced (ev_lib env) docs log st'"
proof -
  obtain keys st1 where k: "resolve_keys env ctx st = (keys, st1)" by fastforce
  note l1 = resolve_keys_traced(1) [OF k assms(3,4)]
  from resolve_keys_frame [OF k] have z1: "st_zone st1 = st_zone st" by (simp add: framed_def)
  obtain ok z where r: "cache_claim_rotation_refetch (st_zone st1) (cx_directory_host ctx) (ev_now env)
      (dc_key_rotation_retry_ttl (lc_directory (ev_lcf env))) = (ok, z)" by fastforce
  from zone_traced_ops(2) [OF _ r] assms(2) z1 have z: "zone_traced docs log z" by simp
  have f: "traced (ev_lib env) docs log st'" if "directory_fetch env ctx (st1\<lparr>st_zone := z\<rparr>) = (rc, st')"
    by (rule fetch_traced [OF that _ _ assms(4)]) (use z l1 in simp_all)
  show ?thesis
    using assms k r z z1 l1 f by (auto simp: directory_hit_def Let_def traced_def split: if_splits bool.splits)
qed

lemma lookup_traced:
  assumes "directory_lookup env ctx keyid st = (rc, st')" and "zone_traced docs log (st_zone st)" and "local_traced (ev_lib env) log (st_local_keys st)"
    and "cx_jwks ctx = []"
  shows "traced (ev_lib env) docs log st'"
proof -
  obtain out z p where l: "cache_lookup (st_zone st) (st_pool st) (cx_directory_host ctx) (ev_now env) = (out, z, p)"
    by (metis prod_cases3)
  note z = zone_traced_ops(3) [OF assms(2) l]
  let ?st = "st\<lparr>st_zone := z, st_pool := p\<rparr>" and ?ctx = "ctx\<lparr>cx_directory_generation := lk_generation out\<rparr>"
  let ?doc = "?ctx\<lparr>cx_jwks := lk_jwks out\<rparr>"
  have sub: "set log \<subseteq> docs" using z by (simp add: zone_traced_def)
  have d: "doc_traced docs log ?ctx" using assms(4) by (simp add: doc_traced_def)
  have d2: "doc_traced docs log ?doc"
  proof (cases "lk_generation out = 0")
    case True
    with zone_traced_ops(4) [OF assms(2) l] show ?thesis by (auto simp: doc_traced_def)
  next
    case False
    with zone_traced_ops(4) [OF assms(2) l] have g: "0 < lk_generation out" "lk_generation out \<le> length log"
      "log ! (lk_generation out - 1) = (cx_directory_host ctx, lk_jwks out)" by auto
    then have "(cx_directory_host ctx, lk_jwks out) \<in> set log" by (metis One_nat_def Suc_pred less_eq_Suc_le nth_mem)
    with sub g show ?thesis by (auto simp: doc_traced_def)
  qed
  from assms(1) l refl refl show ?thesis
  proof (cases rule: lookup_cases)
    case claimed
    show ?thesis by (rule fetch_traced [OF claimed(2)]) (use z assms(3) d in simp_all)
  next
    case hit
    show ?thesis by (rule hit_traced [OF hit(2)]) (use z assms(3) d2 in simp_all)
  next
    case stale
    show ?thesis unfolding stale(3) by (rule traced_ctxI) (use z assms(3) d2 in simp_all)
  next
    case (failed reason)
    show ?thesis by (rule fail_open_traced [OF failed(2)]) (use z assms(3) d in simp_all)
  qed
qed

lemma start_traced:
  assumes "directory_start env ctx st = (rc, st')" and "zone_traced docs log (st_zone st)" and "local_traced (ev_lib env) log (st_local_keys st)"
    and "cx_jwks ctx = []"
  shows "traced (ev_lib env) docs log st'"
proof -
  have d: "doc_traced docs log ctx" "ctx_traced docs log ctx" using assms(4) by (simp_all add: doc_traced_def ctx_traced_def)
  show ?thesis
    using assms(1)
  proof (cases rule: start_cases)
    case failed
    with assms(2,3) d show ?thesis by (simp add: traced_def)
  next
    case (ineligible s)
    with assms(2,3) d show ?thesis by (simp add: traced_def)
  next
    case (not_allowed s)
    from not_allowed(2) show ?thesis by (rule fail_open_traced) (use not_allowed(1) assms(2,3) d in simp_all)
  next
    case (lookup s h keyid)
    from lookup(4) show ?thesis by (rule lookup_traced) (use lookup(1) assms(2-4) in simp_all)
  qed
qed

lemma handler_traced:
  assumes "directory_handler env main st = (rc, st')" and "traced (ev_lib env) docs log st"
  shows "traced (ev_lib env) docs log st'"
proof -
  have t: "zone_traced docs log (st_zone st)" "local_traced (ev_lib env) log (st_local_keys st)"
    "\<And>ctx. st_ctx st = Some ctx \<Longrightarrow> ctx_traced docs log ctx" using assms(2) by (simp_all add: traced_def)
  show ?thesis
  proof (cases "st_ctx st")
    case None
    obtain a st1 where al: "st_palloc st = (a, st1)" by fastforce
    then have z: "st_zone st1 = st_zone st" "st_local_keys st1 = st_local_keys st" "st_ctx st1 = None" using None by (auto dest!: st_palloc_frame)
    have "traced (ev_lib env) docs log st'" if "directory_start env ctx_zero st1 = (rc, st')"
      by (rule start_traced [OF that]) (use z t in \<open>simp_all add: ctx_zero_def\<close>)
    moreover have "traced (ev_lib env) docs log st1" using z t by (simp add: traced_def)
    ultimately show ?thesis using assms None al by (auto simp: directory_handler_def split: if_splits bool.splits)
  next
    case (Some ctx)
    have "traced (ev_lib env) docs log st'" if "directory_start env ctx st = (rc, st')" "\<not> cx_directory_done ctx" "\<not> cx_claimed ctx"
      by (rule start_traced [OF that(1)]) (use t(1,2) t(3) [OF Some] that(2,3) in \<open>simp_all add: ctx_traced_def\<close>)
    moreover have "traced (ev_lib env) docs log (st\<lparr>st_ctx := Some (ctx\<lparr>cx_directory_done := True\<rparr>)\<rparr>)"
      by (rule traced_ctxI [OF t(1,2)]) (use t(3) [OF Some] in \<open>simp add: ctx_traced_def\<close>)
    ultimately show ?thesis using assms Some by (auto simp: directory_handler_def split: if_splits)
  qed
qed

text \<open>The completion of a fetch adds the body of the response to the documents received for the host.\<close>

definition received :: "httpsig_ctx \<Rightarrow> fetch_response option \<Rightarrow> (bytes \<times> bytes) set" where
  "received ctx response = (case response of None \<Rightarrow> {} | Some fr \<Rightarrow> {(cx_directory_host ctx, fr_body fr)})"

lemma reject_traced:
  "zone_traced docs log (st_zone st) \<Longrightarrow> local_traced lib log (st_local_keys st) \<Longrightarrow> doc_traced docs log ctx \<Longrightarrow>
   traced lib docs log (directory_reject env ctx reason st)"
  by (simp add: directory_reject_def Let_def traced_def ctx_traced_def zone_traced_ops(1))

lemma zone_traced_more: "zone_traced docs log z \<Longrightarrow> docs \<subseteq> docs' \<Longrightarrow> zone_traced docs' log z"
  by (auto simp: zone_traced_def)

lemma accept_traced:
  assumes "zone_traced docs log (st_zone st)" and "local_traced lib log (st_local_keys st)" and "doc_traced docs log ctx"
  shows "\<exists>tail. traced lib (insert (cx_directory_host ctx, body) docs) (log @ tail) (directory_accept env ctx body cc age st)"
proof -
  let ?docs = "insert (cx_directory_host ctx, body) docs" and ?dc = "lc_directory (ev_lcf env)"
  have rej: "traced lib ?docs (log @ []) (directory_reject env ctx reason s)" if "st_zone s = st_zone st" "st_local_keys s = st_local_keys st" for s reason
    using reject_traced [of ?docs log s lib ctx env reason] that assms zone_traced_more [OF assms(1), of ?docs] doc_traced_mono [OF assms(3), of ?docs "[]"]
    by auto
  obtain a st1 where al: "st_palloc st = (a, st1)" by fastforce
  then have z1: "st_zone st1 = st_zone st" "st_local_keys st1 = st_local_keys st" by (auto dest!: st_palloc_frame)
  obtain r st2 where l: "on_st_pool (load_jwks (ev_lib env) body) st1 = (r, st2)" by fastforce
  then have z2: "st_zone st2 = st_zone st" "st_local_keys st2 = st_local_keys st" using z1 by (auto dest!: on_st_pool_frame)
  obtain g z where s: "cache_store (st_zone st) (cx_directory_host ctx) body
      (ev_now env + directory_ttl cc age (dc_cache_min_ttl ?dc) (dc_cache_max_ttl ?dc)) (dc_cache_min_ttl ?dc) (ev_now env) = (g, z)"
    by fastforce
  show ?thesis
  proof (cases "a \<and> (\<exists>k. r = NGX_OK k)")
    case True
    with al l s z2 have e: "directory_accept env ctx body cc age st =
        st2\<lparr>st_zone := z, st_ctx := Some (ctx\<lparr>cx_jwks := body, cx_directory_generation := g, cx_claimed := False, cx_directory_done := True\<rparr>)\<rparr>"
      by (auto simp: directory_accept_def Let_def)
    from zone_traced_store [OF assms(1) s] obtain tail where t: "zone_traced ?docs (log @ tail) z"
      "g \<noteq> 0 \<Longrightarrow> g \<le> length (log @ tail) \<and> (log @ tail) ! (g - 1) = (cx_directory_host ctx, body)" by blast
    have "traced lib ?docs (log @ tail) (directory_accept env ctx body cc age st)"
      unfolding e using t local_traced_mono [OF assms(2), of tail] z2 by (simp add: traced_def ctx_traced_def doc_traced_def)
    then show ?thesis by blast
  next
    case False
    then have "directory_accept env ctx body cc age st = directory_reject env ctx FETCH_FAILED st1 \<or>
        directory_accept env ctx body cc age st = directory_reject env ctx FETCH_INVALID st2"
      using al l by (cases a; cases r) (auto simp: directory_accept_def)
    with rej [OF z1] rej [OF z2] show ?thesis by metis
  qed
qed

lemma done_traced:
  assumes "traced lib docs log st" and "st_ctx st = Some ctx"
  shows "\<exists>tail. traced lib (docs \<union> received ctx response) (log @ tail) (directory_done env response ctx st)"
proof -
  from assms have t: "zone_traced docs log (st_zone st)" "local_traced lib log (st_local_keys st)" "doc_traced docs log ctx"
    by (simp_all add: traced_def ctx_traced_def)
  show ?thesis
  proof (cases response)
    case None
    with reject_traced [OF t, of env FETCH_FAILED] show ?thesis
      by (intro exI [of _ "[]"]) (simp add: directory_done_def received_def)
  next
    case (Some fr)
    let ?docs = "insert (cx_directory_host ctx, fr_body fr) docs"
    obtain cc st1 where j: "joined_cache_control (fr_cache_control fr) st = (cc, st1)" by fastforce
    then have z: "st_zone st1 = st_zone st" "st_local_keys st1 = st_local_keys st"
      by (auto simp: joined_cache_control_def split: if_splits prod.splits bool.splits dest!: st_palloc_frame)
    have rej: "\<exists>tail. traced lib ?docs (log @ tail) (directory_reject env ctx reason st1)" for reason
      using reject_traced [of ?docs log st1 lib ctx env reason] z t zone_traced_more [OF t(1), of ?docs] doc_traced_mono [OF t(3), of ?docs "[]"]
      by (intro exI [of _ "[]"]) auto
    have acc: "\<exists>tail. traced lib ?docs (log @ tail) (directory_accept env ctx (fr_body fr) cc age st1)" for age
      using accept_traced [of docs log st1 lib ctx "fr_body fr" env cc age] z t by simp
    show ?thesis
      using rej acc Some j by (auto simp: directory_done_def received_def split: fetch_reason.split)
  qed
qed

text \<open>An evaluation parses the document and leaves where it came from as it was.\<close>

lemma verify_request_traced:
  assumes "verify_request env ctx req st = (r, sig, ctx', st')" and "local_traced (ev_lib env) log (st_local_keys st)" and "doc_traced docs log ctx"
  shows "local_traced (ev_lib env) log (st_local_keys st')"
proof -
  obtain k st1 where k: "resolve_keys env ctx st = (k, st1)" by fastforce
  with assms(1) have "st_local_keys st' = st_local_keys st1" by (auto simp: verify_request_def Let_def split: prod.splits)
  with resolve_keys_traced(1) [OF k assms(2,3)] show ?thesis by simp
qed

lemma nonce_judge_local: "nonce_judge env sig now st = (v, st') \<Longrightarrow> st_local_keys st' = st_local_keys st"
  by (auto simp: nonce_judge_def nonce_consult_def Let_def split: prod.splits if_splits option.splits nonce_rc.splits nonce_backend.splits)

lemma check_nonce_local:
  "check_nonce env ctx sig now st = (r, ctx', st') \<Longrightarrow> st_local_keys st' = st_local_keys st \<and> cx_jwks ctx' = cx_jwks ctx \<and>
    cx_directory_host ctx' = cx_directory_host ctx \<and> cx_directory_generation ctx' = cx_directory_generation ctx \<and>
    cx_directory_done ctx' = cx_directory_done ctx \<and> cx_claimed ctx' = cx_claimed ctx"
  by (auto simp: check_nonce_def split: prod.splits if_splits option.splits bool.splits dest!: nonce_judge_local st_palloc_frame)

lemma judge_request_traced:
  assumes "judge_request env ctx req st = (ctx', st')" and "local_traced (ev_lib env) log (st_local_keys st)" and "ctx_traced docs log ctx"
  shows "local_traced (ev_lib env) log (st_local_keys st') \<and> ctx_traced docs log ctx'"
proof -
  obtain r sig ctx1 st1 where v: "verify_request env ctx req st = (r, sig, ctx1, st1)" by (metis prod_cases4)
  from assms(3) have d: "doc_traced docs log ctx" by (simp add: ctx_traced_def)
  note l1 = verify_request_traced [OF v assms(2) d]
  have c1: "ctx_traced docs log ctx1" using verify_request_frame [OF v] assms(3) by (auto simp: ctx_traced_def)
  obtain res ctx2 st2 where n: "check_nonce env ctx1 sig (ev_now env) st1 = (res, ctx2, st2)" by (metis prod_cases3)
  note f = check_nonce_local [OF n]
  have c2: "ctx_traced docs log (ctx2\<lparr>cx_result := x\<rparr>)" "ctx_traced docs log (ctx2\<lparr>cx_result := x, cx_keyid := y, cx_agent := w\<rparr>)" for x y w
    using c1 f unfolding ctx_traced_def doc_traced_def by simp_all
  have c3: "ctx_traced docs log (ctx1\<lparr>cx_internal_error := True\<rparr>)" "ctx_traced docs log (ctx1\<lparr>cx_result := x\<rparr>)" for x
    using c1 unfolding ctx_traced_def doc_traced_def by simp_all
  show ?thesis
  proof (cases r)
    case (NGX_OK u)
    with assms(1) v n have "st' = st2" "ctx' = ctx2\<lparr>cx_result := res\<rparr> \<or> ctx' = ctx2\<lparr>cx_result := res, cx_keyid := sg_keyid sig, cx_agent := sg_agent_host sig\<rparr>"
      by (simp_all add: judge_request_def split: if_splits)
    with c2 l1 f show ?thesis by auto
  next
    case (NGX_DECLINED e)
    with assms(1) v have "st' = st1" "\<exists>x. ctx' = ctx1\<lparr>cx_result := x\<rparr>" by (auto simp: judge_request_def)
    with c3 l1 show ?thesis by auto
  next
    case NGX_ERROR
    with assms(1) v have "st' = st1" "ctx' = ctx1\<lparr>cx_internal_error := True\<rparr>" by (auto simp: judge_request_def)
    with c3 l1 show ?thesis by auto
  qed
qed

lemma evaluate_traced:
  assumes "evaluate env st = (ok, out, st')" and "traced (ev_lib env) docs log st"
  shows "traced (ev_lib env) docs log st'"
proof (rule evaluate_cases [of env st])
  fix ctx st1
  assume n: "evaluate_new env (ctx_of st) (started st) = (ctx, st1)" and e: "evaluate env st = (True, Some ctx, st1\<lparr>st_ctx := Some ctx\<rparr>)"
  have c: "ctx_traced docs log (ctx_of st)" "local_traced (ev_lib env) log (st_local_keys (started st))" "zone_traced docs log (st_zone st)"
    using assms(2) ctx_traced_zero by (auto simp: traced_def ctx_of_def split: option.split)
  let ?ctx = "(ctx_of st)\<lparr>cx_done := True, cx_result := RESULT_NOT_SIGNED\<rparr>"
  have c': "ctx_traced docs log ?ctx" "ctx_traced docs log (?ctx\<lparr>cx_internal_error := True\<rparr>)" using c(1) by (simp_all add: ctx_traced_def doc_traced_def)
  obtain rb st0 where b: "on_st_pool (build_request (ev_scheme env) (ev_request env)) (started st) = (rb, st0)" by fastforce
  then have l0: "local_traced (ev_lib env) log (st_local_keys st0)" using c(2) by (auto dest!: on_st_pool_frame)
  have "local_traced (ev_lib env) log (st_local_keys st1) \<and> ctx_traced docs log ctx"
    using n b c' c(2) l0 judge_request_traced [OF _ l0 c'(1)]
    by (cases rb) (auto simp: evaluate_new_def Let_def split: if_splits)
  moreover have "st_zone st1 = st_zone st" using evaluate_new_frame [OF n] by simp
  ultimately show ?thesis using assms(1) e c(3) by (auto simp: traced_def)
qed (use assms in \<open>auto simp: traced_def\<close>)

section \<open>A worker\<close>

text \<open>
  The shared cache, the worker's own, the contexts of its requests, and the documents received so far, by any
  worker, with the host each was fetched from.
\<close>

record 'jwks worker =
  wk_zone :: cache_ctx
  wk_local :: "'jwks keys_cache option"
  wk_ctxs :: "httpsig_ctx set"
  wk_received :: "(bytes \<times> bytes) set"

text \<open>A request of the worker, new or with one of the contexts.\<close>

definition running :: "'jwks worker \<Rightarrow> ('jwks, 'w) state \<Rightarrow> bool" where
  "running wk st \<longleftrightarrow> st_zone st = wk_zone wk \<and> st_local_keys st = wk_local wk \<and> (\<forall>ctx. st_ctx st = Some ctx \<longrightarrow> ctx \<in> wk_ctxs wk)"

definition after :: "'jwks worker \<Rightarrow> ('jwks, 'w) state \<Rightarrow> 'jwks worker" where
  "after wk st = wk\<lparr>wk_zone := st_zone st, wk_local := st_local_keys st, wk_ctxs := wk_ctxs wk \<union> set_option (st_ctx st)\<rparr>"

text \<open>The documents another worker hands to the shared cache.\<close>

fun handed :: "cache_event \<Rightarrow> (bytes \<times> bytes) set" where
  "handed (Store_for host jwks expires_at retry_ttl clock) = {(host, jwks)}"
| "handed _ = {}"

inductive reached :: "('json, 'jwks) jwx \<Rightarrow> 'w hiredis \<Rightarrow> 'jwks worker \<Rightarrow> bool" for lib hiredis where
  worker_start:
    "cache_init_zone None None shpool = Some zone \<Longrightarrow> local = None \<or> local = Some kc_empty \<Longrightarrow>
     reached lib hiredis \<lparr>wk_zone = zone, wk_local = local, wk_ctxs = {}, wk_received = {}\<rparr>"
| worker_others:
    "reached lib hiredis wk \<Longrightarrow> cache_step e (wk_zone wk) = (r, zone) \<Longrightarrow>
     reached lib hiredis (wk\<lparr>wk_zone := zone, wk_received := wk_received wk \<union> handed e\<rparr>)"
| worker_handler:
    "reached lib hiredis wk \<Longrightarrow> running wk st \<Longrightarrow> ev_lib env = lib \<Longrightarrow> ev_hiredis env = hiredis \<Longrightarrow>
     directory_handler env main st = (rc, st') \<Longrightarrow> reached lib hiredis (after wk st')"
| worker_done:
    "reached lib hiredis wk \<Longrightarrow> running wk st \<Longrightarrow> ev_lib env = lib \<Longrightarrow> ev_hiredis env = hiredis \<Longrightarrow> st_ctx st = Some ctx \<Longrightarrow>
     reached lib hiredis ((after wk (directory_done env response ctx st))\<lparr>wk_received := wk_received wk \<union> received ctx response\<rparr>)"
| worker_evaluate:
    "reached lib hiredis wk \<Longrightarrow> running wk st \<Longrightarrow> ev_lib env = lib \<Longrightarrow> ev_hiredis env = hiredis \<Longrightarrow>
     evaluate env st = (ok, out, st') \<Longrightarrow> reached lib hiredis (after wk st')"
| worker_cleanup:
    "reached lib hiredis wk \<Longrightarrow> running wk st \<Longrightarrow> ev_lib env = lib \<Longrightarrow> ev_hiredis env = hiredis \<Longrightarrow>
     reached lib hiredis (wk\<lparr>wk_zone := st_zone (run_cleanup env st)\<rparr>)"

definition worker_traced :: "('json, 'jwks) jwx \<Rightarrow> 'jwks worker \<Rightarrow> (bytes \<times> bytes) list \<Rightarrow> bool" where
  "worker_traced lib wk log \<longleftrightarrow> zone_traced (wk_received wk) log (wk_zone wk) \<and> local_traced lib log (wk_local wk) \<and>
     (\<forall>ctx\<in>wk_ctxs wk. ctx_traced (wk_received wk) log ctx)"

lemma running_traced: "running wk st \<Longrightarrow> worker_traced lib wk log \<Longrightarrow> traced lib (wk_received wk) log st"
  by (auto simp: running_def worker_traced_def traced_def)

lemma after_traced:
  "worker_traced lib wk log \<Longrightarrow> traced lib (wk_received wk) log st \<Longrightarrow> worker_traced lib (after wk st) log"
  by (auto simp: after_def worker_traced_def traced_def)

lemma worker_log: "reached lib hiredis wk \<Longrightarrow> \<exists>log. worker_traced lib wk log"
proof (induction rule: reached.induct)
  case (worker_start shpool zone local)
  have "zone_logged [] (zone_of zone)" by (simp add: cache_init(2) [OF worker_start(1)] zone_logged_def)
  with worker_start show ?case
    using cache_init(1) [OF worker_start(1)]
    by (intro exI [of _ "[]"]) (auto simp: worker_traced_def zone_traced_def local_traced_def kc_empty_def)
next
  case (worker_others wk e r zone)
  then obtain log where l: "worker_traced lib wk log" by blast
  have sub: "set (logged e r) \<subseteq> handed e" by (cases "(e, r)" rule: logged.cases) auto
  have "zone_traced (wk_received wk \<union> set (logged e r)) (log @ logged e r) zone"
    using zone_traced_step worker_others(2) l by (auto simp: worker_traced_def)
  then have "zone_traced (wk_received wk \<union> handed e) (log @ logged e r) zone" by (rule zone_traced_more) (use sub in auto)
  then show ?case
    using l by (intro exI [of _ "log @ logged e r"]) (auto simp: worker_traced_def intro: local_traced_mono ctx_traced_mono)
next
  case (worker_handler wk st env main rc st')
  then obtain log where l: "worker_traced lib wk log" by blast
  from handler_traced [OF worker_handler(5)] running_traced [OF worker_handler(2) l] worker_handler(3)
  show ?case using after_traced [OF l] by blast
next
  case (worker_done wk st env ctx response)
  then obtain log where l: "worker_traced lib wk log" by blast
  from done_traced [OF running_traced [OF worker_done(2) l] worker_done(5)]
  obtain tail where "traced lib (wk_received wk \<union> received ctx response) (log @ tail) (directory_done env response ctx st)" by blast
  moreover have "\<forall>ctx\<in>wk_ctxs wk. ctx_traced (wk_received wk \<union> received ctx' response) (log @ tail) ctx" for ctx'
    using l by (auto simp: worker_traced_def intro: ctx_traced_mono)
  ultimately show ?case by (intro exI [of _ "log @ tail"]) (auto simp: worker_traced_def after_def traced_def)
next
  case (worker_evaluate wk st env ok out st')
  then obtain log where l: "worker_traced lib wk log" by blast
  from evaluate_traced [OF worker_evaluate(5)] running_traced [OF worker_evaluate(2) l] worker_evaluate(3)
  show ?case using after_traced [OF l] by blast
next
  case (worker_cleanup wk st env)
  then obtain log where l: "worker_traced lib wk log" by blast
  have "zone_traced (wk_received wk) log (st_zone st)" using worker_cleanup(2) l by (simp add: running_def worker_traced_def)
  then have "zone_traced (wk_received wk) log (st_zone (run_cleanup env st))"
    by (auto simp: run_cleanup_def zone_traced_ops(1) split: option.split)
  with l show ?case by (intro exI [of _ log]) (simp add: worker_traced_def)
qed

section \<open>Property\<close>

text \<open>C6: A request is verified with its own host's keys.  Whatever the requests of a worker do, in whatever order, and
  whatever the other workers do to the shared cache in between, the keys a request resolves, from the worker's
  cache or by parsing, are those of the document its context carries, and that document was received as the
  answer of the host the context names.\<close>

theorem keys_of_own_host:
  assumes "reached lib hiredis wk" and "running wk st" and "st_ctx st = Some ctx" and "ev_lib env = lib"
    and "resolve_keys env ctx st = (Some keys, st')"
  shows "(cx_directory_host ctx, cx_jwks ctx) \<in> wk_received wk \<and> (\<exists>pool. fst (load_jwks lib (cx_jwks ctx) pool) = NGX_OK keys)"
proof -
  obtain log where "worker_traced lib wk log" using worker_log [OF assms(1)] by blast
  from running_traced [OF assms(2) this] assms(3,4) have t: "local_traced (ev_lib env) log (st_local_keys st)" "doc_traced (wk_received wk) log ctx"
    by (simp_all add: traced_def ctx_traced_def)
  from resolve_keys_traced(2) [OF assms(5) t refl] t(2) assms(4) show ?thesis by (simp add: doc_traced_def)
qed

definition demo_response :: fetch_response where
  "demo_response =
     \<lparr>fr_schema = ''https://'', fr_status = 200, fr_content_type = pf_directory_media_type web_bot_auth, fr_body = ''k'',
      fr_cache_control = [], fr_age = None\<rparr>"

lemma demo_response:
  "check_response (bare_schema (fr_schema demo_response)) (fr_status demo_response) (fr_content_type demo_response)
     (pf_directory_media_type (lc_profile_def demo_conf)) (length (fr_body demo_response)) (dc_max_size (lc_directory demo_conf)) = FETCH_OK"
proof -
  have "bare_schema ''https://'' = ''https''" "ngx_strncasecmp ''https'' ''https'' 5 = 0"
    "media_type_matches (directory_trim (takeWhile (\<lambda>c. c \<noteq> CHR '';'') (pf_directory_media_type web_bot_auth))) (pf_directory_media_type web_bot_auth)"
    by code_simp+
  then show ?thesis by (simp add: demo_response_def check_response_def demo_conf_def)
qed

lemma kc_get_empty: "kc_get (kc_empty :: 'jwks keys_cache) h g = (None, kc_empty)"
proof -
  have "kc_find (kc_empty :: 'jwks keys_cache) h = None"
    by (auto simp: kc_find_def kc_empty_def find_None_iff slot_holds_def)
  then show ?thesis by (simp add: kc_get_def)
qed

lemma demo_document: "load_jwks toy_jwx ''k'' [] = (NGX_OK (KEYS_JWKS ''k''), [])"
proof -
  have "check_ed25519_only toy_jwx ''k''"
    by (simp add: check_ed25519_only_def check_ed25519_only_body_def check_keys_loop_all key_is_ed25519_iff
        toy_jwx_def Let_def MAX_JWKS_KEYS_def)
  then show ?thesis
    by (simp add: load_jwks_def MAX_JWKS_SIZE_def) (simp add: toy_jwx_def bnd_def pool_alloc_Nil ret_def)
qed

theorem keys_of_own_host_witness:
  "\<exists>wk st ctx st'. reached toy_jwx dead_redis wk \<and> running wk st \<and> st_ctx st = Some ctx \<and>
     resolve_keys demo_env ctx st = (Some (KEYS_JWKS ''k''), st') \<and> (''agent.example'', ''k'') \<in> wk_received wk"
proof -
  let ?wk = "\<lparr>wk_zone = small_zone, wk_local = Some kc_empty, wk_ctxs = {}, wk_received = {}\<rparr>"
  have w0: "reached toy_jwx dead_redis ?wk" by (rule worker_start [OF small_zone_init]) simp
  have r0: "running ?wk (demo_state small_store)" by (simp add: running_def demo_state_def)
  have e: "ev_lib demo_env = toy_jwx" "ev_hiredis demo_env = dead_redis" by (simp_all add: demo_env_def)
  obtain st1 where h: "directory_handler demo_env True (demo_state small_store) = (HANDLER_AGAIN, st1)"
    "cx_directory_host (ctx_of st1) = ''agent.example''" "st_pool st1 = []" "st_local_keys st1 = Some kc_empty" by (rule demo_fetch)
  note w1 = worker_handler [OF w0 r0 e h(1)]
  from h(2) obtain ctx1 where c1: "st_ctx st1 = Some ctx1" by (cases "st_ctx st1") (simp_all add: ctx_of_def ctx_zero_def)
  with h(2) have host: "cx_directory_host ctx1 = ''agent.example''" by (simp add: ctx_of_def)
  have r1: "running (after ?wk st1) st1" using c1 by (simp add: running_def after_def)
  let ?st2 = "directory_done demo_env (Some demo_response) ctx1 st1"
  obtain g z where s: "cache_store (st_zone st1) ''agent.example'' ''k'' (150 + directory_ttl [] 0 60 86400) 60 150 = (g, z)" by fastforce
  let ?ctx = "ctx1\<lparr>cx_jwks := ''k'', cx_directory_generation := g, cx_claimed := False, cx_directory_done := True\<rparr>"
  have pool: "st1\<lparr>st_pool := []\<rparr> = st1" using h(3) by simp
  have d: "?st2 = st1\<lparr>st_zone := z, st_ctx := Some ?ctx\<rparr>"
    using demo_response demo_document s host h(3) pool
    by (simp add: directory_done_def joined_cache_control_def directory_accept_def st_palloc_def on_st_pool_def Let_def demo_response_def)
      (simp add: demo_conf_def)
  note w2 = worker_done [OF w1 r1 e c1, of "Some demo_response"]
  let ?wk2 = "(after (after ?wk st1) ?st2)\<lparr>wk_received := wk_received (after ?wk st1) \<union> received ctx1 (Some demo_response)\<rparr>"
  have r2: "running ?wk2 ?st2" by (auto simp: running_def after_def)
  have c2: "st_ctx ?st2 = Some ?ctx" by (simp add: d)
  have "\<exists>st'. resolve_keys demo_env ?ctx ?st2 = (Some (KEYS_JWKS ''k''), st')"
    using h(3,4) demo_document
    by (auto simp: d resolve_keys_def resolve_direct_def kc_get_empty kc_put_def on_st_pool_def)
  then obtain st' where k: "resolve_keys demo_env ?ctx ?st2 = (Some (KEYS_JWKS ''k''), st')" by blast
  from keys_of_own_host [OF w2 r2 c2 e(1) k] host
  have "(''agent.example'', ''k'') \<in> wk_received ?wk2" by simp
  with w2 r2 c2 k show ?thesis by blast
qed

end
