(* ===== verification/Replay.thy ===== *)
theory Replay
  imports Module_Props
begin

text \<open>
  The nonce store and the handlers together: a signature that was granted access once is not granted access again
  while it is valid.
\<close>

unbundle bit_operations_syntax

section \<open>What a granted request did to the store\<close>

text \<open>The key of a signature's nonce, and how long it is kept.\<close>

definition nonce_key :: "signature \<Rightarrow> bytes" where
  "nonce_key sig = NONCE_KEY_PREFIX @ sg_agent_host sig @ CHR 0x00 # sg_keyid sig @ CHR 0x00 # sg_nonce sig"

definition kept :: "('json, 'jwks, 'w) env \<Rightarrow> signature \<Rightarrow> int" where
  "kept env sig = nonce_store_ttl (sg_expires sig) (lc_max_skew (ev_lcf env)) (ev_now env)"

lemma kept_bounds:
  "1 \<le> kept env sig" "sg_expires sig + lc_max_skew (ev_lcf env) \<le> ev_now env + kept env sig"
  "ev_now env \<le> sg_expires sig + lc_max_skew (ev_lcf env) \<Longrightarrow> ev_now env + kept env sig \<le> sg_expires sig + lc_max_skew (ev_lcf env) + 1"
  by (simp_all add: kept_def nonce_store_ttl_def Let_def)

text \<open>A request with the shared-memory store as its backend, whose nonce has not been looked up.\<close>

definition unseen :: "('json, 'jwks, 'w) env \<Rightarrow> ('jwks, 'w) state \<Rightarrow> bool" where
  "unseen env st \<longleftrightarrow> lc_nonce_store (ev_lcf env) = NONCE_STORE_SHM \<and> st_verdict st = None \<and> \<not> cx_done (ctx_of st)"

lemma nonce_judge_shm:
  assumes "nonce_judge env sig now st = (v, st')" and "nv_result v = RESULT_OK" and "\<not> nv_internal_error v"
    and "lc_nonce_store (ev_lcf env) = NONCE_STORE_SHM"
  shows "\<exists>rc. shm_check (st_nonce_zone st) (nonce_key sig) (nonce_store_ttl (sg_expires sig) (lc_max_skew (ev_lcf env)) now) now = (rc, st_nonce_zone st') \<and>
    (rc = NONCE_OK \<and> \<not> nv_unavailable v \<or> rc = NONCE_ABORT \<and> nv_unavailable v)"
proof -
  from assms obtain pool where k: "nonce_store_key (sg_agent_host sig) (sg_keyid sig) (sg_nonce sig) (st_pool st) = (Some (nonce_key sig), pool)"
    by (auto simp: nonce_judge_def nonce_store_key_def nonce_key_def Let_def split: if_splits prod.splits bool.splits)
  obtain rc zone where s: "shm_check (st_nonce_zone st) (nonce_key sig) (nonce_store_ttl (sg_expires sig) (lc_max_skew (ev_lcf env)) now) now = (rc, zone)"
    by fastforce
  have "\<not> NONCE_MAX_LEN < length (sg_nonce sig)" using assms(1,2) by (auto simp: nonce_judge_def Let_def)
  with assms k s show ?thesis
    by (cases rc) (auto simp: nonce_judge_def nonce_consult_def Let_def nonce_verdict_zero_def)
qed

lemma check_nonce_shm:
  assumes "check_nonce env ctx sig now st = (RESULT_OK, ctx', st')" and "\<not> cx_internal_error ctx'"
    and "lc_nonce_store (ev_lcf env) = NONCE_STORE_SHM" and "st_verdict st = None" and "sg_nonce sig \<noteq> []"
  shows "\<exists>rc. shm_check (st_nonce_zone st) (nonce_key sig) (nonce_store_ttl (sg_expires sig) (lc_max_skew (ev_lcf env)) now) now = (rc, st_nonce_zone st') \<and>
    (rc = NONCE_OK \<and> \<not> cx_nonce_store_unavailable ctx' \<or> rc = NONCE_ABORT \<and> cx_nonce_store_unavailable ctx')"
proof -
  obtain ok st0 where p: "st_palloc st = (ok, st0)" by fastforce
  then have z: "st_nonce_zone st0 = st_nonce_zone st" by (auto dest: st_palloc_frame)
  obtain v st1 where j: "nonce_judge env sig now st0 = (v, st1)" by fastforce
  from assms p j have r: "nv_result v = RESULT_OK" "\<not> nv_internal_error v" "ctx' = ctx\<lparr>cx_nonce_store_unavailable := nv_unavailable v\<rparr>"
      "st_nonce_zone st' = st_nonce_zone st1"
    by (auto simp: check_nonce_def split: bool.splits if_splits)
  from nonce_judge_shm [OF j r(1,2) assms(3)] r(3,4) z show ?thesis by auto
qed

lemma access_shm:
  assumes "access_handler env st = (HANDLER_OK, st')" and "unseen env st" and "accepted_signature env st = Some sig" and "sg_nonce sig \<noteq> []"
  shows "\<exists>rc ctx. shm_check (st_nonce_zone st) (nonce_key sig) (kept env sig) (ev_now env) = (rc, st_nonce_zone st') \<and>
    st_ctx st' = Some ctx \<and> (rc = NONCE_OK \<and> \<not> cx_nonce_store_unavailable ctx \<or> rc = NONCE_ABORT \<and> cx_nonce_store_unavailable ctx)"
proof (rule evaluate_cases [of env st])
  fix ctx st1
  assume n: "evaluate_new env (ctx_of st) (started st) = (ctx, st1)" and e: "evaluate env st = (True, Some ctx, st1\<lparr>st_ctx := Some ctx\<rparr>)"
  from assms(1) e have ok: "\<not> cx_internal_error ctx" "access_result (ev_lcf env) (cx_result ctx) = HANDLER_OK"
    "st' = st1\<lparr>st_ctx := Some ctx\<rparr>"
    by (auto simp: access_handler_def Let_def split: if_splits)
  from ok(2) have "cx_result ctx = RESULT_OK"
    by (auto simp: access_result_def deny_code_def split: httpsig_result.splits if_splits)
  then obtain sig' ctx0 ctx1 st0 where s: "accepted_signature env st = Some sig'" "framed (started st) st0"
      "check_nonce env ctx0 sig' (ev_now env) st0 = (RESULT_OK, ctx1, st1)"
      "ctx = ctx1\<lparr>cx_result := RESULT_OK, cx_keyid := sg_keyid sig', cx_agent := sg_agent_host sig'\<rparr>"
    using evaluate_new_OK [OF n _ ok(1)] by metis
  with assms(3) have sig: "sig' = sig" by simp
  from s(2) have z: "st_nonce_zone st0 = st_nonce_zone st" "st_verdict st0 = st_verdict st" 
    using started_frame(4) [of st] by (simp_all add: framed_def stores_def)
  from check_nonce_shm [OF s(3)] s(4) ok assms(2,4) z show ?thesis by (simp add: sig unseen_def kept_def)
qed (use assms in \<open>auto simp: access_handler_def Let_def ctx_of_def unseen_def split: if_splits\<close>)

section \<open>What an accepted signature still has to live\<close>

lemma accepted_window:
  assumes "accepted_signature env st = Some sig" and "lc_profile_def (ev_lcf env) = web_bot_auth"
  shows "ev_now env \<le> sg_expires sig + lc_max_skew (ev_lcf env)"
proof -
  from assms(1) obtain req st1 ctx st2 where v: "verify_request env ((ctx_of st)\<lparr>cx_done := True, cx_result := RESULT_NOT_SIGNED\<rparr>) req st1
      = (NGX_OK (), sig, ctx, st2)"
    by (auto simp: accepted_signature_def split: if_splits prod.splits rc.splits)
  then obtain pctx q p where "profile_verify (ev_lib env) (ev_now env) pctx req (q, signature_zero) = (NGX_OK (), (p, sig))"
      and c: "pc_profile pctx = web_bot_auth" "pc_max_skew pctx = lc_max_skew (ev_lcf env)" "pc_now pctx = ev_now env"
    using assms(2) by (force simp: verify_request_def Let_def split: prod.splits)
  then obtain entry l bs h where
      m: "profile_match (pc_profile pctx) (entry_sig entry l) = NGX_OK ()"
      "window_ok pctx (if pc_now pctx \<noteq> 0 then pc_now pctx else ev_now env) (entry_sig entry l)"
      "sig = (entry_sig entry l)\<lparr>sg_signature := bs, sg_agent_host := h\<rparr>"
    by (metis profile_verify_full snd_conv)
  let ?r = "pf_required_params web_bot_auth" and ?p = "sg_present (entry_sig entry l)"
  have "?r AND PARAM_EXPIRES = PARAM_EXPIRES" "PARAM_EXPIRES \<noteq> 0" by code_simp+
  moreover from m(1) c(1) have "?p AND ?r = ?r" by (auto simp: profile_match_def split: if_splits)
  ultimately have "?p AND PARAM_EXPIRES \<noteq> 0" by (metis and.assoc)
  with m(2,3) c show ?thesis by (auto simp: window_ok_def split: if_splits)
qed

section \<open>No replay\<close>

text \<open>C2: No signature is granted access twice.  Once a request with a nonce has been granted access and the store could
  be consulted, no later request with the same agent, keyid and nonce, signed to expire no later, is granted
  access, at whatever time it arrives, however many checks of other requests run in between and however full
  the zone is: while the signature is valid the nonce is on record, and afterwards the signature is not accepted.\<close>

theorem no_replay:
  assumes "access_handler env1 st1 = (HANDLER_OK, st1')" and "unseen env1 st1" and "accepted_signature env1 st1 = Some sig1"
    and "sg_nonce sig1 \<noteq> []" and "st_ctx st1' = Some ctx" and "\<not> cx_nonce_store_unavailable ctx" and "nonce_inv (st_nonce_zone st1)"
    and "nonce_run es (st_nonce_zone st1') = (rs, st_nonce_zone st2)" and "list_all (\<lambda>(key, ttl, t). t \<le> ev_now env2 \<and> time_ok (t + ttl)) es"
    and "unseen env2 st2" and "accepted_signature env2 st2 = Some sig2"
    and "sg_agent_host sig2 = sg_agent_host sig1 \<and> sg_keyid sig2 = sg_keyid sig1 \<and> sg_nonce sig2 = sg_nonce sig1"
    and "sg_expires sig2 \<le> sg_expires sig1" and "lc_max_skew (ev_lcf env2) \<le> lc_max_skew (ev_lcf env1)"
    and "lc_profile_def (ev_lcf env1) = web_bot_auth" and "lc_profile_def (ev_lcf env2) = web_bot_auth"
    and "0 \<le> ev_now env1" and "0 \<le> ev_now env2" and "sg_expires sig1 + lc_max_skew (ev_lcf env1) + 1 < 2 ^ 62"
  shows "fst (access_handler env2 st2) \<noteq> HANDLER_OK"
proof
  assume "fst (access_handler env2 st2) = HANDLER_OK"
  then obtain st2' where a2: "access_handler env2 st2 = (HANDLER_OK, st2')" by (metis prod.collapse)
  have key: "nonce_key sig2 = nonce_key sig1" "sg_nonce sig2 \<noteq> []" using assms(4,12) by (simp_all add: nonce_key_def)
  from access_shm [OF assms(1-4)] assms(5,6)
  have s1: "shm_check (st_nonce_zone st1) (nonce_key sig1) (kept env1 sig1) (ev_now env1) = (NONCE_OK, st_nonce_zone st1')" by auto
  note w = accepted_window [OF assms(3,15)] accepted_window [OF assms(11,16)]
  note b = kept_bounds [where env = env1 and sig = sig1] kept_bounds [where env = env2 and sig = sig2]
  have t1: "time_ok (ev_now env1 + kept env1 sig1)" and t2: "time_ok (ev_now env2 + kept env2 sig2)"
    using w b assms(13,14,17-19) by (simp_all add: time_ok_def)
  have now: "ev_now env2 \<le> ev_now env1 + kept env1 sig1" using w(2) b(2) assms(13,14) by simp
  have es: "list_all (\<lambda>(k, l, s). s \<le> ev_now env1 + kept env1 sig1 \<and> time_ok (s + l)) es"
    using assms(9) now by (auto simp: list_all_iff)
  from nonce_shm.recorded_live [OF assms(7) t1 s1 es assms(8) [unfolded nonce_run_eq]]
  have "nonce_inv (st_nonce_zone st2)" "nonce_map (st_nonce_zone st2) (nonce_key sig1) = Some (ev_now env1 + kept env1 sig1)" by blast+
  from nonce_shm.declined_live [OF this now b(4) t2] access_shm [OF a2 assms(10,11) key(2)] key(1) show False by auto
qed

lemma demo_accepted:
  obtains sig where "accepted_signature demo_env (demo_state zone) = Some sig" "sg_agent_host sig = ''agent.example''" "sg_keyid sig = ''k''"
    "sg_nonce sig = ''n''" "sg_expires sig = 200"
proof -
  let ?ctx = "ctx_zero\<lparr>cx_done := True, cx_result := RESULT_NOT_SIGNED\<rparr>"
  have ctx: "cx_jwks ?ctx = []" by (simp add: ctx_zero_def)
  have pool: "st_pool (demo_state zone) = []" by (simp add: demo_state_def)
  have b: "on_st_pool (build_request (ev_scheme demo_env) (ev_request demo_env)) (demo_state zone) = (NGX_OK honest_request, demo_state zone)"
    by (simp add: on_st_pool_def demo_state_def build_request_Nil demo_snapshot)
  have c: "ctx_of (demo_state zone) = ctx_zero" "started (demo_state zone) = demo_state zone"
    by (simp_all add: ctx_of_def started_def st_palloc_def demo_state_def)
  from demo_verify [OF ctx pool] obtain sig where
    v: "verify_request demo_env ?ctx honest_request (demo_state zone) = (NGX_OK (), sig, ?ctx, demo_state zone)"
      "sg_agent_host sig = ''agent.example''" "sg_keyid sig = ''k''" "sg_nonce sig = ''n''" "sg_expires sig = 200" by blast
  from b have "accepted_signature demo_env (demo_state zone) = Some sig"
    unfolding accepted_signature_def c using demo_find by (simp add: v(1))
  with v(2-5) that show ?thesis by blast
qed

lemma demo_unseen: "unseen demo_env (demo_state zone)"
  by (simp add: unseen_def ctx_of_def demo_state_def demo_conf_def ctx_zero_def)

theorem no_replay_witness:
  "\<exists>zone zone' st. access_handler demo_env (demo_state small_store) = (HANDLER_OK, st) \<and> st_nonce_zone st = zone \<and>
    nonce_run [(''other'', 5, 150)] zone = ([NONCE_OK], zone') \<and> fst (access_handler demo_env (demo_state zone')) \<noteq> HANDLER_OK"
proof -
  have ex: "fst (shm_check small_store demo_key 110 150) = NONCE_OK"
    "fst (nonce_run [(''other'', 5, 150)] (snd (shm_check small_store demo_key 110 150))) = [NONCE_OK]" by code_simp+
  then obtain zone zone' where z: "shm_check small_store demo_key 110 150 = (NONCE_OK, zone)" "nonce_run [(''other'', 5, 150)] zone = ([NONCE_OK], zone')"
    by (metis prod.collapse snd_conv)
  obtain st ctx where a: "access_handler demo_env (demo_state small_store) = (HANDLER_OK, st)" "st_nonce_zone st = zone" "st_ctx st = Some ctx"
    "\<not> cx_nonce_store_unavailable ctx" by (rule demo_access [OF z(1)])
  obtain sig1 where s1: "accepted_signature demo_env (demo_state small_store) = Some sig1" "sg_agent_host sig1 = ''agent.example''"
    "sg_keyid sig1 = ''k''" "sg_nonce sig1 = ''n''" "sg_expires sig1 = 200" by (rule demo_accepted)
  obtain sig2 where s2: "accepted_signature demo_env (demo_state zone') = Some sig2" "sg_agent_host sig2 = ''agent.example''"
    "sg_keyid sig2 = ''k''" "sg_nonce sig2 = ''n''" "sg_expires sig2 = 200" by (rule demo_accepted)
  have zone: "st_nonce_zone (demo_state x) = x" for x by (simp add: demo_state_def)
  have "nonce_run [(''other'', 5, 150)] (st_nonce_zone st) = ([NONCE_OK], st_nonce_zone (demo_state zone'))" using z(2) a(2) zone by simp
  from no_replay [OF a(1) demo_unseen s1(1) _ a(3,4) _ this _ demo_unseen s2(1)] s1 s2 nonce_init(1) [OF small_store_init]
  have "fst (access_handler demo_env (demo_state zone')) \<noteq> HANDLER_OK" by (simp add: zone time_ok_def demo_conf_def)
  with a z show ?thesis by blast
qed

end
