(* ===== verification/Config.thy ===== *)
theory Config
  imports Module
begin

text \<open>
  The configuration of \<open>src/ngx_http_auth_httpsig_module.c\<close>: the directives and their handlers, the merge of a
  block with its parent and the checks made there, and what is registered for the phases and the workers.

  An unset field (\<open>NGX_CONF_UNSET\<close>, or \<open>NULL\<close>) is \<open>None\<close>.  A handler that does not return \<open>NGX_CONF_OK\<close> stops
  the configuration, so only what an accepted directive leaves behind is returned.  \<open>core\<close> is what the module
  uses of nginx: the slot setters (whose first argument tells whether the slot is set already), the parsers of
  sizes, times and numbers, files, variables, shared memory and the resolver.
\<close>

section \<open>What nginx provides\<close>

text \<open>A file named in the configuration: its size, and what reading that many bytes returns.\<close>

datatype conf_file = FILE_CANNOT_OPEN | FILE_NO_INFO | FILE nat bytes

record 'z core =
  co_enum_slot :: "bool \<Rightarrow> bytes list \<Rightarrow> bytes \<Rightarrow> bytes option"
  co_flag_slot :: "bool \<Rightarrow> bytes \<Rightarrow> bool option"
  co_num_slot :: "bool \<Rightarrow> nat \<times> nat \<Rightarrow> bytes \<Rightarrow> nat option"
  co_sec_slot :: "bool \<Rightarrow> bytes \<Rightarrow> int option"
  co_size_slot :: "bool \<Rightarrow> bytes \<Rightarrow> nat option"
  co_variable_index :: "bytes \<Rightarrow> nat option"
  co_full_name :: "bytes \<Rightarrow> bytes option"
  co_file :: "bytes \<Rightarrow> conf_file"
  co_parse_size :: "bytes \<Rightarrow> int option"
  co_parse_time :: "bytes \<Rightarrow> int option"
  co_atoi :: "bytes \<Rightarrow> int option"
  co_pagesize :: int
  co_shared_memory_add :: "bytes \<Rightarrow> int \<Rightarrow> 'z \<Rightarrow> nat option \<times> 'z"
  co_resolve_host :: "bytes \<Rightarrow> int \<Rightarrow> bytes list option"
  co_have_redis :: bool

section \<open>The configuration being read\<close>

text \<open>What a shared memory zone was set up for: its \<open>init\<close>, with the \<open>data\<close> that goes with it.\<close>

datatype zone_use = ZONE_KEY_CACHE | ZONE_NONCE_STORE

record 'z cycle =
  cf_pool :: pool
  cf_shared :: 'z
  cf_zone_data :: "nat \<Rightarrow> zone_use option"

record main_conf =
  mc_shm_zone :: "nat option"
  mc_dynamic :: bool
  mc_access_used :: bool
  mc_nonce_store_backend :: nonce_backend
  mc_nonce_redis :: "redis_conf option"
  mc_nonce_shm_zone :: "nat option"

record directory_raw =
  dr_allow :: "bytes list option"
  dr_request_uri :: bytes
  dr_max_size :: "nat option"
  dr_cache_min_ttl :: "int option"
  dr_cache_max_ttl :: "int option"
  dr_key_rotation_retry_ttl :: "int option"
  dr_enabled :: bool

record status_raw =
  sr_missing :: "nat option"
  sr_parse_error :: "nat option"
  sr_invalid :: "nat option"
  sr_replay :: "nat option"

record 'jwks loc_raw =
  lr_mode :: "httpsig_mode option"
  lr_scheme_index :: "nat option"
  lr_keyid_fallback_allow :: "bool option"
  lr_require :: "bool option"
  lr_nonce_required :: "bool option"
  lr_nonce_failure_closed :: "bool option"
  lr_nonce_store :: "nonce_backend option"
  lr_jwks_keys :: "'jwks keys option"
  lr_profile_def :: "profile option"
  lr_expires_max :: "int option"
  lr_max_skew :: "int option"
  lr_directory :: directory_raw
  lr_status :: status_raw

datatype conf_failure = CONF_ERROR | CONF_IS_DUPLICATE

definition main_conf_zero :: main_conf where
  "main_conf_zero =
     \<lparr>mc_shm_zone = None, mc_dynamic = False, mc_access_used = False, mc_nonce_store_backend = NONCE_STORE_OFF,
      mc_nonce_redis = None, mc_nonce_shm_zone = None\<rparr>"

definition create_main_conf :: "pool \<Rightarrow> main_conf option \<times> pool" where
  "create_main_conf pool = (case palloc pool of (False, pool) \<Rightarrow> (None, pool) | (True, pool) \<Rightarrow> (Some main_conf_zero, pool))"

definition loc_conf_unset :: "'jwks loc_raw" where
  "loc_conf_unset =
     \<lparr>lr_mode = None, lr_scheme_index = None, lr_keyid_fallback_allow = None, lr_require = None,
      lr_nonce_required = None, lr_nonce_failure_closed = None, lr_nonce_store = None, lr_jwks_keys = None,
      lr_profile_def = None, lr_expires_max = None, lr_max_skew = None,
      lr_directory = \<lparr>dr_allow = None, dr_request_uri = [], dr_max_size = None, dr_cache_min_ttl = None,
        dr_cache_max_ttl = None, dr_key_rotation_retry_ttl = None, dr_enabled = False\<rparr>,
      lr_status = \<lparr>sr_missing = None, sr_parse_error = None, sr_invalid = None, sr_replay = None\<rparr>\<rparr>"

definition create_loc_conf :: "pool \<Rightarrow> 'jwks loc_raw option \<times> pool" where
  "create_loc_conf pool = (case palloc pool of (False, pool) \<Rightarrow> (None, pool) | (True, pool) \<Rightarrow> (Some loc_conf_unset, pool))"

section \<open>Handlers of the directives\<close>

definition cf_palloc :: "'z cycle \<Rightarrow> 'z cycle option" where
  "cf_palloc cf = (case palloc (cf_pool cf) of (False, _) \<Rightarrow> None | (True, pool) \<Rightarrow> Some (cf\<lparr>cf_pool := pool\<rparr>))"

definition set_scheme_var :: "'z core \<Rightarrow> bytes \<Rightarrow> 'jwks loc_raw \<Rightarrow> conf_failure + 'jwks loc_raw" where
  "set_scheme_var core name lcf =
     (if lr_scheme_index lcf \<noteq> None then Inl CONF_IS_DUPLICATE
      else if length name \<le> 1 \<or> hd name \<noteq> CHR ''$'' then Inl CONF_ERROR
      else case co_variable_index core (tl name) of
        None \<Rightarrow> Inl CONF_ERROR
      | Some index \<Rightarrow> Inr (lcf\<lparr>lr_scheme_index := Some index\<rparr>))"

definition set_jwks_file :: "'z core \<Rightarrow> ('json, 'jwks) jwx \<Rightarrow> bytes \<Rightarrow> 'z cycle \<Rightarrow> 'jwks loc_raw \<Rightarrow>
    conf_failure + 'z cycle \<times> 'jwks loc_raw" where
  "set_jwks_file core lib value cf lcf =
     (if lr_jwks_keys lcf \<noteq> None then Inl CONF_IS_DUPLICATE
      else case co_full_name core value of
        None \<Rightarrow> Inl CONF_ERROR
      | Some path \<Rightarrow>
          (case co_file core path of
             FILE len content \<Rightarrow>
               if MAX_JWKS_SIZE < len then Inl CONF_ERROR
               else (case cf_palloc cf of
                  None \<Rightarrow> Inl CONF_ERROR
                | Some cf \<Rightarrow>
                    if length content \<noteq> len then Inl CONF_ERROR
                    else (case load_jwks lib content (cf_pool cf) of
                       (NGX_OK keys, pool) \<Rightarrow>
                         (case cf_palloc (cf\<lparr>cf_pool := pool\<rparr>) of
                            None \<Rightarrow> Inl CONF_ERROR
                          | Some cf \<Rightarrow> Inr (cf, lcf\<lparr>lr_jwks_keys := Some keys\<rparr>))
                     | _ \<Rightarrow> Inl CONF_ERROR))
           | _ \<Rightarrow> Inl CONF_ERROR))"

definition set_profile :: "bytes \<Rightarrow> 'jwks loc_raw \<Rightarrow> conf_failure + 'jwks loc_raw" where
  "set_profile value lcf =
     (if lr_profile_def lcf \<noteq> None then Inl CONF_IS_DUPLICATE
      else case profile_get value of
        None \<Rightarrow> Inl CONF_ERROR
      | Some def \<Rightarrow> Inr (lcf\<lparr>lr_profile_def := Some def\<rparr>))"

definition arg_is_off :: "bytes \<Rightarrow> bool" where
  "arg_is_off value \<longleftrightarrow> length value = 3 \<and> ngx_strncasecmp value ''off'' 3 = 0"

text \<open>The loop over the arguments: each is normalized and pushed to the list.\<close>

fun allow_entries :: "bytes list \<Rightarrow> bytes list \<Rightarrow> pool \<Rightarrow> conf_failure + bytes list \<times> pool" where
  "allow_entries [] allow pool = Inr (allow, pool)"
| "allow_entries (value # values) allow pool =
     (case normalize_host value pool of
        (Inl _, _) \<Rightarrow> Inl CONF_ERROR
      | (Inr normalized, pool) \<Rightarrow>
          (case palloc pool of
             (False, _) \<Rightarrow> Inl CONF_ERROR
           | (True, pool) \<Rightarrow> allow_entries values (allow @ [normalized]) pool))"

definition set_agent_allow :: "bytes list \<Rightarrow> 'z cycle \<Rightarrow> main_conf \<Rightarrow> directory_raw \<Rightarrow>
    conf_failure + 'z cycle \<times> main_conf \<times> directory_raw" where
  "set_agent_allow values cf mcf dir =
     (let is_off = (length values = 1 \<and> arg_is_off (hd values)) in
      if \<not> is_off \<and> (\<exists>value\<in>set values. arg_is_off value) then Inl CONF_ERROR
      else if dr_allow dir \<noteq> None \<and> (is_off \<or> dr_allow dir = Some []) then Inl CONF_ERROR
      else case (case dr_allow dir of None \<Rightarrow> cf_palloc cf | Some _ \<Rightarrow> Some cf) of
        None \<Rightarrow> Inl CONF_ERROR
      | Some cf \<Rightarrow>
          let allow = (case dr_allow dir of None \<Rightarrow> [] | Some allow \<Rightarrow> allow)
          in if is_off then Inr (cf, mcf, dir\<lparr>dr_allow := Some allow\<rparr>)
          else case allow_entries values allow (cf_pool cf) of
            Inl e \<Rightarrow> Inl e
          | Inr (allow, pool) \<Rightarrow> Inr (cf\<lparr>cf_pool := pool\<rparr>, mcf\<lparr>mc_dynamic := True\<rparr>, dir\<lparr>dr_allow := Some allow\<rparr>))"

definition set_key_directory_request :: "bytes \<Rightarrow> directory_raw \<Rightarrow> conf_failure + directory_raw" where
  "set_key_directory_request value dir =
     (if dr_request_uri dir \<noteq> [] then Inl CONF_IS_DUPLICATE
      else if value = [] \<or> hd value \<noteq> CHR ''/'' then Inl CONF_ERROR
      else if \<exists>c\<in>set value. c = CHR ''$'' then Inl CONF_ERROR
      else Inr (dir\<lparr>dr_request_uri := value\<rparr>))"

definition add_zone :: "'z core \<Rightarrow> bytes \<Rightarrow> zone_use \<Rightarrow> 'z cycle \<Rightarrow> conf_failure + nat \<times> 'z cycle" where
  "add_zone core arg use cf =
     (if CHR '':'' \<notin> set arg then Inl CONF_ERROR
      else
        let name = takeWhile (\<lambda>c. c \<noteq> CHR '':'') arg; s = tl (dropWhile (\<lambda>c. c \<noteq> CHR '':'') arg)
        in case co_parse_size core s of
          None \<Rightarrow> Inl CONF_ERROR
        | Some sz \<Rightarrow>
            if sz < 8 * co_pagesize core then Inl CONF_ERROR
            else case co_shared_memory_add core name sz (cf_shared cf) of
              (None, _) \<Rightarrow> Inl CONF_ERROR
            | (Some zone, shared) \<Rightarrow>
                if cf_zone_data cf zone \<noteq> None then Inl CONF_ERROR
                else (case cf_palloc cf of
                   None \<Rightarrow> Inl CONF_ERROR
                 | Some cf \<Rightarrow> Inr (zone, cf\<lparr>cf_shared := shared, cf_zone_data := (cf_zone_data cf)(zone := Some use)\<rparr>)))"

definition set_key_cache_zone :: "'z core \<Rightarrow> bytes \<Rightarrow> 'z cycle \<Rightarrow> main_conf \<Rightarrow> conf_failure + 'z cycle \<times> main_conf" where
  "set_key_cache_zone core arg cf mcf =
     (if mc_shm_zone mcf \<noteq> None then Inl CONF_IS_DUPLICATE
      else case add_zone core arg ZONE_KEY_CACHE cf of
        Inl e \<Rightarrow> Inl CONF_ERROR
      | Inr (zone, cf) \<Rightarrow> Inr (cf, mcf\<lparr>mc_shm_zone := Some zone\<rparr>))"

definition set_nonce_store_zone :: "'z core \<Rightarrow> bytes \<Rightarrow> 'z cycle \<Rightarrow> main_conf \<Rightarrow> conf_failure + 'z cycle \<times> main_conf" where
  "set_nonce_store_zone core arg cf mcf =
     (if mc_nonce_shm_zone mcf \<noteq> None then Inl CONF_IS_DUPLICATE
      else case add_zone core arg ZONE_NONCE_STORE cf of
        Inl e \<Rightarrow> Inl CONF_ERROR
      | Inr (zone, cf) \<Rightarrow> Inr (cf, mcf\<lparr>mc_nonce_shm_zone := Some zone\<rparr>))"

section \<open>The Redis directive\<close>

text \<open>The value behind a parameter's name.\<close>

definition param_value :: "bytes \<Rightarrow> bytes \<Rightarrow> bytes option" where
  "param_value name value = (if take (length name) value = name then Some (drop (length name) value) else None)"

text \<open>A positive number of seconds.\<close>

definition param_time :: "'z core \<Rightarrow> bytes \<Rightarrow> int option" where
  "param_time core s = (case co_parse_time core s of None \<Rightarrow> None | Some timeout \<Rightarrow> if timeout = 0 then None else Some timeout)"

text \<open>One parameter; a host name of \<open>[]\<close> stands for \<open>NULL\<close>.\<close>

definition redis_param :: "'z core \<Rightarrow> bytes \<Rightarrow> redis_conf \<Rightarrow> pool \<Rightarrow> conf_failure + redis_conf \<times> pool" where
  "redis_param core value conf pool =
     (case param_value ''hostname='' value of
        Some s \<Rightarrow>
          if s = [] then Inl CONF_ERROR
          else (case palloc pool of
             (False, _) \<Rightarrow> Inl CONF_ERROR
           | (True, pool) \<Rightarrow> Inr (conf\<lparr>rc_hostname := s\<rparr>, pool))
      | None \<Rightarrow>
     (case param_value ''port='' value of
        Some s \<Rightarrow>
          (case co_atoi core s of
             Some n \<Rightarrow> if n < 1 \<or> 65535 < n then Inl CONF_ERROR else Inr (conf\<lparr>rc_port := n\<rparr>, pool)
           | None \<Rightarrow> Inl CONF_ERROR)
      | None \<Rightarrow>
     (case param_value ''database='' value of
        Some s \<Rightarrow>
          (case co_atoi core s of
             Some n \<Rightarrow> if n < 0 then Inl CONF_ERROR else Inr (conf\<lparr>rc_db := n\<rparr>, pool)
           | None \<Rightarrow> Inl CONF_ERROR)
      | None \<Rightarrow>
     (case param_value ''connect_timeout='' value of
        Some s \<Rightarrow> (case param_time core s of Some t \<Rightarrow> Inr (conf\<lparr>rc_connect_timeout := t\<rparr>, pool) | None \<Rightarrow> Inl CONF_ERROR)
      | None \<Rightarrow>
     (case param_value ''command_timeout='' value of
        Some s \<Rightarrow> (case param_time core s of Some t \<Rightarrow> Inr (conf\<lparr>rc_command_timeout := t\<rparr>, pool) | None \<Rightarrow> Inl CONF_ERROR)
      | None \<Rightarrow>
     (case param_value ''backoff_max='' value of
        Some s \<Rightarrow> (case param_time core s of Some t \<Rightarrow> Inr (conf\<lparr>rc_backoff_max := t\<rparr>, pool) | None \<Rightarrow> Inl CONF_ERROR)
      | None \<Rightarrow> Inl CONF_ERROR))))))"

fun redis_params :: "'z core \<Rightarrow> bytes list \<Rightarrow> redis_conf \<Rightarrow> pool \<Rightarrow> conf_failure + redis_conf \<times> pool" where
  "redis_params core [] conf pool = Inr (conf, pool)"
| "redis_params core (value # values) conf pool =
     (case redis_param core value conf pool of
        Inl e \<Rightarrow> Inl e
      | Inr (conf, pool) \<Rightarrow> redis_params core values conf pool)"

definition redis_conf_default :: redis_conf where
  "redis_conf_default =
     \<lparr>rc_hostname = [], rc_port = 6379, rc_db = 0, rc_connect_timeout = 3, rc_command_timeout = 3, rc_backoff_max = 30\<rparr>"

definition resolve_redis_host :: "'z core \<Rightarrow> redis_conf \<Rightarrow> pool \<Rightarrow> conf_failure + redis_conf \<times> pool" where
  "resolve_redis_host core conf pool =
     (case co_resolve_host core (rc_hostname conf) (rc_port conf) of
        Some (text # _) \<Rightarrow>
          (case palloc pool of
             (False, _) \<Rightarrow> Inl CONF_ERROR
           | (True, pool) \<Rightarrow> Inr (conf\<lparr>rc_hostname := text\<rparr>, pool))
      | _ \<Rightarrow> Inl CONF_ERROR)"

definition set_nonce_store_redis :: "'z core \<Rightarrow> bytes list \<Rightarrow> 'z cycle \<Rightarrow> main_conf \<Rightarrow> conf_failure + 'z cycle \<times> main_conf" where
  "set_nonce_store_redis core values cf mcf =
     (if mc_nonce_redis mcf \<noteq> None then Inl CONF_IS_DUPLICATE
      else case redis_params core values redis_conf_default (cf_pool cf) of
        Inl e \<Rightarrow> Inl e
      | Inr (conf, pool) \<Rightarrow>
          (case (if rc_hostname conf \<noteq> [] then (True, pool) else palloc pool) of
             (False, _) \<Rightarrow> Inl CONF_ERROR
           | (True, pool) \<Rightarrow>
               (case resolve_redis_host core
                       (if rc_hostname conf = [] then conf\<lparr>rc_hostname := ''127.0.0.1''\<rparr> else conf) pool of
                  Inl e \<Rightarrow> Inl e
                | Inr (conf, pool) \<Rightarrow> Inr (cf\<lparr>cf_pool := pool\<rparr>, mcf\<lparr>mc_nonce_redis := Some conf\<rparr>))))"

section \<open>The directives\<close>

definition mode_enum :: "(bytes \<times> httpsig_mode) list" where
  "mode_enum = [(''off'', MODE_OFF), (''observe'', MODE_OBSERVE), (''enforce'', MODE_ENFORCE)]"

definition nonce_store_enum :: "(bytes \<times> nonce_backend) list" where
  "nonce_store_enum = [(''off'', NONCE_STORE_OFF), (''shm'', NONCE_STORE_SHM), (''redis'', NONCE_STORE_REDIS)]"

definition nonce_store_failure_enum :: "(bytes \<times> bool) list" where
  "nonce_store_failure_enum = [(''open'', False), (''closed'', True)]"

definition status_bounds :: "nat \<times> nat" where "status_bounds = (400, 599)"

text \<open>A slot and what its setter makes of it.\<close>

definition set_slot :: "(bool \<Rightarrow> 'a option) \<Rightarrow> 'a option \<Rightarrow> conf_failure + 'a option" where
  "set_slot setter old = (case setter (old \<noteq> None) of None \<Rightarrow> Inl CONF_ERROR | Some v \<Rightarrow> Inr (Some v))"

definition enum_slot :: "'z core \<Rightarrow> (bytes \<times> 'a) list \<Rightarrow> bytes \<Rightarrow> bool \<Rightarrow> 'a option" where
  "enum_slot core table value used =
     (case co_enum_slot core used (map fst table) value of None \<Rightarrow> None | Some name \<Rightarrow> map_of table name)"

text \<open>The directives of the location configuration that concern the directory fetch, and the statuses.\<close>

definition directory_command :: "'z core \<Rightarrow> bytes \<Rightarrow> bytes \<Rightarrow> directory_raw \<Rightarrow> conf_failure + directory_raw" where
  "directory_command core name value dir =
     (if name = ''auth_httpsig_key_directory_request'' then set_key_directory_request value dir
      else if name = ''auth_httpsig_key_directory_max_size'' then
        map_sum id (\<lambda>v. dir\<lparr>dr_max_size := v\<rparr>) (set_slot (\<lambda>used. co_size_slot core used value) (dr_max_size dir))
      else if name = ''auth_httpsig_key_cache_min_ttl'' then
        map_sum id (\<lambda>v. dir\<lparr>dr_cache_min_ttl := v\<rparr>) (set_slot (\<lambda>used. co_sec_slot core used value) (dr_cache_min_ttl dir))
      else if name = ''auth_httpsig_key_cache_max_ttl'' then
        map_sum id (\<lambda>v. dir\<lparr>dr_cache_max_ttl := v\<rparr>) (set_slot (\<lambda>used. co_sec_slot core used value) (dr_cache_max_ttl dir))
      else if name = ''auth_httpsig_key_rotation_retry_ttl'' then
        map_sum id (\<lambda>v. dir\<lparr>dr_key_rotation_retry_ttl := v\<rparr>)
          (set_slot (\<lambda>used. co_sec_slot core used value) (dr_key_rotation_retry_ttl dir))
      else Inl CONF_ERROR)"

definition status_command :: "'z core \<Rightarrow> bytes \<Rightarrow> bytes \<Rightarrow> status_raw \<Rightarrow> conf_failure + status_raw" where
  "status_command core name value status =
     (if name = ''auth_httpsig_status_parse_error'' then
        map_sum id (\<lambda>v. status\<lparr>sr_parse_error := v\<rparr>) (set_slot (\<lambda>used. co_num_slot core used status_bounds value) (sr_parse_error status))
      else if name = ''auth_httpsig_status_missing'' then
        map_sum id (\<lambda>v. status\<lparr>sr_missing := v\<rparr>) (set_slot (\<lambda>used. co_num_slot core used status_bounds value) (sr_missing status))
      else if name = ''auth_httpsig_status_replay'' then
        map_sum id (\<lambda>v. status\<lparr>sr_replay := v\<rparr>) (set_slot (\<lambda>used. co_num_slot core used status_bounds value) (sr_replay status))
      else if name = ''auth_httpsig_status_invalid'' then
        map_sum id (\<lambda>v. status\<lparr>sr_invalid := v\<rparr>) (set_slot (\<lambda>used. co_num_slot core used status_bounds value) (sr_invalid status))
      else Inl CONF_ERROR)"

text \<open>The other slots.\<close>

definition slot_command :: "'z core \<Rightarrow> bytes \<Rightarrow> bytes \<Rightarrow> 'jwks loc_raw \<Rightarrow> conf_failure + 'jwks loc_raw" where
  "slot_command core name value lcf =
     (if name = ''auth_httpsig_mode'' then
        map_sum id (\<lambda>v. lcf\<lparr>lr_mode := v\<rparr>) (set_slot (enum_slot core mode_enum value) (lr_mode lcf))
      else if name = ''auth_httpsig_require'' then
        map_sum id (\<lambda>v. lcf\<lparr>lr_require := v\<rparr>) (set_slot (\<lambda>used. co_flag_slot core used value) (lr_require lcf))
      else if name = ''auth_httpsig_scheme_var'' then set_scheme_var core value lcf
      else if name = ''auth_httpsig_profile'' then set_profile value lcf
      else if name = ''auth_httpsig_expires_max'' then
        map_sum id (\<lambda>v. lcf\<lparr>lr_expires_max := v\<rparr>) (set_slot (\<lambda>used. co_sec_slot core used value) (lr_expires_max lcf))
      else if name = ''auth_httpsig_max_skew'' then
        map_sum id (\<lambda>v. lcf\<lparr>lr_max_skew := v\<rparr>) (set_slot (\<lambda>used. co_sec_slot core used value) (lr_max_skew lcf))
      else if name = ''auth_httpsig_keyid_fallback_allow'' then
        map_sum id (\<lambda>v. lcf\<lparr>lr_keyid_fallback_allow := v\<rparr>) (set_slot (\<lambda>used. co_flag_slot core used value) (lr_keyid_fallback_allow lcf))
      else if name = ''auth_httpsig_nonce_store'' then
        map_sum id (\<lambda>v. lcf\<lparr>lr_nonce_store := v\<rparr>) (set_slot (enum_slot core nonce_store_enum value) (lr_nonce_store lcf))
      else if name = ''auth_httpsig_nonce_store_failure'' then
        map_sum id (\<lambda>v. lcf\<lparr>lr_nonce_failure_closed := v\<rparr>) (set_slot (enum_slot core nonce_store_failure_enum value) (lr_nonce_failure_closed lcf))
      else if name = ''auth_httpsig_nonce_required'' then
        map_sum id (\<lambda>v. lcf\<lparr>lr_nonce_required := v\<rparr>) (set_slot (\<lambda>used. co_flag_slot core used value) (lr_nonce_required lcf))
      else Inl CONF_ERROR)"

definition status_commands :: "bytes list" where
  "status_commands = [''auth_httpsig_status_parse_error'', ''auth_httpsig_status_missing'', ''auth_httpsig_status_replay'',
     ''auth_httpsig_status_invalid'']"

definition directory_commands :: "bytes list" where
  "directory_commands = [''auth_httpsig_key_directory_request'', ''auth_httpsig_key_directory_max_size'',
     ''auth_httpsig_key_cache_min_ttl'', ''auth_httpsig_key_cache_max_ttl'', ''auth_httpsig_key_rotation_retry_ttl'']"

text \<open>
  The entries of the command table with \<open>NGX_HTTP_LOC_CONF_OFFSET\<close>; all but \<open>auth_httpsig_agent_allow\<close> take
  one argument.
\<close>

definition loc_command :: "'z core \<Rightarrow> ('json, 'jwks) jwx \<Rightarrow> bytes \<Rightarrow> bytes list \<Rightarrow> 'z cycle \<Rightarrow> main_conf \<Rightarrow> 'jwks loc_raw \<Rightarrow>
    conf_failure + 'z cycle \<times> main_conf \<times> 'jwks loc_raw" where
  "loc_command core lib name values cf mcf lcf =
     (if name = ''auth_httpsig_agent_allow'' \<and> values \<noteq> [] then
        map_sum id (\<lambda>(cf, mcf, dir). (cf, mcf, lcf\<lparr>lr_directory := dir\<rparr>)) (set_agent_allow values cf mcf (lr_directory lcf))
      else case values of
        [value] \<Rightarrow>
          if name = ''auth_httpsig_jwks_file'' then
            map_sum id (\<lambda>(cf, lcf). (cf, mcf, lcf)) (set_jwks_file core lib value cf lcf)
          else if name \<in> set status_commands then
            map_sum id (\<lambda>status. (cf, mcf, lcf\<lparr>lr_status := status\<rparr>)) (status_command core name value (lr_status lcf))
          else if name \<in> set directory_commands then
            map_sum id (\<lambda>dir. (cf, mcf, lcf\<lparr>lr_directory := dir\<rparr>)) (directory_command core name value (lr_directory lcf))
          else map_sum id (\<lambda>lcf. (cf, mcf, lcf)) (slot_command core name value lcf)
      | _ \<Rightarrow> Inl CONF_ERROR)"

text \<open>The entries with \<open>NGX_HTTP_MAIN_CONF_OFFSET\<close>.\<close>

definition main_command :: "'z core \<Rightarrow> bytes \<Rightarrow> bytes list \<Rightarrow> 'z cycle \<Rightarrow> main_conf \<Rightarrow> conf_failure + 'z cycle \<times> main_conf" where
  "main_command core name values cf mcf =
     (if name = ''auth_httpsig_nonce_store_redis'' \<and> values \<noteq> [] then set_nonce_store_redis core values cf mcf
      else case values of
        [value] \<Rightarrow>
          if name = ''auth_httpsig_key_cache_zone'' then set_key_cache_zone core value cf mcf
          else if name = ''auth_httpsig_nonce_store_zone'' then set_nonce_store_zone core value cf mcf
          else Inl CONF_ERROR
      | _ \<Rightarrow> Inl CONF_ERROR)"

section \<open>Merging a block with its parent\<close>

text \<open>\<open>ngx_conf_merge_value\<close> and its kin of nginx: the block's own value, else the parent's, else the default.\<close>

definition merge_value :: "'a option \<Rightarrow> 'a option \<Rightarrow> 'a \<Rightarrow> 'a option" where
  "merge_value conf prev init = Some (case conf of Some v \<Rightarrow> v | None \<Rightarrow> (case prev of Some v \<Rightarrow> v | None \<Rightarrow> init))"

definition inherit :: "'a option \<Rightarrow> 'a option \<Rightarrow> 'a option" where
  "inherit conf prev = (if conf = None then prev else conf)"

definition merge_status :: "status_raw \<Rightarrow> status_raw \<Rightarrow> status_raw" where
  "merge_status prev conf =
     \<lparr>sr_missing = merge_value (sr_missing conf) (sr_missing prev) 403,
      sr_parse_error = merge_value (sr_parse_error conf) (sr_parse_error prev) 400,
      sr_invalid = merge_value (sr_invalid conf) (sr_invalid prev) 403,
      sr_replay = merge_value (sr_replay conf) (sr_replay prev) 429\<rparr>"

definition directory_enabled :: "directory_raw \<Rightarrow> bool" where
  "directory_enabled dir \<longleftrightarrow> (case dr_allow dir of None \<Rightarrow> False | Some allow \<Rightarrow> 0 < length allow) \<and> 0 < length (dr_request_uri dir)"

definition merge_directory :: "directory_raw \<Rightarrow> directory_raw \<Rightarrow> directory_raw" where
  "merge_directory prev conf =
     (let dir = \<lparr>dr_allow = inherit (dr_allow conf) (dr_allow prev),
                 dr_request_uri = (if dr_request_uri conf = [] then dr_request_uri prev else dr_request_uri conf),
                 dr_max_size = merge_value (dr_max_size conf) (dr_max_size prev) 65536,
                 dr_cache_min_ttl = merge_value (dr_cache_min_ttl conf) (dr_cache_min_ttl prev) 300,
                 dr_cache_max_ttl = merge_value (dr_cache_max_ttl conf) (dr_cache_max_ttl prev) 3600,
                 dr_key_rotation_retry_ttl = merge_value (dr_key_rotation_retry_ttl conf) (dr_key_rotation_retry_ttl prev) 300,
                 dr_enabled = dr_enabled conf\<rparr>
      in dir\<lparr>dr_enabled := directory_enabled dir\<rparr>)"

text \<open>The values up to the checks; \<open>None\<close> when the scheme variable or the default profile is not found.\<close>

definition merge_values :: "'z core \<Rightarrow> 'jwks loc_raw \<Rightarrow> 'jwks loc_raw \<Rightarrow> 'jwks loc_raw option" where
  "merge_values core prev conf =
     (let conf = conf\<lparr>lr_mode := merge_value (lr_mode conf) (lr_mode prev) MODE_OFF,
            lr_keyid_fallback_allow := merge_value (lr_keyid_fallback_allow conf) (lr_keyid_fallback_allow prev) False,
            lr_require := merge_value (lr_require conf) (lr_require prev) False,
            lr_status := merge_status (lr_status prev) (lr_status conf),
            lr_scheme_index := inherit (lr_scheme_index conf) (lr_scheme_index prev)\<rparr>
      in case (case lr_scheme_index conf of None \<Rightarrow> co_variable_index core ''scheme'' | Some i \<Rightarrow> Some i) of
        None \<Rightarrow> None
      | Some index \<Rightarrow>
          let conf = conf\<lparr>lr_scheme_index := Some index,
                lr_jwks_keys := inherit (lr_jwks_keys conf) (lr_jwks_keys prev),
                lr_profile_def := inherit (lr_profile_def conf) (lr_profile_def prev)\<rparr>
          in case (case lr_profile_def conf of None \<Rightarrow> profile_get ''web-bot-auth'' | Some def \<Rightarrow> Some def) of
            None \<Rightarrow> None
          | Some def \<Rightarrow>
              Some (conf\<lparr>lr_profile_def := Some def,
                lr_expires_max := merge_value (lr_expires_max conf) (lr_expires_max prev) (pf_expires_max def),
                lr_max_skew := merge_value (lr_max_skew conf) (lr_max_skew prev) (pf_max_skew def),
                lr_directory := merge_directory (lr_directory prev) (lr_directory conf)\<rparr>))"

text \<open>The checks of the directory; \<open>declared\<close> tells whether the block has its own allow list.\<close>

definition directory_valid :: "main_conf \<Rightarrow> bool \<Rightarrow> directory_raw \<Rightarrow> bool" where
  "directory_valid mcf declared dir \<longleftrightarrow>
     dr_cache_min_ttl dir \<noteq> Some 0 \<and> \<not> the (dr_cache_max_ttl dir) < the (dr_cache_min_ttl dir) \<and>
     dr_key_rotation_retry_ttl dir \<noteq> Some 0 \<and> \<not> MAX_JWKS_SIZE < the (dr_max_size dir) \<and>
     \<not> (declared \<and> 0 < length (the (dr_allow dir)) \<and> (dr_request_uri dir = [] \<or> mc_shm_zone mcf = None))"

text \<open>The one backend of the whole configuration.\<close>

definition select_backend :: "'z core \<Rightarrow> nonce_backend \<Rightarrow> main_conf \<Rightarrow> conf_failure + main_conf" where
  "select_backend core store mcf =
     (if store = NONCE_STORE_OFF then Inr mcf
      else case (if mc_nonce_store_backend mcf = NONCE_STORE_OFF then Inr (mcf\<lparr>mc_nonce_store_backend := store\<rparr>)
                 else if mc_nonce_store_backend mcf \<noteq> store then Inl CONF_ERROR else Inr mcf) of
        Inl e \<Rightarrow> Inl e
      | Inr mcf \<Rightarrow>
          if store = NONCE_STORE_REDIS \<and> \<not> co_have_redis core then Inl CONF_ERROR
          else if store = NONCE_STORE_REDIS \<and> mc_nonce_redis mcf = None then Inl CONF_ERROR
          else if store = NONCE_STORE_SHM \<and> mc_nonce_shm_zone mcf = None then Inl CONF_ERROR
          else Inr mcf)"

definition merge_loc_conf :: "'z core \<Rightarrow> main_conf \<Rightarrow> 'jwks loc_raw \<Rightarrow> 'jwks loc_raw \<Rightarrow> conf_failure + main_conf \<times> 'jwks loc_raw" where
  "merge_loc_conf core mcf prev conf =
     (let declared = (dr_allow (lr_directory conf) \<noteq> None);
          nonce_store_declared = (lr_nonce_store conf \<noteq> None);
          nonce_required_declared = (lr_nonce_required conf \<noteq> None)
      in case merge_values core prev conf of
        None \<Rightarrow> Inl CONF_ERROR
      | Some conf \<Rightarrow>
          if \<not> directory_valid mcf declared (lr_directory conf) then Inl CONF_ERROR
          else if lr_mode conf \<noteq> Some MODE_OFF \<and> lr_jwks_keys conf = None \<and> \<not> dr_enabled (lr_directory conf) then Inl CONF_ERROR
          else if lr_require conf = Some True \<and> lr_mode conf = Some MODE_OFF then Inl CONF_ERROR
          else
            let conf = conf\<lparr>lr_nonce_store := merge_value (lr_nonce_store conf) (lr_nonce_store prev) NONCE_STORE_OFF\<rparr> in
            if nonce_store_declared \<and> lr_nonce_store conf \<noteq> Some NONCE_STORE_OFF \<and> lr_mode conf = Some MODE_OFF then Inl CONF_ERROR
            else
              let conf = conf\<lparr>lr_nonce_required := merge_value (lr_nonce_required conf) (lr_nonce_required prev) False\<rparr> in
              if nonce_required_declared \<and> lr_nonce_required conf = Some True \<and> lr_nonce_store conf = Some NONCE_STORE_OFF then Inl CONF_ERROR
              else
                let conf = conf\<lparr>lr_nonce_failure_closed := merge_value (lr_nonce_failure_closed conf) (lr_nonce_failure_closed prev) False\<rparr>
                in case select_backend core (the (lr_nonce_store conf)) mcf of
                  Inl e \<Rightarrow> Inl e
                | Inr mcf \<Rightarrow>
                    Inr (if lr_mode conf = Some MODE_ENFORCE \<or> lr_require conf = Some True then mcf\<lparr>mc_access_used := True\<rparr> else mcf, conf))"

text \<open>
  The merged configuration as the handlers read it, with \<open>satisfy\<close> of the core module; \<open>None\<close> while a field is
  unset.
\<close>

definition directory_conf_of :: "directory_raw \<Rightarrow> directory_conf option" where
  "directory_conf_of dir =
     (case (dr_max_size dir, dr_cache_min_ttl dir, dr_cache_max_ttl dir, dr_key_rotation_retry_ttl dir) of
        (Some max_size, Some min_ttl, Some max_ttl, Some retry_ttl) \<Rightarrow>
          Some \<lparr>dc_enabled = dr_enabled dir, dc_allow = (case dr_allow dir of None \<Rightarrow> [] | Some allow \<Rightarrow> allow),
                dc_cache_min_ttl = min_ttl, dc_cache_max_ttl = max_ttl, dc_key_rotation_retry_ttl = retry_ttl, dc_max_size = max_size\<rparr>
      | _ \<Rightarrow> None)"

definition status_conf_of :: "status_raw \<Rightarrow> status_conf option" where
  "status_conf_of status =
     (case (sr_missing status, sr_parse_error status, sr_invalid status, sr_replay status) of
        (Some missing, Some parse_error, Some invalid, Some replay) \<Rightarrow>
          Some \<lparr>status_missing = missing, status_parse_error = parse_error, status_invalid = invalid, status_replay = replay\<rparr>
      | _ \<Rightarrow> None)"

definition loc_conf_of :: "bool \<Rightarrow> 'jwks loc_raw \<Rightarrow> 'jwks loc_conf option" where
  "loc_conf_of satisfy_any lcf =
     (case (lr_mode lcf, lr_keyid_fallback_allow lcf, lr_require lcf, lr_nonce_required lcf, lr_nonce_failure_closed lcf) of
        (Some mode, Some fallback, Some require, Some required, Some closed) \<Rightarrow>
          (case (lr_nonce_store lcf, lr_profile_def lcf, lr_expires_max lcf, lr_max_skew lcf,
                 directory_conf_of (lr_directory lcf), status_conf_of (lr_status lcf)) of
             (Some store, Some def, Some expires_max, Some max_skew, Some dir, Some status) \<Rightarrow>
               Some \<lparr>lc_mode = mode, lc_keyid_fallback_allow = fallback, lc_require = require, lc_nonce_required = required,
                     lc_nonce_failure_closed = closed, lc_nonce_store = store, lc_jwks_keys = lr_jwks_keys lcf,
                     lc_profile_def = def, lc_expires_max = expires_max, lc_max_skew = max_skew, lc_directory = dir,
                     lc_status = status, lc_satisfy_any = satisfy_any\<rparr>
           | _ \<Rightarrow> None)
      | _ \<Rightarrow> None)"

section \<open>Registration\<close>

datatype phase_handler = DIRECTORY_HANDLER | ACCESS_HANDLER

text \<open>
  \<open>add_handler\<close> is \<open>nxe_phase_add_handler\<close> of the phase library, a git submodule: whether it accepts the handler.
  The result is what was registered, \<open>None\<close> for \<open>NGX_ERROR\<close>.
\<close>

definition httpsig_init :: "(phase_handler \<Rightarrow> bool) \<Rightarrow> main_conf \<Rightarrow> phase_handler list option" where
  "httpsig_init add_handler mcf =
     (if mc_dynamic mcf \<and> \<not> add_handler DIRECTORY_HANDLER then None
      else if mc_access_used mcf \<and> \<not> add_handler ACCESS_HANDLER then None
      else Some ((if mc_dynamic mcf then [DIRECTORY_HANDLER] else []) @ (if mc_access_used mcf then [ACCESS_HANDLER] else [])))"

text \<open>\<open>None\<close> is \<open>NGX_ERROR\<close>; otherwise the worker's cache, when it has one.\<close>

definition httpsig_init_process :: "main_conf option \<Rightarrow> pool \<Rightarrow> 'jwks keys_cache option option \<times> pool" where
  "httpsig_init_process mcf pool =
     (case mcf of
        None \<Rightarrow> (Some None, pool)
      | Some mcf \<Rightarrow>
          if \<not> mc_dynamic mcf then (Some None, pool)
          else (case kc_create pool of
             (None, pool) \<Rightarrow> (None, pool)
           | (Some keys, pool) \<Rightarrow> (Some (Some keys), pool)))"

text \<open>The end of a worker, in a binary built with Redis: the connection is the only state outside nginx's pools.\<close>

definition httpsig_exit_process :: "redis_state \<Rightarrow> redis_state" where
  "httpsig_exit_process st = redis_close st"

end
