(* ===== verification/Config_Props.thy ===== *)
theory Config_Props
  imports Config Module_Demo Directory_Props
begin

text \<open>
  Which configurations nginx starts with: what holds of every location once the whole configuration is accepted,
  which handlers run for it, what the allow list of a block is, and which check an inherited list escapes.
\<close>

section \<open>Configuring\<close>

text \<open>
  The configuration while it is read.  nginx creates the location configurations, calls a directive's handler on
  one of them, and merges each, once, into its parent, whatever the blocks are; \<open>cs_merged\<close> are those merged.
\<close>

record ('jwks, 'z) conf_state =
  cs_cycle :: "'z cycle"
  cs_main :: main_conf
  cs_loc :: "nat \<Rightarrow> 'jwks loc_raw option"
  cs_merged :: "nat set"

inductive configured :: "'z core \<Rightarrow> ('json, 'jwks) jwx \<Rightarrow> ('jwks, 'z) conf_state \<Rightarrow> bool" for core lib where
  configured_start:
    "create_main_conf pool = (Some mcf, pool') \<Longrightarrow>
     configured core lib \<lparr>cs_cycle = \<lparr>cf_pool = pool', cf_shared = shared, cf_zone_data = \<lambda>_. None\<rparr>, cs_main = mcf,
       cs_loc = \<lambda>_. None, cs_merged = {}\<rparr>"
| configured_create:
    "configured core lib st \<Longrightarrow> cs_loc st loc = None \<Longrightarrow> create_loc_conf (cf_pool (cs_cycle st)) = (Some lcf, pool) \<Longrightarrow>
     configured core lib (st\<lparr>cs_cycle := (cs_cycle st)\<lparr>cf_pool := pool\<rparr>, cs_loc := (cs_loc st)(loc \<mapsto> lcf)\<rparr>)"
| configured_loc:
    "configured core lib st \<Longrightarrow> loc \<notin> cs_merged st \<Longrightarrow> cs_loc st loc = Some lcf \<Longrightarrow>
     loc_command core lib name values (cs_cycle st) (cs_main st) lcf = Inr (cf, mcf, lcf') \<Longrightarrow>
     configured core lib (st\<lparr>cs_cycle := cf, cs_main := mcf, cs_loc := (cs_loc st)(loc \<mapsto> lcf')\<rparr>)"
| configured_main:
    "configured core lib st \<Longrightarrow> main_command core name values (cs_cycle st) (cs_main st) = Inr (cf, mcf) \<Longrightarrow>
     configured core lib (st\<lparr>cs_cycle := cf, cs_main := mcf\<rparr>)"
| configured_merge:
    "configured core lib st \<Longrightarrow> loc \<notin> cs_merged st \<Longrightarrow> cs_loc st parent = Some prev \<Longrightarrow> cs_loc st loc = Some lcf \<Longrightarrow>
     merge_loc_conf core (cs_main st) prev lcf = Inr (mcf, lcf') \<Longrightarrow>
     configured core lib (st\<lparr>cs_main := mcf, cs_loc := (cs_loc st)(loc \<mapsto> lcf'), cs_merged := insert loc (cs_merged st)\<rparr>)"

text \<open>What nginx documents of its setters and parsers: a value within the bounds given, no negative time.\<close>

definition core_ok :: "'z core \<Rightarrow> bool" where
  "core_ok core \<longleftrightarrow>
     (\<forall>used bounds value n. co_num_slot core used bounds value = Some n \<longrightarrow> fst bounds \<le> n \<and> n \<le> snd bounds) \<and>
     (\<forall>used value t. co_sec_slot core used value = Some t \<longrightarrow> 0 \<le> t) \<and>
     (\<forall>s t. co_parse_time core s = Some t \<longrightarrow> 0 \<le> t)"

section \<open>What every directive keeps\<close>

definition within :: "('a \<Rightarrow> bool) \<Rightarrow> 'a option \<Rightarrow> bool" where
  "within P v \<longleftrightarrow> (\<forall>x. v = Some x \<longrightarrow> P x)"

lemma within_simps [simp]: "within P None" "within P (Some x) \<longleftrightarrow> P x"
  by (simp_all add: within_def)

lemma within_merge [intro]: "within P conf \<Longrightarrow> within P prev \<Longrightarrow> P x \<Longrightarrow> within P (merge_value conf prev x)"
  by (auto simp: merge_value_def split: option.split)

lemma within_inherit [intro]: "within P conf \<Longrightarrow> within P prev \<Longrightarrow> within P (inherit conf prev)"
  by (simp add: inherit_def)

lemma set_slot_within:
  "set_slot setter old = Inr v \<Longrightarrow> (\<And>used x. setter used = Some x \<Longrightarrow> P x) \<Longrightarrow> within P v"
  by (cases "setter (old \<noteq> None)") (auto simp: set_slot_def)

definition normalized :: "bytes \<Rightarrow> bool" where
  "normalized h \<longleftrightarrow> (\<exists>value pool. fst (normalize_host value pool) = Inr h)"

definition loaded :: "('json, 'jwks) jwx \<Rightarrow> 'jwks keys \<Rightarrow> bool" where
  "loaded lib keys \<longleftrightarrow> (\<exists>content pool. fst (load_jwks lib content pool) = NGX_OK keys)"

definition status_fine :: "status_raw \<Rightarrow> bool" where
  "status_fine s \<longleftrightarrow> (let ok = within (\<lambda>n. 400 \<le> n \<and> n \<le> 599)
     in ok (sr_missing s) \<and> ok (sr_parse_error s) \<and> ok (sr_invalid s) \<and> ok (sr_replay s))"

definition directory_fine :: "main_conf \<Rightarrow> directory_raw \<Rightarrow> bool" where
  "directory_fine mcf d \<longleftrightarrow>
     within ((\<le>) 0) (dr_cache_min_ttl d) \<and> within ((\<le>) 0) (dr_cache_max_ttl d) \<and> within ((\<le>) 0) (dr_key_rotation_retry_ttl d) \<and>
     within (\<lambda>allow. (\<forall>h\<in>set allow. normalized h) \<and> (allow \<noteq> [] \<longrightarrow> mc_dynamic mcf)) (dr_allow d)"

definition location_fine :: "('json, 'jwks) jwx \<Rightarrow> main_conf \<Rightarrow> 'jwks loc_raw \<Rightarrow> bool" where
  "location_fine lib mcf c \<longleftrightarrow> status_fine (lr_status c) \<and> directory_fine mcf (lr_directory c) \<and> within (loaded lib) (lr_jwks_keys c)"

lemma location_fine_unset: "location_fine lib mcf loc_conf_unset"
  by (simp add: location_fine_def status_fine_def directory_fine_def loc_conf_unset_def)

text \<open>What the main configuration only gains.\<close>

definition grows :: "main_conf \<Rightarrow> main_conf \<Rightarrow> bool" where
  "grows m m' \<longleftrightarrow> (mc_dynamic m \<longrightarrow> mc_dynamic m') \<and> (mc_access_used m \<longrightarrow> mc_access_used m') \<and>
     (mc_shm_zone m \<noteq> None \<longrightarrow> mc_shm_zone m' = mc_shm_zone m) \<and>
     (mc_nonce_shm_zone m \<noteq> None \<longrightarrow> mc_nonce_shm_zone m' = mc_nonce_shm_zone m) \<and>
     (mc_nonce_redis m \<noteq> None \<longrightarrow> mc_nonce_redis m' = mc_nonce_redis m) \<and>
     (mc_nonce_store_backend m \<noteq> NONCE_STORE_OFF \<longrightarrow> mc_nonce_store_backend m' = mc_nonce_store_backend m)"

lemma grows_refl [simp]: "grows m m"
  by (simp add: grows_def)

lemma directory_fine_grows: "directory_fine m d \<Longrightarrow> grows m m' \<Longrightarrow> directory_fine m' d"
  by (auto simp: directory_fine_def grows_def within_def)

lemma location_fine_grows: "location_fine lib m c \<Longrightarrow> grows m m' \<Longrightarrow> location_fine lib m' c"
  by (auto simp: location_fine_def intro: directory_fine_grows)

lemma map_sum_Inr [simp]: "map_sum id f s = Inr y \<longleftrightarrow> (\<exists>x. s = Inr x \<and> y = f x)"
  by (cases s) auto

lemma status_command_fine:
  "core_ok core \<Longrightarrow> status_command core name value s = Inr s' \<Longrightarrow> status_fine s \<Longrightarrow> status_fine s'"
  unfolding status_command_def status_fine_def Let_def core_ok_def status_bounds_def
  by (auto split: if_splits elim!: set_slot_within)

lemma directory_command_fine:
  assumes "core_ok core" and "directory_command core name value d = Inr d'" and "directory_fine mcf d"
  shows "directory_fine mcf d'"
proof -
  have t: "within ((\<le>) 0) v" if "set_slot (\<lambda>used. co_sec_slot core used value) old = Inr v" for old v
    by (rule set_slot_within [OF that]) (use assms(1) in \<open>auto simp: core_ok_def\<close>)
  show ?thesis
    using assms(2,3) t
    by (auto simp: directory_command_def directory_fine_def set_key_directory_request_def split: if_splits)
qed

lemma slot_command_fine:
  "slot_command core name value c = Inr c' \<Longrightarrow> location_fine lib mcf c \<Longrightarrow> location_fine lib mcf c'"
  by (auto simp: slot_command_def location_fine_def set_scheme_var_def set_profile_def split: if_splits option.splits)

lemma cf_palloc_data: "cf_palloc cf = Some cf' \<Longrightarrow> cf_zone_data cf' = cf_zone_data cf"
  by (auto simp: cf_palloc_def split: prod.splits bool.splits)

lemma set_jwks_file_fine:
  "set_jwks_file core lib value cf c = Inr (cf', c') \<Longrightarrow> location_fine lib mcf c \<Longrightarrow>
   location_fine lib mcf c' \<and> cf_zone_data cf' = cf_zone_data cf"
  unfolding set_jwks_file_def location_fine_def loaded_def
  by (auto split: if_splits option.splits conf_file.splits prod.splits rc.splits dest!: cf_palloc_data) (metis fst_conv)

lemma allow_entries_append:
  "allow_entries values allow pool = Inr (allow', pool') \<Longrightarrow>
   \<exists>new. allow' = allow @ new \<and> list_all2 (\<lambda>v h. \<exists>p. fst (normalize_host v p) = Inr h) values new"
proof (induction "values" allow pool rule: allow_entries.induct)
  case (2 v vs allow pool)
  obtain h p where n: "normalize_host v pool = (Inr h, p)"
    using 2(2) by (cases "normalize_host v pool") (auto split: sum.splits)
  obtain q where p: "palloc p = (True, q)" using 2(2) n by (cases "palloc p") (auto split: bool.splits)
  from 2(2) n p have "allow_entries vs (allow @ [h]) q = Inr (allow', pool')" by simp
  from 2(1) [OF n [symmetric] refl p [symmetric] refl this] obtain new where
    "allow' = allow @ h # new" "list_all2 (\<lambda>v h. \<exists>p. fst (normalize_host v p) = Inr h) vs new" by auto
  with n show ?case by (intro exI [of _ "h # new"]) (auto intro: exI [of _ pool])
qed simp

lemma set_agent_allow_cases:
  assumes "set_agent_allow values cf mcf dir = Inr (cf', mcf', dir')"
  shows "cf_zone_data cf' = cf_zone_data cf \<and>
    (length values = 1 \<and> arg_is_off (hd values) \<and> dr_allow dir = None \<and> mcf' = mcf \<and> dir' = dir\<lparr>dr_allow := Some []\<rparr> \<or>
     (\<forall>v\<in>set values. \<not> arg_is_off v) \<and> dr_allow dir \<noteq> Some [] \<and> mcf' = mcf\<lparr>mc_dynamic := True\<rparr> \<and>
     (\<exists>new. dir' = dir\<lparr>dr_allow := Some ((case dr_allow dir of None \<Rightarrow> [] | Some allow \<Rightarrow> allow) @ new)\<rparr> \<and>
        list_all2 (\<lambda>v h. \<exists>p. fst (normalize_host v p) = Inr h) values new))"
proof -
  let ?off = "length values = 1 \<and> arg_is_off (hd values)"
  let ?allow = "case dr_allow dir of None \<Rightarrow> [] | Some allow \<Rightarrow> allow"
  from assms have g: "?off \<or> (\<forall>v\<in>set values. \<not> arg_is_off v)" "dr_allow dir \<noteq> None \<Longrightarrow> \<not> ?off \<and> dr_allow dir \<noteq> Some []"
    by (auto simp: set_agent_allow_def Let_def split: if_splits)
  obtain cf1 where c: "(case dr_allow dir of None \<Rightarrow> cf_palloc cf | Some _ \<Rightarrow> Some cf) = Some cf1"
    using assms g by (cases "case dr_allow dir of None \<Rightarrow> cf_palloc cf | Some _ \<Rightarrow> Some cf") (auto simp: set_agent_allow_def Let_def split: if_splits)
  then have d: "cf_zone_data cf1 = cf_zone_data cf" by (auto split: option.splits dest: cf_palloc_data)
  show ?thesis
  proof (cases ?off)
    case True
    with g(2) have "dr_allow dir = None" by (cases "dr_allow dir") auto
    with True assms c have "cf' = cf1" "mcf' = mcf" "dir' = dir\<lparr>dr_allow := Some []\<rparr>"
      by (simp_all add: set_agent_allow_def Let_def)
    with True \<open>dr_allow dir = None\<close> d show ?thesis by simp
  next
    case False
    have "set_agent_allow values cf mcf dir =
      (case allow_entries values ?allow (cf_pool cf1) of
         Inl e \<Rightarrow> Inl e
       | Inr (allow, pool) \<Rightarrow> Inr (cf1\<lparr>cf_pool := pool\<rparr>, mcf\<lparr>mc_dynamic := True\<rparr>, dir\<lparr>dr_allow := Some allow\<rparr>))"
      unfolding set_agent_allow_def Let_def c using False g by (simp only: if_False option.case) auto
    with assms obtain allow pool where a: "allow_entries values ?allow (cf_pool cf1) = Inr (allow, pool)"
      "cf' = cf1\<lparr>cf_pool := pool\<rparr>" "mcf' = mcf\<lparr>mc_dynamic := True\<rparr>" "dir' = dir\<lparr>dr_allow := Some allow\<rparr>"
      by (cases "allow_entries values ?allow (cf_pool cf1)") auto
    from allow_entries_append [OF a(1)] obtain new where "allow = ?allow @ new"
      "list_all2 (\<lambda>v h. \<exists>p. fst (normalize_host v p) = Inr h) values new" by blast
    moreover have "\<forall>v\<in>set values. \<not> arg_is_off v" "dr_allow dir \<noteq> Some []" using g False by blast+
    ultimately show ?thesis using a(2-4) d by simp blast
  qed
qed

lemma set_agent_allow_fine:
  assumes "set_agent_allow values cf mcf dir = Inr (cf', mcf', dir')" and "directory_fine mcf dir"
  shows "directory_fine mcf' dir' \<and> grows mcf mcf' \<and> cf_zone_data cf' = cf_zone_data cf \<and> (mcf' = mcf \<or> mcf' = mcf\<lparr>mc_dynamic := True\<rparr>)"
proof -
  have n: "\<forall>h\<in>set new. normalized h" if "list_all2 (\<lambda>v h. \<exists>p. fst (normalize_host v p) = Inr h) values new" for new
    using that by (induction rule: list_all2_induct) (auto simp: normalized_def)
  from set_agent_allow_cases [OF assms(1)] assms(2) show ?thesis
    by (auto simp: directory_fine_def grows_def within_def dest!: n split: option.splits)
qed

lemma loc_command_fine:
  assumes "core_ok core" and "loc_command core lib name values cf mcf c = Inr (cf', mcf', c')" and "location_fine lib mcf c"
  shows "location_fine lib mcf' c' \<and> grows mcf mcf' \<and> cf_zone_data cf' = cf_zone_data cf \<and> (mcf' = mcf \<or> mcf' = mcf\<lparr>mc_dynamic := True\<rparr>)"
proof (cases "name = ''auth_httpsig_agent_allow'' \<and> values \<noteq> []")
  case True
  with assms(2) obtain dir where d: "set_agent_allow values cf mcf (lr_directory c) = Inr (cf', mcf', dir)"
    "c' = c\<lparr>lr_directory := dir\<rparr>" by (auto simp: loc_command_def)
  from set_agent_allow_fine [OF d(1)] assms(3) d(2) show ?thesis by (auto simp: location_fine_def)
next
  case False
  with assms(2) obtain v where v: "values = [v]" by (auto simp: loc_command_def split: list.splits)
  note run = assms(2) [unfolded loc_command_def v]
  show ?thesis
  proof (cases "name = ''auth_httpsig_jwks_file''")
    case True
    with run False v assms(3) show ?thesis by (auto dest!: set_jwks_file_fine)
  next
    case no: False
    with run False v have "mcf' = mcf" "cf' = cf" by (auto split: if_splits)
    moreover have "location_fine lib mcf c'"
      using run no False v assms(3) status_command_fine [OF assms(1)] directory_command_fine [OF assms(1)]
      by (auto simp: location_fine_def split: if_splits dest: slot_command_fine [unfolded location_fine_def])
    ultimately show ?thesis by simp
  qed
qed

text \<open>The directives of the main configuration.\<close>

definition redis_conf_ok :: "redis_conf \<Rightarrow> bool" where
  "redis_conf_ok conf \<longleftrightarrow> 1 \<le> rc_port conf \<and> rc_port conf \<le> 65535 \<and> 0 \<le> rc_db conf \<and> 0 < rc_connect_timeout conf \<and>
     0 < rc_command_timeout conf \<and> 0 < rc_backoff_max conf"

lemma redis_param_ok:
  assumes "core_ok core" and "redis_param core value conf pool = Inr (conf', pool')" and "redis_conf_ok conf"
  shows "redis_conf_ok conf'"
proof -
  have t: "param_time core s = Some t \<Longrightarrow> 0 < t" for s t
    using assms(1) by (fastforce simp: param_time_def core_ok_def split: option.splits if_splits)
  show ?thesis
    using assms(2,3) t by (auto simp: redis_param_def redis_conf_ok_def split: option.splits if_splits prod.splits bool.splits)
qed

lemma redis_params_ok:
  "core_ok core \<Longrightarrow> redis_params core values conf pool = Inr (conf', pool') \<Longrightarrow> redis_conf_ok conf \<Longrightarrow> redis_conf_ok conf'"
  by (induction core "values" conf pool rule: redis_params.induct) (auto split: sum.splits prod.splits dest: redis_param_ok)

text \<open>The zones the main configuration names are set up, each for its own use.\<close>

definition main_fine :: "'z cycle \<Rightarrow> main_conf \<Rightarrow> bool" where
  "main_fine cf mcf \<longleftrightarrow>
     within (\<lambda>z. cf_zone_data cf z = Some ZONE_KEY_CACHE) (mc_shm_zone mcf) \<and>
     within (\<lambda>z. cf_zone_data cf z = Some ZONE_NONCE_STORE) (mc_nonce_shm_zone mcf) \<and>
     within redis_conf_ok (mc_nonce_redis mcf)"

lemma add_zone_data:
  "add_zone core arg use cf = Inr (z, cf') \<Longrightarrow> cf_zone_data cf z = None \<and> cf_zone_data cf' = (cf_zone_data cf)(z \<mapsto> use)"
  by (auto simp: add_zone_def Let_def split: if_splits option.splits prod.splits dest!: cf_palloc_data)

lemma set_zones_fine:
  assumes "main_fine cf mcf"
  shows "set_key_cache_zone core arg cf mcf = Inr (cf', mcf') \<Longrightarrow> main_fine cf' mcf' \<and> grows mcf mcf'"
    and "set_nonce_store_zone core arg cf mcf = Inr (cf', mcf') \<Longrightarrow> main_fine cf' mcf' \<and> grows mcf mcf'"
  using assms
  by (auto simp: set_key_cache_zone_def set_nonce_store_zone_def main_fine_def grows_def within_def
      split: if_splits sum.splits prod.splits dest!: add_zone_data)

lemma set_nonce_store_redis_fine:
  assumes "core_ok core" and "set_nonce_store_redis core values cf mcf = Inr (cf', mcf')" and "main_fine cf mcf"
  shows "main_fine cf' mcf' \<and> grows mcf mcf'"
proof -
  from assms(2) obtain conf pool where p: "redis_params core values redis_conf_default (cf_pool cf) = Inr (conf, pool)"
    "mc_nonce_redis mcf = None" by (auto simp: set_nonce_store_redis_def split: if_splits sum.splits)
  have "redis_conf_ok conf"
    by (rule redis_params_ok [OF assms(1) p(1)]) (simp add: redis_conf_ok_def redis_conf_default_def)
  moreover from assms(2) p obtain host pool' where "cf' = cf\<lparr>cf_pool := pool'\<rparr>"
      "mcf' = mcf\<lparr>mc_nonce_redis := Some (conf\<lparr>rc_hostname := host\<rparr>)\<rparr>"
    by (auto simp: set_nonce_store_redis_def resolve_redis_host_def
        split: if_splits sum.splits option.splits prod.splits list.splits bool.splits)
  ultimately show ?thesis using assms(3) p(2) by (auto simp: main_fine_def grows_def within_def redis_conf_ok_def)
qed

lemma main_command_fine:
  assumes "core_ok core" and "main_command core name values cf mcf = Inr (cf', mcf')" and "main_fine cf mcf"
  shows "main_fine cf' mcf' \<and> grows mcf mcf'"
  using assms(2) set_zones_fine [OF assms(3)] set_nonce_store_redis_fine [OF assms(1) _ assms(3)]
  by (fastforce simp: main_command_def split: if_splits list.splits)

section \<open>What the merge guarantees\<close>

text \<open>A location the handlers may be run with; \<open>mcf\<close> is the main configuration.\<close>

definition location_sound :: "('json, 'jwks) jwx \<Rightarrow> main_conf \<Rightarrow> 'jwks loc_conf \<Rightarrow> bool" where
  "location_sound lib mcf lcf \<longleftrightarrow>
     (let dc = lc_directory lcf; st = lc_status lcf in
      0 < dc_cache_min_ttl dc \<and> dc_cache_min_ttl dc \<le> dc_cache_max_ttl dc \<and> 0 < dc_key_rotation_retry_ttl dc \<and>
      dc_max_size dc \<le> MAX_JWKS_SIZE \<and>
      {status_missing st, status_parse_error st, status_invalid st, status_replay st} \<subseteq> {400..599} \<and>
      within (loaded lib) (lc_jwks_keys lcf) \<and>
      (lc_mode lcf \<noteq> MODE_OFF \<longrightarrow> lc_jwks_keys lcf \<noteq> None \<or> dc_enabled dc) \<and>
      (lc_require lcf \<longrightarrow> lc_mode lcf \<noteq> MODE_OFF) \<and>
      (lc_mode lcf = MODE_ENFORCE \<or> lc_require lcf \<longrightarrow> mc_access_used mcf) \<and>
      (dc_enabled dc \<longrightarrow> mc_dynamic mcf \<and> dc_allow dc \<noteq> [] \<and> (\<forall>h\<in>set (dc_allow dc). normalized h)) \<and>
      (lc_nonce_store lcf \<noteq> NONCE_STORE_OFF \<longrightarrow> mc_nonce_store_backend mcf = lc_nonce_store lcf) \<and>
      (lc_nonce_store lcf = NONCE_STORE_SHM \<longrightarrow> mc_nonce_shm_zone mcf \<noteq> None) \<and>
      (lc_nonce_store lcf = NONCE_STORE_REDIS \<longrightarrow> mc_nonce_redis mcf \<noteq> None))"

lemma location_sound_grows: "location_sound lib m lcf \<Longrightarrow> grows m m' \<Longrightarrow> location_sound lib m' lcf"
  unfolding location_sound_def grows_def Let_def by auto

lemma select_backend_grows:
  assumes "select_backend core store mcf = Inr mcf'"
  shows "grows mcf mcf' \<and> mc_shm_zone mcf' = mc_shm_zone mcf \<and> mc_nonce_shm_zone mcf' = mc_nonce_shm_zone mcf \<and>
    mc_nonce_redis mcf' = mc_nonce_redis mcf \<and> (store \<noteq> NONCE_STORE_OFF \<longrightarrow> mc_nonce_store_backend mcf' = store) \<and>
    (store = NONCE_STORE_SHM \<longrightarrow> mc_nonce_shm_zone mcf' \<noteq> None) \<and> (store = NONCE_STORE_REDIS \<longrightarrow> mc_nonce_redis mcf' \<noteq> None)"
  using assms by (auto simp: select_backend_def grows_def split: if_splits)

lemma merge_value_Some: "\<exists>v. merge_value a b x = Some v"
  by (simp add: merge_value_def)

text \<open>The values before the checks are complete and still fine.\<close>

lemma merge_values_shape:
  assumes "merge_values core prev conf = Some c"
  shows "lr_mode c = merge_value (lr_mode conf) (lr_mode prev) MODE_OFF"
    and "lr_require c = merge_value (lr_require conf) (lr_require prev) False"
    and "lr_keyid_fallback_allow c = merge_value (lr_keyid_fallback_allow conf) (lr_keyid_fallback_allow prev) False"
    and "lr_status c = merge_status (lr_status prev) (lr_status conf)"
    and "lr_directory c = merge_directory (lr_directory prev) (lr_directory conf)"
    and "lr_jwks_keys c = inherit (lr_jwks_keys conf) (lr_jwks_keys prev)"
    and "lr_profile_def c \<noteq> None" and "lr_expires_max c \<noteq> None" and "lr_max_skew c \<noteq> None"
proof -
  let ?i = "inherit (lr_scheme_index conf) (lr_scheme_index prev)" and ?d = "inherit (lr_profile_def conf) (lr_profile_def prev)"
  obtain i where i: "(case ?i of None \<Rightarrow> co_variable_index core ''scheme'' | Some i \<Rightarrow> Some i) = Some i"
    using assms by (cases "case ?i of None \<Rightarrow> co_variable_index core ''scheme'' | Some i \<Rightarrow> Some i") (simp_all add: merge_values_def Let_def)
  obtain d where d: "(case ?d of None \<Rightarrow> profile_get ''web-bot-auth'' | Some d \<Rightarrow> Some d) = Some d"
    using assms i by (cases "case ?d of None \<Rightarrow> profile_get ''web-bot-auth'' | Some d \<Rightarrow> Some d") (simp_all add: merge_values_def Let_def)
  from assms i d
  show "lr_mode c = merge_value (lr_mode conf) (lr_mode prev) MODE_OFF"
    and "lr_require c = merge_value (lr_require conf) (lr_require prev) False"
    and "lr_keyid_fallback_allow c = merge_value (lr_keyid_fallback_allow conf) (lr_keyid_fallback_allow prev) False"
    and "lr_status c = merge_status (lr_status prev) (lr_status conf)"
    and "lr_directory c = merge_directory (lr_directory prev) (lr_directory conf)"
    and "lr_jwks_keys c = inherit (lr_jwks_keys conf) (lr_jwks_keys prev)"
    and "lr_profile_def c \<noteq> None" and "lr_expires_max c \<noteq> None" and "lr_max_skew c \<noteq> None"
    by (auto simp: merge_values_def Let_def merge_value_def [of "lr_expires_max conf"] merge_value_def [of "lr_max_skew conf"])
qed

lemma merge_values_fine:
  assumes "merge_values core prev conf = Some c" and "location_fine lib mcf prev" and "location_fine lib mcf conf"
  shows "location_fine lib mcf c"
  using assms(2,3) unfolding location_fine_def merge_values_shape(4-6) [OF assms(1)]
  by (auto simp: status_fine_def merge_status_def directory_fine_def merge_directory_def Let_def)

lemma merge_loc_conf_OK:
  assumes "merge_loc_conf core mcf prev conf = Inr (mcf', c)"
  obtains c0 store mcf0 where "merge_values core prev conf = Some c0" "directory_valid mcf (dr_allow (lr_directory conf) \<noteq> None) (lr_directory c0)"
    "lr_mode c0 = Some MODE_OFF \<or> lr_jwks_keys c0 \<noteq> None \<or> dr_enabled (lr_directory c0)"
    "lr_require c0 = Some True \<Longrightarrow> lr_mode c0 \<noteq> Some MODE_OFF"
    "select_backend core store mcf = Inr mcf0"
    "mcf' = (if lr_mode c0 = Some MODE_ENFORCE \<or> lr_require c0 = Some True then mcf0\<lparr>mc_access_used := True\<rparr> else mcf0)"
    "\<exists>required closed. c = c0\<lparr>lr_nonce_store := Some store, lr_nonce_required := Some required, lr_nonce_failure_closed := Some closed\<rparr>"
proof -
  obtain c0 where c0: "merge_values core prev conf = Some c0"
    using assms by (cases "merge_values core prev conf") (simp_all add: merge_loc_conf_def)
  obtain store where st: "merge_value (lr_nonce_store conf) (lr_nonce_store prev) NONCE_STORE_OFF = Some store"
    using merge_value_Some [of "lr_nonce_store conf"] by blast
  have same: "lr_nonce_store c0 = lr_nonce_store conf" "lr_nonce_required c0 = lr_nonce_required conf"
    "lr_nonce_failure_closed c0 = lr_nonce_failure_closed conf"
    using c0 by (auto simp: merge_values_def Let_def split: option.splits)
  obtain required closed where rq: "merge_value (lr_nonce_required conf) (lr_nonce_required prev) False = Some required"
    "merge_value (lr_nonce_failure_closed conf) (lr_nonce_failure_closed prev) False = Some closed"
    using merge_value_Some [of "lr_nonce_required conf"] merge_value_Some [of "lr_nonce_failure_closed conf"] by blast
  obtain mcf0 where b: "select_backend core store mcf = Inr mcf0"
    using assms c0 st same by (cases "select_backend core store mcf") (auto simp: merge_loc_conf_def Let_def split: if_splits)
  show ?thesis
    by (rule that [OF c0 _ _ _ b])
      (use assms c0 st same rq b in \<open>auto simp: merge_loc_conf_def Let_def split: if_splits\<close>)
qed

text \<open>What a location becomes: complete, and sound.\<close>

definition ready :: "('json, 'jwks) jwx \<Rightarrow> main_conf \<Rightarrow> 'jwks loc_raw \<Rightarrow> bool" where
  "ready lib mcf c \<longleftrightarrow> (\<forall>satisfy_any. \<exists>lcf. loc_conf_of satisfy_any c = Some lcf \<and> location_sound lib mcf lcf)"

lemma ready_grows: "ready lib m c \<Longrightarrow> grows m m' \<Longrightarrow> ready lib m' c"
  unfolding ready_def using location_sound_grows by blast

lemma grows_trans: "grows a b \<Longrightarrow> grows b c \<Longrightarrow> grows a c"
  unfolding grows_def by metis

lemma merge_directory_complete:
  "\<exists>min_ttl max_ttl retry size. dr_cache_min_ttl (merge_directory prev conf) = Some min_ttl \<and> dr_cache_max_ttl (merge_directory prev conf) = Some max_ttl \<and>
     dr_key_rotation_retry_ttl (merge_directory prev conf) = Some retry \<and> dr_max_size (merge_directory prev conf) = Some size \<and>
     dr_enabled (merge_directory prev conf) = directory_enabled (merge_directory prev conf)"
  by (simp add: merge_directory_def Let_def merge_value_def directory_enabled_def)

lemma merge_keeps:
  assumes "merge_loc_conf core mcf prev conf = Inr (mcf', c)" and "location_fine lib mcf prev" and "location_fine lib mcf conf"
  shows "location_fine lib mcf' c" and "grows mcf mcf'" and "main_fine cf mcf \<Longrightarrow> main_fine cf mcf'"
proof -
  from assms(1) obtain c0 store mcf0 required closed where m: "merge_values core prev conf = Some c0"
      "select_backend core store mcf = Inr mcf0"
      "mcf' = (if lr_mode c0 = Some MODE_ENFORCE \<or> lr_require c0 = Some True then mcf0\<lparr>mc_access_used := True\<rparr> else mcf0)"
      "c = c0\<lparr>lr_nonce_store := Some store, lr_nonce_required := Some required, lr_nonce_failure_closed := Some closed\<rparr>"
    by (rule merge_loc_conf_OK) blast
  have f0: "location_fine lib mcf c0" by (rule merge_values_fine [OF m(1) assms(2,3)])
  note b = select_backend_grows [OF m(2)]
  show g: "grows mcf mcf'" using b m(3) by (auto simp: grows_def)
  from location_fine_grows [OF f0 g] show "location_fine lib mcf' c" using m(4) by (simp add: location_fine_def)
  show "main_fine cf mcf'" if "main_fine cf mcf" using that b m(3) by (simp add: main_fine_def)
qed

text \<open>No field is unset after the merge.\<close>

lemma merge_values_complete:
  assumes "merge_values core prev conf = Some c0"
  obtains mode require fallback missing parse_error invalid replay def expires_max skew where
    "lr_mode c0 = Some mode" "lr_require c0 = Some require" "lr_keyid_fallback_allow c0 = Some fallback"
    "lr_profile_def c0 = Some def" "lr_expires_max c0 = Some expires_max" "lr_max_skew c0 = Some skew"
    "sr_missing (lr_status c0) = Some missing" "sr_parse_error (lr_status c0) = Some parse_error"
    "sr_invalid (lr_status c0) = Some invalid" "sr_replay (lr_status c0) = Some replay"
proof -
  note shape = merge_values_shape [OF assms]
  obtain mode where mode: "lr_mode c0 = Some mode" using shape(1) by (auto simp: merge_value_def)
  obtain require where require: "lr_require c0 = Some require" using shape(2) by (auto simp: merge_value_def)
  obtain fallback where fallback: "lr_keyid_fallback_allow c0 = Some fallback" using shape(3) by (auto simp: merge_value_def)
  obtain a1 a2 a3 a4 where s: "sr_missing (lr_status c0) = Some a1" "sr_parse_error (lr_status c0) = Some a2"
      "sr_invalid (lr_status c0) = Some a3" "sr_replay (lr_status c0) = Some a4"
    unfolding shape(4) by (auto simp: merge_status_def merge_value_def)
  obtain def expires_max skew where "lr_profile_def c0 = Some def" "lr_expires_max c0 = Some expires_max" "lr_max_skew c0 = Some skew"
    using shape(7-9) by auto
  from that [OF mode require fallback this s] show thesis .
qed

lemma merge_ready:
  assumes "merge_loc_conf core mcf prev conf = Inr (mcf', c)" and "location_fine lib mcf prev" and "location_fine lib mcf conf"
  shows "ready lib mcf' c"
proof -
  from assms(1) obtain c0 store mcf0 required closed where m: "merge_values core prev conf = Some c0"
      "directory_valid mcf (dr_allow (lr_directory conf) \<noteq> None) (lr_directory c0)"
      "lr_mode c0 = Some MODE_OFF \<or> lr_jwks_keys c0 \<noteq> None \<or> dr_enabled (lr_directory c0)"
      "lr_require c0 = Some True \<Longrightarrow> lr_mode c0 \<noteq> Some MODE_OFF"
      "select_backend core store mcf = Inr mcf0"
      "mcf' = (if lr_mode c0 = Some MODE_ENFORCE \<or> lr_require c0 = Some True then mcf0\<lparr>mc_access_used := True\<rparr> else mcf0)"
      "c = c0\<lparr>lr_nonce_store := Some store, lr_nonce_required := Some required, lr_nonce_failure_closed := Some closed\<rparr>"
    by (rule merge_loc_conf_OK) blast
  have f0: "location_fine lib mcf c0" by (rule merge_values_fine [OF m(1) assms(2,3)])
  obtain mode require fallback a1 a2 a3 a4 def emax skew where v: "lr_mode c0 = Some mode" "lr_require c0 = Some require"
      "lr_keyid_fallback_allow c0 = Some fallback" "lr_profile_def c0 = Some def" "lr_expires_max c0 = Some emax" "lr_max_skew c0 = Some skew"
    and s: "sr_missing (lr_status c0) = Some a1" "sr_parse_error (lr_status c0) = Some a2"
      "sr_invalid (lr_status c0) = Some a3" "sr_replay (lr_status c0) = Some a4"
    by (rule merge_values_complete [OF m(1)])
  obtain min_ttl max_ttl retry sz where d: "dr_cache_min_ttl (lr_directory c0) = Some min_ttl" "dr_cache_max_ttl (lr_directory c0) = Some max_ttl"
      "dr_key_rotation_retry_ttl (lr_directory c0) = Some retry" "dr_max_size (lr_directory c0) = Some sz"
      "dr_enabled (lr_directory c0) = directory_enabled (lr_directory c0)"
    using merge_directory_complete [of "lr_directory prev" "lr_directory conf"] unfolding merge_values_shape(5) [OF m(1)] by blast
  let ?allow = "case dr_allow (lr_directory c0) of None \<Rightarrow> [] | Some allow \<Rightarrow> allow"
  let ?lc = "\<lambda>any. \<lparr>lc_mode = mode, lc_keyid_fallback_allow = fallback, lc_require = require, lc_nonce_required = required,
        lc_nonce_failure_closed = closed, lc_nonce_store = store, lc_jwks_keys = lr_jwks_keys c0,
        lc_profile_def = def, lc_expires_max = emax, lc_max_skew = skew,
        lc_directory = \<lparr>dc_enabled = dr_enabled (lr_directory c0), dc_allow = ?allow,
                dc_cache_min_ttl = min_ttl, dc_cache_max_ttl = max_ttl, dc_key_rotation_retry_ttl = retry, dc_max_size = sz\<rparr>,
        lc_status = \<lparr>status_missing = a1, status_parse_error = a2, status_invalid = a3, status_replay = a4\<rparr>,
        lc_satisfy_any = any\<rparr>"
  have bounds: "0 < min_ttl" "min_ttl \<le> max_ttl" "0 < retry" "sz \<le> MAX_JWKS_SIZE"
    using m(2) f0 d by (auto simp: directory_valid_def location_fine_def directory_fine_def)
  have st: "{a1, a2, a3, a4} \<subseteq> {400..599}" and keys: "within (loaded lib) (lr_jwks_keys c0)"
    using f0 s by (simp_all add: location_fine_def status_fine_def)
  have en: "dr_enabled (lr_directory c0) \<longrightarrow> mc_dynamic mcf' \<and> ?allow \<noteq> [] \<and> (\<forall>h\<in>set ?allow. normalized h)"
    using merge_keeps(1) [OF assms] d(5) m(7) by (auto simp: location_fine_def directory_fine_def directory_enabled_def split: option.splits)
  have access: "mode = MODE_ENFORCE \<or> require \<longrightarrow> mc_access_used mcf'" using m(6) v by auto
  have backend: "store \<noteq> NONCE_STORE_OFF \<longrightarrow> mc_nonce_store_backend mcf' = store" "store = NONCE_STORE_SHM \<longrightarrow> mc_nonce_shm_zone mcf' \<noteq> None"
      "store = NONCE_STORE_REDIS \<longrightarrow> mc_nonce_redis mcf' \<noteq> None"
    using select_backend_grows [OF m(5)] m(6) by (simp_all split: if_split_asm)
  have "loc_conf_of any c = Some (?lc any)" for any
    unfolding m(7) by (simp add: loc_conf_of_def v directory_conf_of_def d(1-4) status_conf_of_def s)
  moreover have "location_sound lib mcf' (?lc any)" for any
    using bounds st keys en access backend m(3,4) v by (simp add: location_sound_def) blast
  ultimately show ?thesis unfolding ready_def by blast
qed

section \<open>The whole configuration\<close>

definition configuration_inv :: "('json, 'jwks) jwx \<Rightarrow> ('jwks, 'z) conf_state \<Rightarrow> bool" where
  "configuration_inv lib st \<longleftrightarrow> main_fine (cs_cycle st) (cs_main st) \<and>
     (\<forall>loc c. cs_loc st loc = Some c \<longrightarrow> location_fine lib (cs_main st) c \<and> (loc \<in> cs_merged st \<longrightarrow> ready lib (cs_main st) c)) \<and>
     cs_merged st \<subseteq> dom (cs_loc st)"

lemma configured_inv: "configured core lib st \<Longrightarrow> core_ok core \<Longrightarrow> configuration_inv lib st"
proof (induction rule: configured.induct)
  case (configured_start pool mcf pool' shared)
  then have "mcf = main_conf_zero" by (auto simp: create_main_conf_def split: prod.splits bool.splits)
  then show ?case by (simp add: configuration_inv_def main_fine_def main_conf_zero_def)
next
  case (configured_create st loc lcf pool)
  then have "lcf = loc_conf_unset" by (auto simp: create_loc_conf_def split: prod.splits bool.splits)
  with configured_create show ?case
    by (auto simp: configuration_inv_def main_fine_def location_fine_unset)
next
  case (configured_loc st loc lcf name "values" cf mcf lcf')
  then have i: "configuration_inv lib st" by simp
  with configured_loc have l: "location_fine lib (cs_main st) lcf" by (simp add: configuration_inv_def)
  note c = loc_command_fine [OF configured_loc.prems configured_loc(4) l]
  from c have "main_fine cf mcf" using i by (auto simp: configuration_inv_def main_fine_def)
  with i c configured_loc(2,3) show ?case
    by (auto simp: configuration_inv_def intro: location_fine_grows ready_grows)
next
  case (configured_main st name "values" cf mcf)
  then have i: "configuration_inv lib st" by simp
  then have "main_fine (cs_cycle st) (cs_main st)" by (simp add: configuration_inv_def)
  from main_command_fine [OF configured_main.prems configured_main(2) this] i show ?case
    by (auto simp: configuration_inv_def intro: location_fine_grows ready_grows)
next
  case (configured_merge st loc parent prev lcf mcf lcf')
  then have i: "configuration_inv lib st" by simp
  with configured_merge have "location_fine lib (cs_main st) prev" "location_fine lib (cs_main st) lcf" by (auto simp: configuration_inv_def)
  note m = merge_keeps [OF configured_merge(5) this] merge_ready [OF configured_merge(5) this]
  from i m show ?case
    by (auto simp: configuration_inv_def intro: location_fine_grows ready_grows)
qed

section \<open>Two concrete configurations\<close>

text \<open>A core that accepts what is used here: names of the enumeration, and zones told apart by the length of their name.\<close>

definition demo_core :: "unit core" where
  "demo_core =
     \<lparr>co_enum_slot = (\<lambda>used names v. if used \<or> v \<notin> set names then None else Some v),
      co_flag_slot = (\<lambda>used v. if used then None else Some (v = ''on'')), co_num_slot = (\<lambda>used b v. None),
      co_sec_slot = (\<lambda>used v. None), co_size_slot = (\<lambda>used v. None), co_variable_index = (\<lambda>name. Some (length name)),
      co_full_name = Some, co_file = (\<lambda>path. FILE (length path) path), co_parse_size = (\<lambda>s. Some 1048576),
      co_parse_time = (\<lambda>s. None), co_atoi = (\<lambda>s. None), co_pagesize = 4096,
      co_shared_memory_add = (\<lambda>name size z. (Some (length name), z)), co_resolve_host = (\<lambda>h p. None), co_have_redis = False\<rparr>"

lemma demo_core_ok: "core_ok demo_core"
  by (simp add: core_ok_def demo_core_def)

abbreviation demo_cycle :: "(nat \<Rightarrow> zone_use option) \<Rightarrow> unit cycle" where
  "demo_cycle d \<equiv> \<lparr>cf_pool = [], cf_shared = (), cf_zone_data = d\<rparr>"

text \<open>The http block 0 and a location 1, before the first directive.\<close>

lemma demo_blocks:
  "configured demo_core toy_jwx \<lparr>cs_cycle = demo_cycle Map.empty, cs_main = main_conf_zero,
     cs_loc = [0 \<mapsto> loc_conf_unset, 1 \<mapsto> loc_conf_unset], cs_merged = {}\<rparr>"
proof -
  have "configured demo_core toy_jwx \<lparr>cs_cycle = demo_cycle Map.empty, cs_main = main_conf_zero, cs_loc = Map.empty, cs_merged = {}\<rparr>"
    by (rule configured_start [of "[]"]) (simp add: create_main_conf_def)
  from configured_create [OF this, of 0 loc_conf_unset "[]"]
  have "configured demo_core toy_jwx \<lparr>cs_cycle = demo_cycle Map.empty, cs_main = main_conf_zero, cs_loc = [0 \<mapsto> loc_conf_unset], cs_merged = {}\<rparr>"
    by (simp add: create_loc_conf_def)
  from configured_create [OF this, of 1 loc_conf_unset "[]"] show ?thesis by (simp add: create_loc_conf_def)
qed

text \<open>One directive in either block, and the merge.\<close>

abbreviation demo_conf_state :: "unit cycle \<Rightarrow> main_conf \<Rightarrow> bytes loc_raw \<Rightarrow> bytes loc_raw \<Rightarrow> nat set \<Rightarrow> (bytes, unit) conf_state" where
  "demo_conf_state cf m http loc merged \<equiv> \<lparr>cs_cycle = cf, cs_main = m, cs_loc = [0 \<mapsto> http, 1 \<mapsto> loc], cs_merged = merged\<rparr>"

lemma demo_steps:
  assumes "configured demo_core toy_jwx (demo_conf_state cf m http loc {})"
  shows "loc_command demo_core toy_jwx name values cf m http = Inr (cf', m', c) \<Longrightarrow>
      configured demo_core toy_jwx (demo_conf_state cf' m' c loc {})"
    and "loc_command demo_core toy_jwx name values cf m loc = Inr (cf', m', c) \<Longrightarrow>
      configured demo_core toy_jwx (demo_conf_state cf' m' http c {})"
    and "main_command demo_core name values cf m = Inr (cf', m') \<Longrightarrow> configured demo_core toy_jwx (demo_conf_state cf' m' http loc {})"
    and "merge_loc_conf demo_core m http loc = Inr (m', c) \<Longrightarrow> configured demo_core toy_jwx (demo_conf_state cf m' http c {1})"
  using configured_loc [OF assms, of 0] configured_loc [OF assms, of 1] configured_main [OF assms] configured_merge [OF assms, of 1 0]
  by (fastforce simp: fun_upd_twist)+

lemmas demo_command_simps = loc_command_def slot_command_def status_commands_def directory_commands_def directory_command_def
  set_slot_def enum_slot_def mode_enum_def nonce_store_enum_def demo_core_def loc_conf_unset_def main_conf_zero_def

text \<open>A location that enforces with a configured key and the shared-memory nonce store.\<close>

abbreviation enforcing :: "bytes loc_raw" where
  "enforcing \<equiv> loc_conf_unset\<lparr>lr_mode := Some MODE_ENFORCE, lr_jwks_keys := Some (KEYS_JWKS ''k''), lr_nonce_store := Some NONCE_STORE_SHM\<rparr>"

lemma demo_load: "load_jwks toy_jwx ''k'' [] = (NGX_OK (KEYS_JWKS ''k''), [])"
proof -
  have "check_ed25519_only toy_jwx ''k''"
    by (simp add: check_ed25519_only_def check_ed25519_only_body_def check_keys_loop_all key_is_ed25519_iff
        toy_jwx_def Let_def MAX_JWKS_KEYS_def)
  then show ?thesis
    by (simp add: load_jwks_def MAX_JWKS_SIZE_def) (simp add: toy_jwx_def bnd_def pool_alloc_Nil ret_def)
qed

lemmas demo_merge_simps = merge_loc_conf_def merge_values_def merge_value_def inherit_def merge_directory_def merge_status_def
  directory_valid_def directory_enabled_def select_backend_def loc_conf_of_def directory_conf_of_def status_conf_of_def
  loc_conf_unset_def main_conf_zero_def demo_core_def MAX_JWKS_SIZE_def Let_def

lemma default_profile: "\<exists>d. profile_get ''web-bot-auth'' = Some d"
  by (simp add: profile_get_def profiles_def web_bot_auth_def)

lemma demo_enforcing:
  "\<exists>st c lcf. configured demo_core toy_jwx st \<and> 1 \<in> cs_merged st \<and> cs_loc st 1 = Some c \<and> loc_conf_of False c = Some lcf \<and>
     lc_mode lcf = MODE_ENFORCE \<and> lc_nonce_store lcf = NONCE_STORE_SHM \<and> httpsig_init (\<lambda>_. True) (cs_main st) = Some [ACCESS_HANDLER]"
proof -
  let ?m = "main_conf_zero\<lparr>mc_nonce_shm_zone := Some 6\<rparr>" and ?d = "[6 \<mapsto> ZONE_NONCE_STORE]"
  let ?c1 = "loc_conf_unset\<lparr>lr_mode := Some MODE_ENFORCE\<rparr>"
  let ?c2 = "?c1\<lparr>lr_jwks_keys := Some (KEYS_JWKS ''k'')\<rparr>"
  have "main_command demo_core ''auth_httpsig_nonce_store_zone'' [''nonces:1m''] (demo_cycle Map.empty) main_conf_zero = Inr (demo_cycle ?d, ?m)"
    by (simp add: main_command_def set_nonce_store_zone_def main_conf_zero_def add_zone_def demo_core_def cf_palloc_def eval_nat_numeral)
  note s = demo_steps(3) [OF demo_blocks this]
  have "loc_command demo_core toy_jwx ''auth_httpsig_mode'' [''enforce''] (demo_cycle ?d) ?m loc_conf_unset = Inr (demo_cycle ?d, ?m, ?c1)"
    by (simp add: demo_command_simps)
  note s = demo_steps(2) [OF s this]
  have "loc_command demo_core toy_jwx ''auth_httpsig_jwks_file'' [''k''] (demo_cycle ?d) ?m ?c1 = Inr (demo_cycle ?d, ?m, ?c2)"
    by (simp add: loc_command_def set_jwks_file_def demo_core_def loc_conf_unset_def MAX_JWKS_SIZE_def cf_palloc_def demo_load)
  note s = demo_steps(2) [OF s this]
  have "loc_command demo_core toy_jwx ''auth_httpsig_nonce_store'' [''shm''] (demo_cycle ?d) ?m ?c2 = Inr (demo_cycle ?d, ?m, enforcing)"
    by (simp add: demo_command_simps)
  note s = demo_steps(2) [OF s this]
  have "case merge_loc_conf demo_core ?m loc_conf_unset enforcing of Inl _ \<Rightarrow> False
    | Inr (m, c) \<Rightarrow> mc_access_used m \<and> \<not> mc_dynamic m \<and>
       (case loc_conf_of False c of None \<Rightarrow> False | Some lcf \<Rightarrow> lc_mode lcf = MODE_ENFORCE \<and> lc_nonce_store lcf = NONCE_STORE_SHM)"
    using default_profile by (auto simp: demo_merge_simps)
  then obtain m c lcf where m: "merge_loc_conf demo_core ?m loc_conf_unset enforcing = Inr (m, c)" "mc_access_used m" "\<not> mc_dynamic m"
    "loc_conf_of False c = Some lcf" "lc_mode lcf = MODE_ENFORCE" "lc_nonce_store lcf = NONCE_STORE_SHM"
    by (auto split: sum.splits option.splits)
  from demo_steps(4) [OF s m(1)] m(2-6) show ?thesis
    by (intro exI [of _ "demo_conf_state (demo_cycle ?d) m loc_conf_unset c {1}"] exI [of _ c] exI [of _ lcf])
      (simp add: httpsig_init_def)
qed

text \<open>An allow list and a fetch location for the whole of http, and a location that only inherits them; no cache zone.\<close>

abbreviation blank :: "bytes loc_raw" where
  "blank \<equiv> loc_conf_unset"

abbreviation fetching :: "bytes loc_raw" where
  "fetching \<equiv> blank\<lparr>lr_mode := Some MODE_ENFORCE, lr_directory :=
     (lr_directory blank)\<lparr>dr_allow := Some [''bot.example''], dr_request_uri := ''/fetch''\<rparr>\<rparr>"

lemma demo_fetching:
  "configured demo_core toy_jwx (demo_conf_state (demo_cycle Map.empty) (main_conf_zero\<lparr>mc_dynamic := True\<rparr>) fetching blank {})"
  "\<exists>m c. merge_loc_conf demo_core (main_conf_zero\<lparr>mc_dynamic := True\<rparr>) fetching blank = Inr (m, c) \<and> lr_mode c = Some MODE_ENFORCE"
proof -
  let ?m = "main_conf_zero\<lparr>mc_dynamic := True\<rparr>" and ?cf = "demo_cycle Map.empty"
  let ?c1 = "blank\<lparr>lr_mode := Some MODE_ENFORCE\<rparr>"
  let ?c2 = "?c1\<lparr>lr_directory := (lr_directory blank)\<lparr>dr_allow := Some [''bot.example'']\<rparr>\<rparr>"
  have "loc_command demo_core toy_jwx ''auth_httpsig_mode'' [''enforce''] ?cf main_conf_zero loc_conf_unset = Inr (?cf, main_conf_zero, ?c1)"
    by (simp add: demo_command_simps)
  note s = demo_steps(1) [OF demo_blocks this]
  have n: "normalize_host ''bot.example'' [] = (Inr ''bot.example'', [])" "\<not> arg_is_off ''bot.example''" by code_simp+
  have "set_agent_allow [''bot.example''] ?cf main_conf_zero (lr_directory ?c1) =
      Inr (?cf, ?m, (lr_directory blank)\<lparr>dr_allow := Some [''bot.example'']\<rparr>)"
    by (simp add: set_agent_allow_def n cf_palloc_def loc_conf_unset_def)
  then have "loc_command demo_core toy_jwx ''auth_httpsig_agent_allow'' [''bot.example''] ?cf main_conf_zero ?c1 = Inr (?cf, ?m, ?c2)"
    by (simp add: loc_command_def)
  note s = demo_steps(1) [OF s this]
  have "loc_command demo_core toy_jwx ''auth_httpsig_key_directory_request'' [''/fetch''] ?cf ?m ?c2 = Inr (?cf, ?m, fetching)"
    by (simp add: demo_command_simps set_key_directory_request_def)
  from demo_steps(1) [OF s this] show "configured demo_core toy_jwx (demo_conf_state ?cf ?m fetching blank {})" .
  have "case merge_loc_conf demo_core ?m fetching loc_conf_unset of Inl _ \<Rightarrow> False | Inr (m, c) \<Rightarrow> lr_mode c = Some MODE_ENFORCE"
    using default_profile by (auto simp: demo_merge_simps)
  then show "\<exists>m c. merge_loc_conf demo_core ?m fetching blank = Inr (m, c) \<and> lr_mode c = Some MODE_ENFORCE"
    by (auto split: sum.splits)
qed

section \<open>Properties\<close>

text \<open>C36: A configuration nginx starts with is complete and consistent.  However its blocks and directives are
  arranged, every merged location has a value for every setting; its cache lifetimes are positive and in order,
  its statuses lie in 400 to 599, its directory limit is within the limit of a document, its keys were loaded
  and its allow list is normalized; verification is never on without a source of keys, \<open>require\<close> never without
  verification, and the nonce store is the one backend of the whole configuration, which is set up.\<close>

theorem configured_location_sound:
  assumes "configured core lib st" and "core_ok core" and "loc \<in> cs_merged st"
  shows "\<exists>c. cs_loc st loc = Some c \<and> (\<forall>satisfy_any. \<exists>lcf. loc_conf_of satisfy_any c = Some lcf \<and> location_sound lib (cs_main st) lcf)"
  using configured_inv [OF assms(1,2)] assms(3) unfolding configuration_inv_def ready_def by blast

theorem configured_location_sound_witness:
  "\<exists>st c lcf. configured demo_core toy_jwx st \<and> cs_loc st 1 = Some c \<and> loc_conf_of False c = Some lcf \<and> location_sound toy_jwx (cs_main st) lcf"
  using demo_enforcing configured_location_sound [OF _ demo_core_ok] by blast

text \<open>C37: What a location relies on is there.  When the handlers and the worker are set up without an error, a
  location that enforces or requires signatures has the access handler registered, one with a key directory has
  the directory handler and the worker's cache, and one with the shared-memory nonce store has a zone set up as a
  nonce store, which is not the zone of the key cache.\<close>

theorem configured_handlers:
  assumes "configured core lib st" and "core_ok core" and "loc \<in> cs_merged st" and "cs_loc st loc = Some c"
    and "loc_conf_of satisfy_any c = Some lcf" and "httpsig_init add (cs_main st) = Some handlers"
    and "httpsig_init_process (Some (cs_main st)) pool = (Some cache, pool')"
  shows "(lc_mode lcf = MODE_ENFORCE \<or> lc_require lcf \<longrightarrow> ACCESS_HANDLER \<in> set handlers) \<and>
    (dc_enabled (lc_directory lcf) \<longrightarrow> DIRECTORY_HANDLER \<in> set handlers \<and> cache \<noteq> None) \<and>
    (lc_nonce_store lcf = NONCE_STORE_SHM \<longrightarrow>
       (\<exists>zone. mc_nonce_shm_zone (cs_main st) = Some zone \<and> cf_zone_data (cs_cycle st) zone = Some ZONE_NONCE_STORE \<and>
          mc_shm_zone (cs_main st) \<noteq> Some zone))"
proof -
  from configured_inv [OF assms(1,2)] assms(3-5) have l: "location_sound lib (cs_main st) lcf" "main_fine (cs_cycle st) (cs_main st)"
    unfolding configuration_inv_def ready_def by (metis option.inject)+
  have h: "mc_access_used (cs_main st) \<Longrightarrow> ACCESS_HANDLER \<in> set handlers"
    "mc_dynamic (cs_main st) \<Longrightarrow> DIRECTORY_HANDLER \<in> set handlers \<and> cache \<noteq> None"
    using assms(6,7) by (auto simp: httpsig_init_def httpsig_init_process_def split: if_splits option.splits prod.splits)
  from l h show ?thesis by (auto simp: location_sound_def Let_def main_fine_def)
qed

theorem configured_handlers_witness:
  "\<exists>st. configured demo_core toy_jwx st \<and> httpsig_init (\<lambda>_. True) (cs_main st) = Some [ACCESS_HANDLER] \<and>
     ACCESS_HANDLER \<in> set [ACCESS_HANDLER] \<and> mc_nonce_shm_zone (cs_main st) \<noteq> None"
proof -
  obtain st c lcf where d: "configured demo_core toy_jwx st" "1 \<in> cs_merged st" "cs_loc st 1 = Some c" "loc_conf_of False c = Some lcf"
    "lc_mode lcf = MODE_ENFORCE" "lc_nonce_store lcf = NONCE_STORE_SHM" "httpsig_init (\<lambda>_. True) (cs_main st) = Some [ACCESS_HANDLER]"
    using demo_enforcing by blast
  from d(7) have "httpsig_init_process (Some (cs_main st)) [] = (Some (None :: bytes keys_cache option), [])"
    by (auto simp: httpsig_init_def httpsig_init_process_def split: if_splits)
  from configured_handlers [OF d(1) demo_core_ok d(2,3,4,7) this] d show ?thesis by auto
qed

text \<open>An allow list in the block that is merged is accepted only with a cache zone.\<close>

lemma declared_allow_list_checked:
  assumes "merge_loc_conf core mcf prev conf = Inr (mcf', c)" and "dr_enabled (lr_directory c)" and "dr_allow (lr_directory conf) \<noteq> None"
  shows "mc_shm_zone mcf' \<noteq> None"
proof -
  from assms(1) obtain c0 mcf0 store where c: "merge_values core prev conf = Some c0" "directory_valid mcf (dr_allow (lr_directory conf) \<noteq> None) (lr_directory c0)"
    "lr_directory c = lr_directory c0" "select_backend core store mcf = Inr mcf0" "mc_shm_zone mcf' = mc_shm_zone mcf0"
    by (rule merge_loc_conf_OK) (auto split: if_splits)
  have "directory_enabled (lr_directory c)"
    using assms(2) merge_directory_complete [of "lr_directory prev" "lr_directory conf"] unfolding c(3) merge_values_shape(5) [OF c(1)] by blast
  with c(2) assms(3) select_backend_grows [OF c(4)] show ?thesis
    by (auto simp: c(3,5) directory_valid_def directory_enabled_def split: option.splits)
qed

text \<open>A block without its own list is merged without a look at the zone.\<close>

lemma select_backend_zone: "select_backend core store (mcf\<lparr>mc_shm_zone := z\<rparr>) = map_sum id (\<lambda>m. m\<lparr>mc_shm_zone := z\<rparr>) (select_backend core store mcf)"
  by (simp add: select_backend_def)

lemma merge_ignores_zone:
  assumes "merge_loc_conf core mcf prev conf = Inr (mcf', c)" and "dr_allow (lr_directory conf) = None"
  shows "merge_loc_conf core (mcf\<lparr>mc_shm_zone := z\<rparr>) prev conf = Inr (mcf'\<lparr>mc_shm_zone := z\<rparr>, c)"
proof -
  let ?f = "\<lambda>(m, c). (m\<lparr>mc_shm_zone := z\<rparr>, c)"
  have valid: "directory_valid (mcf\<lparr>mc_shm_zone := z\<rparr>) False d = directory_valid mcf False d" for d by (simp add: directory_valid_def)
  have undeclared: "(dr_allow (lr_directory conf) \<noteq> None) = False" using assms(2) by simp
  have last: "(case map_sum id (\<lambda>m. m\<lparr>mc_shm_zone := z\<rparr>) x of Inl e \<Rightarrow> Inl e | Inr m \<Rightarrow> Inr (if b then m\<lparr>mc_access_used := True\<rparr> else m, c)) =
      map_sum id ?f (case x of Inl e \<Rightarrow> Inl e | Inr m \<Rightarrow> Inr (if b then m\<lparr>mc_access_used := True\<rparr> else m, c))"
    for x :: "conf_failure + main_conf" and b and c
    by (cases x) simp_all
  have refused: "Inl e = map_sum id ?f (Inl e)" for e :: conf_failure by simp
  have "merge_loc_conf core (mcf\<lparr>mc_shm_zone := z\<rparr>) prev conf = map_sum id ?f (merge_loc_conf core mcf prev conf)"
    unfolding merge_loc_conf_def Let_def undeclared valid select_backend_zone last
    by (cases "merge_values core prev conf") (simp_all only: option.case if_distrib [of "map_sum id ?f"] refused [symmetric])
  with assms(1) show ?thesis by simp
qed

text \<open>C38: The checks of the key directory miss the http level.  Take any configuration and any block that has an
  allow list and a fetch location, and a block below it that declares no list.  Whenever the merge of the lower
  block is accepted, it is accepted just as well without a cache zone; the lower block then has the directory enabled
  with the inherited list, and the handler that dereferences the zone is registered.  A block that declares its
  own list is not accepted so: with a directory enabled there is a zone.\<close>

theorem http_allow_list_unchecked:
  assumes "configured core lib st" and "core_ok core" and "loc \<notin> cs_merged st"
    and "cs_loc st http = Some prev" and "dr_allow (lr_directory prev) = Some allow" and "allow \<noteq> []" and "dr_request_uri (lr_directory prev) \<noteq> []"
    and "cs_loc st loc = Some conf" and "dr_allow (lr_directory conf) = None"
    and "merge_loc_conf core (cs_main st) prev conf = Inr (mcf, c)"
  shows "merge_loc_conf core ((cs_main st)\<lparr>mc_shm_zone := None\<rparr>) prev conf = Inr (mcf\<lparr>mc_shm_zone := None\<rparr>, c) \<and>
    (\<exists>lcf. loc_conf_of satisfy_any c = Some lcf \<and> dc_enabled (lc_directory lcf) \<and> dc_allow (lc_directory lcf) = allow) \<and>
    (httpsig_init add (mcf\<lparr>mc_shm_zone := None\<rparr>) = Some handlers \<longrightarrow> DIRECTORY_HANDLER \<in> set handlers) \<and>
    (merge_loc_conf core (cs_main st) prev own = Inr (mcf', c') \<and> dr_allow (lr_directory own) \<noteq> None \<and> dr_enabled (lr_directory c') \<longrightarrow>
       mc_shm_zone mcf' \<noteq> None)"
proof -
  have fine: "location_fine lib (cs_main st) prev" "location_fine lib (cs_main st) conf"
    using configured_inv [OF assms(1,2)] assms(4,8) by (auto simp: configuration_inv_def)
  from merge_ready [OF assms(10) fine] obtain lcf where lcf: "loc_conf_of satisfy_any c = Some lcf" unfolding ready_def by blast
  from assms(10) obtain c0 where c: "merge_values core prev conf = Some c0" "lr_directory c = lr_directory c0"
    by (rule merge_loc_conf_OK) auto
  have d: "lr_directory c = merge_directory (lr_directory prev) (lr_directory conf)" using c merge_values_shape(5) [OF c(1)] by simp
  then have "dr_enabled (lr_directory c)" "dr_allow (lr_directory c) = Some allow"
    using assms(5-7,9) by (simp_all add: merge_directory_def directory_enabled_def inherit_def Let_def)
  then have "dc_enabled (lc_directory lcf)" "dc_allow (lc_directory lcf) = allow"
    using lcf by (auto simp: loc_conf_of_def directory_conf_of_def split: option.splits)
  moreover have "mc_dynamic mcf"
    using fine(1) merge_keeps(2) [OF assms(10) fine] assms(5,6) by (auto simp: location_fine_def directory_fine_def grows_def)
  then have "httpsig_init add (mcf\<lparr>mc_shm_zone := None\<rparr>) = Some handlers \<longrightarrow> DIRECTORY_HANDLER \<in> set handlers"
    by (auto simp: httpsig_init_def split: if_splits)
  ultimately show ?thesis using lcf merge_ignores_zone [OF assms(10,9)] declared_allow_list_checked by blast
qed

theorem http_allow_list_unchecked_witness:
  "\<exists>m c lcf. merge_loc_conf demo_core ((main_conf_zero\<lparr>mc_dynamic := True\<rparr>)\<lparr>mc_shm_zone := None\<rparr>) fetching blank = Inr (m, c) \<and>
     loc_conf_of False c = Some lcf \<and> dc_enabled (lc_directory lcf) \<and> dc_allow (lc_directory lcf) = [''bot.example''] \<and> mc_shm_zone m = None"
proof -
  obtain m c where m: "merge_loc_conf demo_core (main_conf_zero\<lparr>mc_dynamic := True\<rparr>) fetching blank = Inr (m, c)"
    using demo_fetching(2) by blast
  let ?st = "demo_conf_state (demo_cycle Map.empty) (main_conf_zero\<lparr>mc_dynamic := True\<rparr>) fetching blank {}"
  have s: "1 \<notin> cs_merged ?st" "cs_loc ?st 0 = Some fetching" "dr_allow (lr_directory fetching) = Some [''bot.example'']" "[''bot.example''] \<noteq> []"
    "dr_request_uri (lr_directory fetching) \<noteq> []" "cs_loc ?st 1 = Some blank" "dr_allow (lr_directory blank) = None"
    by (simp_all add: loc_conf_unset_def)
  have "merge_loc_conf demo_core (cs_main ?st) fetching blank = Inr (m, c)" using m by simp
  from http_allow_list_unchecked [OF demo_fetching(1) demo_core_ok s this, of False] show ?thesis
    by (fastforce simp del: main_conf.update_convs)
qed

text \<open>C39: The allow list of a block is what its directives name.  An invocation is either the single \<open>off\<close>, accepted
  only as the first in its block and leaving a list no host is in, or names hosts, none of them \<open>off\<close>, in a block
  without \<open>off\<close>; then a host is allowed exactly when it was before or is what one of the names normalizes to.\<close>

theorem agent_allow_exact:
  assumes "set_agent_allow values cf mcf dir = Inr (cf', mcf', dir')"
  shows "\<exists>allow. dr_allow dir' = Some allow \<and>
    (if length values = 1 \<and> arg_is_off (hd values) then dr_allow dir = None \<and> (\<forall>h. \<not> directory_allowed allow h)
     else (\<forall>v\<in>set values. \<not> arg_is_off v) \<and> dr_allow dir \<noteq> Some [] \<and> mc_dynamic mcf' \<and>
       (\<forall>h. directory_allowed allow h \<longleftrightarrow>
          (\<exists>before. dr_allow dir = Some before \<and> directory_allowed before h) \<or> (\<exists>v\<in>set values. fst (normalize_host v []) = Inr h)))"
proof -
  have norm: "fst (normalize_host v p) = Inr h \<Longrightarrow> fst (normalize_host v []) = Inr h" for v p h
    by (simp add: normalize_host_Inr)
  have all: "(\<exists>v\<in>set values. fst (normalize_host v []) = Inr h) \<longleftrightarrow> h \<in> set new"
    if "list_all2 (\<lambda>v h. \<exists>p. fst (normalize_host v p) = Inr h) values new" for new h
    using that by (induction rule: list_all2_induct) (auto dest: norm)
  have allowed: "directory_allowed allow h \<longleftrightarrow> h \<in> set allow" for allow h
    by (auto simp: directory_allowed_def)
  from set_agent_allow_cases [OF assms] show ?thesis
  proof (elim conjE disjE exE)
    fix new
    assume n: "\<forall>v\<in>set values. \<not> arg_is_off v" "dr_allow dir \<noteq> Some []" "mcf' = mcf\<lparr>mc_dynamic := True\<rparr>"
      "dir' = dir\<lparr>dr_allow := Some ((case dr_allow dir of None \<Rightarrow> [] | Some allow \<Rightarrow> allow) @ new)\<rparr>"
      "list_all2 (\<lambda>v h. \<exists>p. fst (normalize_host v p) = Inr h) values new"
    then have off: "\<not> (length values = 1 \<and> arg_is_off (hd values))" by (cases "values") auto
    from n(2-4) off n(1) all [OF n(5)] show ?thesis by (auto simp: allowed split: option.splits)
  qed (simp add: allowed)
qed

theorem agent_allow_exact_witness:
  "\<exists>cf mcf dir. set_agent_allow [''Bot.Example:443''] (demo_cycle Map.empty) main_conf_zero (lr_directory blank) = Inr (cf, mcf, dir) \<and>
     (\<exists>allow. dr_allow dir = Some allow \<and> directory_allowed allow ''bot.example'')"
proof -
  have n: "normalize_host ''Bot.Example:443'' [] = (Inr ''bot.example'', [])" "\<not> arg_is_off ''Bot.Example:443''" by code_simp+
  have "set_agent_allow [''Bot.Example:443''] (demo_cycle Map.empty) main_conf_zero (lr_directory blank) =
      Inr (demo_cycle Map.empty, main_conf_zero\<lparr>mc_dynamic := True\<rparr>, (lr_directory blank)\<lparr>dr_allow := Some [''bot.example'']\<rparr>)"
    by (simp add: set_agent_allow_def n cf_palloc_def loc_conf_unset_def)
  from agent_allow_exact [OF this] this n show ?thesis by auto
qed

end
