(* ===== verification/Access_Props.thy ===== *)
theory Access_Props
  imports Config_Props Module_Props
begin

text \<open>
  When a request is denied, and with which status: the access handler over a configuration nginx starts with.
\<close>

section \<open>The denial of a result\<close>

text \<open>
  The status a result is denied with, one rule per configured status; a result without a rule is not denied.
\<close>

inductive denied_with :: "'jwks loc_conf \<Rightarrow> httpsig_result \<Rightarrow> nat \<Rightarrow> bool" for lcf :: "'jwks loc_conf" where
  missing: "lc_require lcf \<Longrightarrow> denied_with lcf RESULT_NOT_SIGNED (status_missing (lc_status lcf))"
| malformed: "lc_mode lcf = MODE_ENFORCE \<Longrightarrow> denied_with lcf RESULT_PARSE_ERROR (status_parse_error (lc_status lcf))"
| replayed: "lc_mode lcf = MODE_ENFORCE \<Longrightarrow> denied_with lcf RESULT_NONCE_REPLAYED (status_replay (lc_status lcf))"
| no_store: "lc_mode lcf = MODE_ENFORCE \<Longrightarrow> denied_with lcf RESULT_NONCE_STORE_UNAVAILABLE 503"
| invalid: "lc_mode lcf = MODE_ENFORCE \<Longrightarrow>
    result \<notin> {RESULT_OK, RESULT_NOT_SIGNED, RESULT_KEY_UNAVAILABLE, RESULT_PARSE_ERROR, RESULT_NONCE_REPLAYED, RESULT_NONCE_STORE_UNAVAILABLE} \<Longrightarrow>
    denied_with lcf result (status_invalid (lc_status lcf))"

text \<open>Under \<open>satisfy any\<close> only 401 and 403 leave another access check its say.\<close>

definition sent_status :: "'jwks loc_conf \<Rightarrow> nat \<Rightarrow> nat" where
  "sent_status lcf code = (if lc_satisfy_any lcf \<and> code \<noteq> 401 \<and> code \<noteq> 403 then 403 else code)"

lemma deny_code_status: "deny_code lcf code = HANDLER_STATUS n \<longleftrightarrow> n = sent_status lcf code"
  by (auto simp: deny_code_def sent_status_def HTTP_FORBIDDEN_def HTTP_UNAUTHORIZED_def)

lemma access_result_denies:
  "access_result lcf result = HANDLER_STATUS n \<longleftrightarrow> (\<exists>code. denied_with lcf result code \<and> n = sent_status lcf code)"
  by (cases result) (auto simp: access_result_def deny_code_status denied_with.simps HTTP_SERVICE_UNAVAILABLE_def)

lemma access_result_otherwise: "access_result lcf result \<in> {HANDLER_OK, HANDLER_DECLINED} \<union> range HANDLER_STATUS"
  by (cases result) (auto simp: access_result_def deny_code_def)

lemma location_statuses:
  "location_sound lib mcf lcf \<Longrightarrow>
   {status_missing (lc_status lcf), status_parse_error (lc_status lcf), status_invalid (lc_status lcf), status_replay (lc_status lcf)} \<subseteq> {400..599}"
  unfolding location_sound_def Let_def by (elim conjE) assumption

lemma denied_with_range: "location_sound lib mcf lcf \<Longrightarrow> denied_with lcf result code \<Longrightarrow> code \<in> {400..599}"
  using location_statuses [of lib mcf lcf] by (auto elim!: denied_with.cases)

text \<open>The result of the handler, from what the evaluation leaves.\<close>

definition judged :: "bool \<times> httpsig_ctx option \<times> ('jwks, 'w) state \<Rightarrow> httpsig_result option" where
  "judged e = (case e of (True, Some ctx, _) \<Rightarrow> if cx_internal_error ctx then None else Some (cx_result ctx) | _ \<Rightarrow> None)"

lemma access_handler_judged:
  "fst (access_handler env st) =
     (if lc_mode (ev_lcf env) \<noteq> MODE_ENFORCE \<and> \<not> lc_require (ev_lcf env) then HANDLER_DECLINED
      else case judged (evaluate env st) of
        None \<Rightarrow> if lc_mode (ev_lcf env) = MODE_ENFORCE then HANDLER_STATUS 500 else HANDLER_DECLINED
      | Some result \<Rightarrow> access_result (ev_lcf env) result)"
  by (cases "evaluate env st")
    (auto simp: access_handler_def judged_def HTTP_INTERNAL_SERVER_ERROR_def Let_def split: bool.split option.split)

text \<open>C3: A denial has its reason, and a reason its denial.  In a location of a configuration nginx starts with, a request
  is denied with a status exactly in these cases: under \<open>enforce\<close>, with 500, when the evaluation failed
  or met an internal error; and, when the evaluation was sound, with the status of its result, which is the
  status configured for unsigned requests where a signature is required, and under \<open>enforce\<close> the
  configured ones for a malformed signature and for a replay, 503 for a nonce store that cannot be reached,
  and the one configured for invalid signatures for every other result that is neither a success nor keys
  that could not be fetched.  With \<open>satisfy any\<close> the status of a result other than 401 and 403 becomes 403.  Every
  status is in 400 to 599, and a request that is not denied is granted or left to the other checks.\<close>

theorem denial_justified:
  assumes "location_sound lib mcf (ev_lcf env)"
  shows "(fst (access_handler env st) = HANDLER_STATUS n \<longleftrightarrow>
      lc_mode (ev_lcf env) = MODE_ENFORCE \<and> n = 500 \<and>
        \<not> (\<exists>ctx st'. evaluate env st = (True, Some ctx, st') \<and> \<not> cx_internal_error ctx) \<or>
      (\<exists>ctx st' code. evaluate env st = (True, Some ctx, st') \<and> \<not> cx_internal_error ctx \<and>
         denied_with (ev_lcf env) (cx_result ctx) code \<and> n = sent_status (ev_lcf env) code)) \<and>
    (fst (access_handler env st) = HANDLER_STATUS n \<longrightarrow> 400 \<le> n \<and> n \<le> 599) \<and>
    fst (access_handler env st) \<in> {HANDLER_OK, HANDLER_DECLINED} \<union> range HANDLER_STATUS"
proof -
  let ?lcf = "ev_lcf env"
  have none: "judged (evaluate env st) = None \<longleftrightarrow> \<not> (\<exists>ctx st'. evaluate env st = (True, Some ctx, st') \<and> \<not> cx_internal_error ctx)"
    by (auto simp: judged_def split: prod.split bool.split option.split)
  have some: "judged (evaluate env st) = Some r \<longleftrightarrow>
      (\<exists>ctx st'. evaluate env st = (True, Some ctx, st') \<and> \<not> cx_internal_error ctx \<and> cx_result ctx = r)" for r
    by (auto simp: judged_def split: prod.split bool.split option.split)
  have idle: "\<not> denied_with ?lcf r code" if "lc_mode ?lcf \<noteq> MODE_ENFORCE" "\<not> lc_require ?lcf" for r code
    using that by (auto elim: denied_with.cases)
  have exact: "fst (access_handler env st) = HANDLER_STATUS n \<longleftrightarrow>
      lc_mode ?lcf = MODE_ENFORCE \<and> n = 500 \<and> judged (evaluate env st) = None \<or>
      (\<exists>r code. judged (evaluate env st) = Some r \<and> denied_with ?lcf r code \<and> n = sent_status ?lcf code)"
    using idle by (auto simp: access_handler_judged access_result_denies split: option.split)
  moreover have "400 \<le> n \<and> n \<le> 599" if "fst (access_handler env st) = HANDLER_STATUS n"
    using that exact denied_with_range [OF assms] by (fastforce simp: sent_status_def split: if_splits)
  moreover have "fst (access_handler env st) \<in> {HANDLER_OK, HANDLER_DECLINED} \<union> range HANDLER_STATUS"
    using access_result_otherwise by (auto simp: access_handler_judged split: option.split)
  ultimately show ?thesis unfolding none some by blast
qed

definition bare_http :: http_request where
  "bare_http = demo_http\<lparr>hr_headers := []\<rparr>"

theorem denial_justified_witness:
  "fst (access_handler (demo_env\<lparr>ev_request := bare_http\<rparr>) (demo_state small_store)) = HANDLER_STATUS 401 \<and>
   \<not> fst (access_handler (demo_env\<lparr>ev_request := bare_http\<rparr>) (demo_state small_store)) = HANDLER_STATUS 403"
proof -
  let ?env = "demo_env\<lparr>ev_request := bare_http\<rparr>"
  let ?ctx = "ctx_zero\<lparr>cx_done := True, cx_result := RESULT_NOT_SIGNED\<rparr>"
  have "find_header (hr_headers bare_http) ''signature-input'' = None" by (simp add: bare_http_def find_header_def)
  then have "evaluate ?env (demo_state small_store) = (True, Some ?ctx, (demo_state small_store)\<lparr>st_ctx := Some ?ctx\<rparr>)"
    by (simp add: evaluate_def evaluate_new_def demo_conf_def st_palloc_def demo_state_def)
  then have e: "evaluate ?env (demo_state small_store) = (True, Some ?ctx, (demo_state small_store)\<lparr>st_ctx := Some ?ctx\<rparr>)" .
  let ?mcf = "main_conf_zero\<lparr>mc_access_used := True, mc_dynamic := True, mc_nonce_shm_zone := Some 6, mc_nonce_store_backend := NONCE_STORE_SHM\<rparr>"
  have "normalize_host ''agent.example'' [] = (Inr ''agent.example'', [])" by code_simp
  then have "normalized ''agent.example''" unfolding normalized_def by (metis fst_conv)
  moreover have "loaded toy_jwx (KEYS_JWKS ''k'')" unfolding loaded_def using demo_load by (metis fst_conv)
  ultimately have "location_sound toy_jwx ?mcf (ev_lcf ?env)"
    by (simp add: location_sound_def demo_conf_def MAX_JWKS_SIZE_def main_conf_zero_def)
  note d = denial_justified [OF this, of "demo_state small_store"]
  have "denied_with (ev_lcf ?env) (cx_result ?ctx) code \<longleftrightarrow> code = 401" for code
    by (auto simp: denied_with.simps demo_conf_def)
  then have "fst (access_handler ?env (demo_state small_store)) = HANDLER_STATUS n \<longleftrightarrow> n = 401" for n
    using d [of n] e by (auto simp: sent_status_def demo_conf_def ctx_zero_def)
  with d [of 401] show ?thesis by simp
qed

end
