(* ===== verification/Variables.thy ===== *)
theory Variables
  imports Module_Props
begin

text \<open>
  The variables by name (\<open>ngx_http_auth_httpsig_variables\<close> and its registration in
  \<open>ngx_http_auth_httpsig_module.c\<close>), and what a log or an upstream gets to see of a request through them.
\<close>

section \<open>The table of variables\<close>

type_synonym ('jwks, 'w) get_handler = "('jwks, 'w) state \<Rightarrow> bytes option \<times> ('jwks, 'w) state"

definition httpsig_variables :: "('json, 'jwks, 'w) env \<Rightarrow> (bytes \<times> ('jwks, 'w) get_handler) list" where
  "httpsig_variables env =
     [(''httpsig_verified'', variable_verified env),
      (''httpsig_keyid'', variable_keyid env),
      (''httpsig_agent'', variable_agent env),
      (''httpsig_directory_host'', \<lambda>st. (variable_directory_host st, st)),
      (''httpsig_directory_hostname'', \<lambda>st. (variable_directory_hostname st, st)),
      (''httpsig_error'', variable_error env)]"

text \<open>\<open>ngx_http_add_variable\<close> is the argument; \<open>None\<close> is its failure.\<close>

fun add_variables :: "(bytes \<Rightarrow> 'v \<Rightarrow> 'v option) \<Rightarrow> (bytes \<times> 'h) list \<Rightarrow> 'v \<times> (bytes \<rightharpoonup> 'h) \<Rightarrow> ('v \<times> (bytes \<rightharpoonup> 'h)) option" where
  "add_variables add [] vars = Some vars"
| "add_variables add ((name, get_handler) # vs) (known, handlers) =
     (case add name known of
        None \<Rightarrow> None
      | Some known \<Rightarrow> add_variables add vs (known, handlers(name \<mapsto> get_handler)))"

text \<open>Once registered, a variable is read with the handler of the table.\<close>

lemma add_variables_handlers:
  "add_variables add vs (known, handlers) = Some (known', handlers') \<Longrightarrow> distinct (map fst vs) \<Longrightarrow>
   handlers' = handlers ++ map_of vs"
proof (induction add vs "(known, handlers)" arbitrary: known handlers rule: add_variables.induct)
  case (2 add name h vs known handlers)
  then obtain known1 where k: "add name known = Some known1"
    "add_variables add vs (known1, handlers(name \<mapsto> h)) = Some (known', handlers')"
    by (auto split: option.splits)
  with 2 have "handlers' = handlers(name \<mapsto> h) ++ map_of vs" by simp
  moreover have "name \<notin> dom (map_of vs)" using 2(3) by (simp add: dom_map_of_conv_image_fst)
  ultimately show ?case by (simp add: map_add_upd_left)
qed simp

definition get_variable :: "bytes \<Rightarrow> ('json, 'jwks, 'w) env \<Rightarrow> ('jwks, 'w) state \<Rightarrow> bytes option \<times> ('jwks, 'w) state" where
  "get_variable name env st =
     (case map_of (httpsig_variables env) name of Some get_handler \<Rightarrow> get_handler st | None \<Rightarrow> (None, st))"

section \<open>What an accepted signature reports\<close>

lemma accepted_entry_wf:
  assumes "parse_dictionary raw [] = (NGX_OK d, [])" and "find P (d_entries d) = Some entry"
    and "e_value entry = MEMBER_INNER_LIST l"
  shows "wf_inner_list l"
proof -
  have "wf_dictionary d"
    using assms(1) parse_with_produces [OF produces_read_dictionary, of raw "[]" d] unfolding parse_dictionary_def by simp
  with assms(2,3) have "wf_value (MEMBER_INNER_LIST l)"
    by (metis wf_dictionary_def find_Some_iff nth_mem)
  then show ?thesis by simp
qed

lemma str_param_chars: "wf_params ps \<Longrightarrow> str_param ps n = Some v \<Longrightarrow> \<forall>c\<in>set v. string_char c"
proof -
  assume "wf_params ps" "str_param ps n = Some v"
  then obtain p where "p \<in> set ps" "p_value p = SFV_STRING v" "wf_bare (p_value p)"
    by (fastforce simp: str_param_Some param_get_def wf_params_def find_Some_iff split: option.splits dest: nth_mem)
  then show ?thesis by simp
qed

text \<open>A reported keyid is printable and a reported agent is a bare host.\<close>

definition clean_sig :: "signature \<Rightarrow> bool" where
  "clean_sig sig \<longleftrightarrow> (\<forall>c\<in>set (sg_keyid sig). string_char c) \<and> (sg_agent_host sig = [] \<or> safe_host (sg_agent_host sig))"

lemma profile_verify_clean:
  assumes "profile_verify lib clock pctx req (q, sig0) = (NGX_OK (), t)"
  shows "clean_sig (snd t)"
proof (rule profile_verify_full [OF assms])
  fix input entry l bs p
  assume i: "parse_dictionary (join_values (field_values req ''signature-input'')) [] = (NGX_OK input, [])"
    "select_entry input (pf_tag (pc_profile pctx)) = Some entry" "e_value entry = MEMBER_INNER_LIST l"
    and s: "snd t = (entry_sig entry l)\<lparr>sg_signature := bs,
      sg_agent_host := fst (reported (field_values req signature_agent) (e_key entry) p)\<rparr>"
  have "wf_inner_list l" using accepted_entry_wf i unfolding select_entry_def by blast
  then have "\<forall>c\<in>set (or_default (str_param (il_params l) ''keyid'') []). string_char c"
    using str_param_chars [of "il_params l" "''keyid''"] by (cases "str_param (il_params l) ''keyid''") (auto simp: wf_inner_list_def)
  then have "\<forall>c\<in>set (sg_keyid (snd t)). string_char c" by (simp add: s entry_sig_def filled_def signature_zero_def)
  moreover have "sg_agent_host (snd t) = [] \<or> safe_host (sg_agent_host (snd t))"
    using agent_host_safe by (simp add: s reported_def)
  ultimately show ?thesis by (simp add: clean_sig_def)
qed

lemma verify_request_clean:
  "verify_request env ctx req st = (NGX_OK u, sig, ctx', st') \<Longrightarrow> clean_sig sig"
  using profile_verify_clean by (fastforce simp: verify_request_def Let_def split: prod.splits)

text \<open>What a context says of a successful evaluation.\<close>

definition clean :: "httpsig_ctx \<Rightarrow> bool" where
  "clean ctx \<longleftrightarrow> (cx_done ctx \<and> cx_result ctx = RESULT_OK \<longrightarrow>
     (\<forall>c\<in>set (cx_keyid ctx). string_char c) \<and> (cx_agent ctx = [] \<or> safe_host (cx_agent ctx)))"

lemma judge_request_clean:
  assumes "judge_request env ctx req st = (ctx', st')" and "cx_result ctx \<noteq> RESULT_OK"
  shows "clean ctx'"
proof -
  obtain r sig ctx1 st1 where v: "verify_request env ctx req st = (r, sig, ctx1, st1)" by (metis prod_cases4)
  from verify_request_frame [OF v] assms(2) have n: "cx_result ctx1 \<noteq> RESULT_OK" by auto
  show ?thesis
  proof (cases r)
    case (NGX_OK u)
    with v have c: "clean_sig sig" using verify_request_clean by fastforce
    obtain res ctx2 st2 where "check_nonce env ctx1 sig (ev_now env) st1 = (res, ctx2, st2)" by (metis prod_cases3)
    with assms(1) v NGX_OK c show ?thesis by (auto simp: judge_request_def clean_def clean_sig_def split: if_splits)
  next
    case (NGX_DECLINED e)
    with verify_request_refusal [OF v] assms(1) v show ?thesis by (auto simp: judge_request_def clean_def split: if_splits)
  next
    case NGX_ERROR
    with assms(1) v n show ?thesis by (auto simp: judge_request_def clean_def)
  qed
qed

lemma evaluate_new_clean: "evaluate_new env ctx st = (ctx', st') \<Longrightarrow> clean ctx'"
  by (auto simp: evaluate_new_def Let_def clean_def [of "_\<lparr>cx_result := RESULT_NOT_SIGNED\<rparr>"]
      clean_def [of "_\<lparr>cx_internal_error := True\<rparr>"] split: if_splits prod.splits rc.splits
      intro: judge_request_clean)

lemma evaluate_clean:
  assumes "evaluate env st = (ok, out, st')" and "clean (ctx_of st)"
  shows "clean (ctx_of st') \<and> (\<forall>ctx. out = Some ctx \<longrightarrow> clean ctx \<and> cx_done ctx \<and> st_ctx st' = Some ctx)"
  by (rule evaluate_cases [of env st])
    (use assms evaluate_new_clean evaluate_new_frame in \<open>fastforce simp: ctx_of_def\<close>)+

lemma ctx_zero_clean: "clean ctx_zero"
  by (simp add: clean_def ctx_zero_def)

lemma evaluations_clean: "clean (ctx_of st) \<Longrightarrow> clean (ctx_of (evaluations es st))"
proof (induction es arbitrary: st)
  case Nil
  then show ?case by (simp add: evaluations_def)
next
  case (Cons e es)
  obtain d env where e: "e = (d, env)" by fastforce
  have "clean (ctx_of (if d then st\<lparr>st_ctx := None\<rparr> else st))"
    using Cons.prems ctx_zero_clean by (simp add: ctx_of_def)
  then have "clean (ctx_of (evaluate_again d env st))"
    by (metis evaluate_again_def evaluate_clean prod.collapse)
  with Cons.IH have "clean (ctx_of (evaluations es (evaluate_again d env st)))" .
  with e show ?case by (simp add: evaluations_def)
qed

section \<open>A nonce check that failed internally\<close>

lemma shm_check_error: "shm_check ctx key ttl now = (NONCE_ERROR, ctx') \<Longrightarrow> ctx' = ctx"
  by (auto simp: shm_check_def Let_def split: prod.splits if_splits option.splits bool.splits)

lemma redis_check_error: "redis_check lib conf key ttl now st w = (NONCE_ERROR, st', w') \<Longrightarrow> st' = st \<and> w' = w"
  by (auto simp: redis_check_def split: prod.splits if_splits option.splits bool.splits redis_reply.splits)

lemma nonce_consult_error: "nonce_consult env key ttl now st = (NONCE_ERROR, st') \<Longrightarrow> stores st' = stores st"
  by (auto simp: nonce_consult_def stores_def split: prod.splits nonce_backend.splits dest: shm_check_error redis_check_error)

lemma nonce_judge_internal:
  "nonce_judge env sig now st = (v, st') \<Longrightarrow> nv_internal_error v \<Longrightarrow> stores st' = stores st \<and> nv_result v = RESULT_OK"
  by (auto simp: nonce_judge_def nonce_verdict_zero_def Let_def
      split: prod.splits if_splits option.splits nonce_rc.splits dest!: nonce_consult_error)

text \<open>The verdict kept with the request, if any, is one the check leaves behind.\<close>

definition verdict_kept :: "nonce_verdict option \<Rightarrow> bool" where
  "verdict_kept v = (case v of None \<Rightarrow> True | Some v \<Rightarrow> nv_internal_error v \<longrightarrow> nv_result v = RESULT_OK)"

lemma check_nonce_internal:
  assumes "check_nonce env ctx sig now st = (r, ctx', st')" and "\<not> cx_internal_error ctx" and "cx_internal_error ctx'"
    and "verdict_kept (st_verdict st)"
  shows "r = RESULT_OK \<and> stores st' = stores st"
  using assms by (auto simp: check_nonce_def verdict_kept_def split: if_splits option.splits prod.splits bool.splits
      dest!: st_palloc_frame nonce_judge_internal)

lemma evaluate_new_accepted:
  assumes "evaluate_new env (ctx_of st) (started st) = (ctx, st')" and "accepted_signature env st = Some sig"
  obtains ctx0 res ctx1 st1 where "framed (started st) st1" "cx_internal_error ctx0 = cx_internal_error (ctx_of st)" "cx_done ctx0"
    "check_nonce env ctx0 sig (ev_now env) st1 = (res, ctx1, st')"
    "ctx = (if res = RESULT_OK then ctx1\<lparr>cx_result := res, cx_keyid := sg_keyid sig, cx_agent := sg_agent_host sig\<rparr>
            else ctx1\<lparr>cx_result := res\<rparr>)"
proof -
  let ?ctx = "(ctx_of st)\<lparr>cx_done := True, cx_result := RESULT_NOT_SIGNED\<rparr>"
  from assms(2) obtain req st0 u ctx0 st1 where b: "find_header (hr_headers (ev_request env)) ''signature-input'' \<noteq> None"
    "on_st_pool (build_request (ev_scheme env) (ev_request env)) (started st) = (NGX_OK req, st0)"
    "verify_request env ?ctx req st0 = (NGX_OK u, sig, ctx0, st1)"
    by (auto simp: accepted_signature_def split: if_splits prod.splits rc.splits)
  obtain res ctx1 st2 where n: "check_nonce env ctx0 sig (ev_now env) st1 = (res, ctx1, st2)" by (metis prod_cases3)
  with assms(1) b have "ctx = (if res = RESULT_OK then ctx1\<lparr>cx_result := res, cx_keyid := sg_keyid sig, cx_agent := sg_agent_host sig\<rparr>
      else ctx1\<lparr>cx_result := res\<rparr>)" "st2 = st'"
    by (auto simp: evaluate_new_def Let_def judge_request_def split: if_splits)
  moreover have "framed (started st) st1"
    using b(2) verify_request_frame [OF b(3)] by (auto simp: framed_def dest!: on_st_pool_frame)
  moreover have "cx_internal_error ctx0 = cx_internal_error (ctx_of st)" "cx_done ctx0"
    using verify_request_frame [OF b(3)] by auto
  ultimately show ?thesis using that n by blast
qed

section \<open>Properties\<close>

lemma host_char_printable: "low_host_char c \<Longrightarrow> string_char c" "low_v6_char c \<Longrightarrow> string_char c"
  by (auto simp: low_host_char_def low_v6_char_def string_char_def is_lcalpha_def is_digit_def less_eq_char_def)

lemma safe_host_printable: "safe_host h \<Longrightarrow> \<forall>c\<in>set h. string_char c"
proof
  fix c
  assume h: "safe_host h" "c \<in> set h"
  have "string_char CHR ''[''" "string_char CHR '']''" by code_simp+
  with h show "string_char c" using host_char_printable by (auto simp: safe_host_def)
qed

lemma name_printable: "\<forall>c\<in>set (result_name r). string_char c" "\<forall>c\<in>set (directory_reason_name f). string_char c"
proof -
  show "\<forall>c\<in>set (result_name r). string_char c" by (induct r) code_simp+
  show "\<forall>c\<in>set (directory_reason_name f). string_char c" by (induct f) code_simp+
qed

lemma one_printable: "\<forall>c\<in>set ''1''. string_char c" "\<forall>c\<in>set ''0''. string_char c"
  "\<forall>c\<in>set ''internal''. string_char c" "\<forall>c\<in>set ''nonce_store_unavailable''. string_char c"
  by code_simp+

text \<open>The verdict variables, read off the context.\<close>

definition error_token :: "httpsig_ctx \<Rightarrow> bytes option" where
  "error_token ctx =
     (if cx_internal_error ctx then Some ''internal''
      else if cx_nonce_store_unavailable ctx then Some ''nonce_store_unavailable''
      else if cx_result ctx = RESULT_OK \<or> cx_result ctx = RESULT_NOT_SIGNED then None
      else if cx_result ctx = RESULT_KEY_UNAVAILABLE \<and> cx_directory_reason ctx \<noteq> FETCH_OK
      then Some (directory_reason_name (cx_directory_reason ctx))
      else Some (result_name (cx_result ctx)))"

lemma variables_of:
  assumes "evaluate env st0 = (True, Some ctx, st)"
  shows "get_variable ''httpsig_verified'' env st0 =
      (if cx_result ctx = RESULT_NOT_SIGNED \<or> cx_result ctx = RESULT_KEY_UNAVAILABLE then None
       else Some (if cx_result ctx = RESULT_OK then ''1'' else ''0''), st)"
    "get_variable ''httpsig_keyid'' env st0 = (if cx_result ctx \<noteq> RESULT_OK then None else Some (cx_keyid ctx), st)"
    "get_variable ''httpsig_agent'' env st0 =
      (if cx_result ctx \<noteq> RESULT_OK \<or> cx_agent ctx = [] then None else Some (cx_agent ctx), st)"
    "get_variable ''httpsig_error'' env st0 = (error_token ctx, st)"
  using assms by (simp_all add: get_variable_def httpsig_variables_def variable_verified_def variable_keyid_def
      variable_agent_def variable_error_def error_token_def)

text \<open>C31: What the variables tell.  However often a request is evaluated, and in whichever locations: the value of a verdict
  variable is printable ASCII, so that it can be put into a header field or a log line; \<open>$httpsig_agent\<close> is a bare
  lower-case host; the keyid and the agent are there only with \<open>$httpsig_verified\<close> 1, and 1 only with a keyid.\<close>

theorem variables_safe:
  assumes "get_variable name env (evaluations es st0) = (Some v, st)" and "\<not> cx_done (ctx_of st0)"
    and "name \<notin> {''httpsig_directory_host'', ''httpsig_directory_hostname''}"
  shows "(\<forall>c\<in>set v. string_char c) \<and>
    (name = ''httpsig_agent'' \<longrightarrow> safe_host v) \<and>
    (name \<in> {''httpsig_keyid'', ''httpsig_agent''} \<longrightarrow> get_variable ''httpsig_verified'' env st = (Some ''1'', st)) \<and>
    (name = ''httpsig_verified'' \<and> v = ''1'' \<longrightarrow> (\<exists>k. get_variable ''httpsig_keyid'' env st = (Some k, st)))"
proof -
  let ?st = "evaluations es st0"
  obtain ok out st1 where e: "evaluate env ?st = (ok, out, st1)" by (metis prod_cases3)
  have "clean (ctx_of ?st)" using assms(2) by (intro evaluations_clean) (simp add: clean_def)
  note c = evaluate_clean [OF e this]
  have name: "name = ''httpsig_verified'' \<or> name = ''httpsig_keyid'' \<or> name = ''httpsig_agent'' \<or> name = ''httpsig_error''"
    using assms(1,3) by (auto simp: get_variable_def httpsig_variables_def split: if_splits)
  obtain ctx where ctx: "ok" "out = Some ctx" "st1 = st"
    using assms(1) name e
    by (cases ok; cases out) (auto simp: get_variable_def httpsig_variables_def variable_verified_def variable_keyid_def
        variable_agent_def variable_error_def)
  have on: "lc_mode (ev_lcf env) \<noteq> MODE_OFF" using e ctx by (auto simp: evaluate_def)
  from c ctx have d: "clean ctx" "cx_done ctx" "st_ctx st = Some ctx" by auto
  then have again: "evaluate env st = (True, Some ctx, st)" using on by (simp add: evaluate_def)
  have "evaluate env ?st = (True, Some ctx, st)" using e ctx by simp
  note before = variables_of [OF this] and after = variables_of [OF again]
  show ?thesis
  proof (cases "cx_result ctx = RESULT_OK")
    case True
    with d have "\<forall>c\<in>set (cx_keyid ctx). string_char c" "cx_agent ctx = [] \<or> safe_host (cx_agent ctx)" by (simp_all add: clean_def)
    with name assms(1) True show ?thesis
      by (elim disjE) (auto simp: before after error_token_def one_printable safe_host_printable name_printable split: if_splits)
  next
    case False
    with name assms(1) show ?thesis
      by (elim disjE) (auto simp: before error_token_def one_printable name_printable split: if_splits)
  qed
qed

theorem variables_safe_witness:
  "\<exists>st k. get_variable ''httpsig_verified'' demo_env (demo_state small_store) = (Some ''1'', st) \<and>
    get_variable ''httpsig_keyid'' demo_env st = (Some k, st)"
proof -
  obtain zone where z: "shm_check small_store demo_key 110 150 = (NONCE_OK, zone)" using demo_recorded by blast
  obtain ctx st where e: "evaluate demo_env (demo_state small_store) = (True, Some ctx, st)" "cx_result ctx = RESULT_OK"
    by (rule demo_evaluate [OF z])
  have st: "demo_state small_store = evaluations [] (demo_state small_store)" by (simp add: evaluations_def)
  have v: "get_variable ''httpsig_verified'' demo_env (demo_state small_store) = (Some ''1'', st)"
    using variables_of(1) [OF e(1)] e(2) by simp
  moreover have "\<not> cx_done (ctx_of (demo_state small_store))" by (simp add: ctx_of_def demo_state_def ctx_zero_def)
  ultimately have "\<exists>k. get_variable ''httpsig_keyid'' demo_env st = (Some k, st)"
    using variables_safe [of "''httpsig_verified''" demo_env "[]" "demo_state small_store" "''1''" st] unfolding st [symmetric] by simp
  with v show ?thesis by blast
qed

text \<open>C32: Internal errors and the verdict.  When a signature is accepted and the check of its nonce then fails internally,
  in whichever way, the nonce is entered in no store, and yet \<open>$httpsig_verified\<close> is 1 and \<open>$httpsig_keyid\<close> the keyid,
  beside \<open>$httpsig_error\<close> \<open>internal\<close>; outside \<open>enforce\<close> the request goes on, with \<open>auth_httpsig_nonce_store_failure
  closed\<close> as well.\<close>

theorem internal_error_verified:
  assumes "accepted_signature env st = Some sig" and "evaluate env st = (True, Some ctx, st')" and "cx_internal_error ctx"
    and "\<not> cx_done (ctx_of st)" and "\<not> cx_internal_error (ctx_of st)" and "verdict_kept (st_verdict st)"
  shows "stores st' = stores st \<and> variable_verified env st' = (Some ''1'', st') \<and>
    variable_keyid env st' = (Some (sg_keyid sig), st') \<and> variable_error env st' = (Some ''internal'', st') \<and>
    (lc_mode (ev_lcf env) \<noteq> MODE_ENFORCE \<longrightarrow> access_handler env st' = (HANDLER_DECLINED, st'))"
proof (rule evaluate_cases [of env st])
  fix ctx2 st2
  assume on: "lc_mode (ev_lcf env) \<noteq> MODE_OFF" and n: "evaluate_new env (ctx_of st) (started st) = (ctx2, st2)"
    and "evaluate env st = (True, Some ctx2, st2\<lparr>st_ctx := Some ctx2\<rparr>)"
  with assms(2) have eq: "ctx2 = ctx" "st' = st2\<lparr>st_ctx := Some ctx\<rparr>" by auto
  obtain ctx0 res ctx1 st1 where c: "framed (started st) st1" "cx_internal_error ctx0 = cx_internal_error (ctx_of st)" "cx_done ctx0"
    "check_nonce env ctx0 sig (ev_now env) st1 = (res, ctx1, st2)"
    "ctx = (if res = RESULT_OK then ctx1\<lparr>cx_result := res, cx_keyid := sg_keyid sig, cx_agent := sg_agent_host sig\<rparr>
            else ctx1\<lparr>cx_result := res\<rparr>)"
    by (rule evaluate_new_accepted [OF n [unfolded eq(1)] assms(1)])
  have "res = RESULT_OK \<and> stores st2 = stores st1"
    using check_nonce_internal [OF c(4)] c assms by (auto simp: framed_def split: if_splits)
  moreover from this have "cx_result ctx = RESULT_OK" "cx_keyid ctx = sg_keyid sig" "cx_done ctx"
    using c check_nonce_frame [OF c(4)] by auto
  moreover from this have "evaluate env st' = (True, Some ctx, st')" using on eq by (simp add: evaluate_def)
  ultimately show ?thesis
    using c(1) assms(3) eq by (auto simp: variable_verified_def variable_keyid_def variable_error_def access_handler_def framed_def Let_def)
qed (use assms in \<open>auto simp: ctx_of_def\<close>)

theorem internal_error_verified_witness:
  "\<exists>st st' ctx. evaluate demo_env st = (True, Some ctx, st') \<and> cx_internal_error ctx \<and>
    lc_nonce_failure_closed (ev_lcf demo_env) \<and> variable_verified demo_env st' = (Some ''1'', st')"
proof -
  let ?st = "(demo_state small_store)\<lparr>st_verdict := Some (nonce_verdict_zero\<lparr>nv_internal_error := True\<rparr>)\<rparr>"
  let ?ctx = "ctx_zero\<lparr>cx_done := True, cx_result := RESULT_NOT_SIGNED\<rparr>"
  have s: "cx_jwks ?ctx = []" "st_pool ?st = []" "st_ctx ?st = None" "ctx_of ?st = ctx_zero" "started ?st = ?st"
    by (simp_all add: ctx_zero_def demo_state_def ctx_of_def started_def st_palloc_def)
  have al: "st_palloc ?st = (True, ?st)" by (simp add: st_palloc_def demo_state_def)
  from demo_verify [OF s(1,2)] obtain sig where
    v: "verify_request demo_env ?ctx honest_request ?st = (NGX_OK (), sig, ?ctx, ?st)" "sg_nonce sig = ''n''" by blast
  have b: "on_st_pool (build_request (ev_scheme demo_env) (ev_request demo_env)) ?st = (NGX_OK honest_request, ?st)"
    by (simp add: on_st_pool_def demo_state_def build_request_Nil demo_snapshot)
  have a: "accepted_signature demo_env ?st = Some sig" using demo_find b v by (simp add: accepted_signature_def s)
  obtain ctx st1 where n: "evaluate_new demo_env ctx_zero ?st = (ctx, st1)" by fastforce
  then have e: "evaluate demo_env ?st = (True, Some ctx, st1\<lparr>st_ctx := Some ctx\<rparr>)"
    by (simp add: evaluate_def demo_conf_def s al)
  have "cx_internal_error ctx"
    using n demo_find b v by (auto simp: evaluate_new_def judge_request_def check_nonce_def demo_conf_def nonce_verdict_zero_def)
  moreover have "verdict_kept (st_verdict ?st)" "\<not> cx_done (ctx_of ?st)" "\<not> cx_internal_error (ctx_of ?st)"
    unfolding s(4) by (simp_all add: verdict_kept_def nonce_verdict_zero_def ctx_zero_def)
  ultimately have "variable_verified demo_env (st1\<lparr>st_ctx := Some ctx\<rparr>) = (Some ''1'', st1\<lparr>st_ctx := Some ctx\<rparr>)"
    using internal_error_verified [OF a e] by blast
  moreover have "lc_nonce_failure_closed (ev_lcf demo_env)" by (simp add: demo_conf_def)
  ultimately show ?thesis using e \<open>cx_internal_error ctx\<close> by blast
qed

end
