(* ===== verification/Spec2Isabelle.thy ===== *)
theory Spec2Isabelle
  imports Base_Props Profile_Props Directory_Props Keys_Cache_Props Key_Zone Nonce_Props Nonce_Redis_Props Worker Replay Access_Props Variables
begin

text \<open>
  Verification of the nginx HTTP message signature module (RFC 9421, web-bot-auth profile).

  The module checks the \<open>Signature-Input\<close> and \<open>Signature\<close> fields of a request against a profile: it
  parses both as Structured Field Dictionaries, picks the member tagged for the profile, rebuilds
  the signature base from the request, and verifies the Ed25519 signature with the key named by
  \<open>keyid\<close>, which comes from a configured JWKS document or from a key directory fetched for the
  \<open>Signature-Agent\<close> host.

  \<^bold>\<open>Theories and the code they model\<close> (paths under \<open>src/\<close> of the repository)

  \<^item> \<open>Prelude\<close>: return codes (\<open>NGX_OK\<close>, \<open>NGX_DECLINED\<close>, \<open>NGX_ERROR\<close>), pools whose allocations may fail,
    sequencing, and \<open>str_eq\<close> of \<open>ngx_auth_httpsig_str.h\<close>.  A pool is the list of outcomes of its
    allocations; the pool \<open>[]\<close> never fails.
  \<^item> \<open>Ngx\<close>, \<open>Base64\<close>: the string, comparison and base64 primitives of nginx the module calls,
    translated from the shim under \<open>tests/unit/ngx_compat\<close>.
  \<^item> \<open>Sfv\<close>, \<open>Sfv_Write\<close>: \<open>ngx_auth_httpsig_sfv.c\<close>, the Structured Field parser and serializer.
    \<open>Sfv_Roundtrip\<close> shows that what is parsed is within every limit and that serializing and parsing
    are inverse; \<open>Sfv_Alloc\<close> that a failing allocation has no effect but \<open>NGX_ERROR\<close>.
  \<^item> \<open>Base\<close>: \<open>ngx_auth_httpsig_base.c\<close>, the signature base.  \<open>Base_Props\<close>: when it can be built, which
    text it is, that it determines the covered values, and the query string codec.
  \<^item> \<open>Keys\<close>: \<open>ngx_auth_httpsig_keys.c\<close>, keysets and their chaining.  The JSON and JWK library is not
    part of the repository: it is the record \<open>jwx\<close>, an argument of the definitions.
  \<^item> \<open>Verify\<close>: \<open>ngx_auth_httpsig_verify.c\<close>, result codes and Ed25519 verification, and which documents of a chained
    keyset decide it.
  \<^item> \<open>Agent\<close>, \<open>Profile\<close>: \<open>ngx_auth_httpsig_profile.c\<close>, the Signature-Agent URL, the profile table and the
    step-by-step judgment.  \<open>Profile_Props\<close>: acceptance characterised exactly; \<open>Profile_Run\<close>: what the judgment
    reports about an accepted request, and that a signature over members of Signature-Agent does not bind the agent
    it reports.
  \<^item> \<open>Directory\<close>: \<open>ngx_auth_httpsig_directory.c\<close>, the rules of the key directory fetch.  \<open>Directory_Props\<close>: which
    hosts pass, which responses are accepted, and the limits of the cache lifetime.
  \<^item> \<open>Keys_Cache\<close>: \<open>ngx_auth_httpsig_keys_cache.c\<close>, a worker's cache of parsed documents.  \<open>Keys_Cache_Props\<close>: it
    refines a least-recently-used store (locale \<open>lru\<close>).
  \<^item> \<open>Rbtree\<close>: the red-black tree of nginx, from the shim under \<open>tests/unit/ngx_compat\<close>.  \<open>Rbtree_Props\<close>: the order of its
    nodes and, in the locale \<open>ordered_tree\<close>, that it is a map.  \<open>Zone\<close>: CRC-32 and the order both zones use.
  \<^item> \<open>Cache\<close>: \<open>ngx_auth_httpsig_cache.c\<close>, the documents shared by the workers.  \<open>Cache_Props\<close>: every operation is a step
    of a specification on a map of hosts; \<open>Key_Zone\<close>: the locale \<open>key_zone\<close> over that specification, with the
    generation numbers, the fetch right, when a stranded one comes back and the rotation, interpreted on the zone.
  \<^item> \<open>Nonce_Store\<close>, \<open>Nonce_Redis\<close>: \<open>ngx_auth_httpsig_nonce_store.c\<close>, the two stores of nonces.  \<open>Nonce_Props\<close>: the
    shared-memory store refines a map of keys to their end of life, interpreted in the locale \<open>replay_store\<close>;
    its records stay bounded by the keys alive; \<open>Nonce_Redis_Props\<close>: what the replies of Redis mean and how failures
    back off.
  \<^item> \<open>Request\<close>, \<open>Module\<close>: the request handling of \<open>ngx_http_auth_httpsig_module.c\<close>, from the header lines to the access
    decision and the variables.  \<open>Request_Props\<close>, \<open>Module_Props\<close>: the snapshot of the request, when access is granted,
    and that a request consults the nonce store once.  \<open>Fetch_Props\<close>: where a fetch may go, that its right comes
    back, and how often a request waits.  \<open>Access_Props\<close>: when a request is denied, and with which status.
    \<open>Variables\<close>: what the variables report.  \<open>Worker\<close>: the relation \<open>reached\<close> of what the requests of a worker and the
    other workers do, in any order, and that a request is verified with the keys of its own host.  \<open>Replay\<close>: the
    handlers and the nonce store together admit no signature twice.
  \<^item> \<open>Config\<close>: the directives, the merge of the blocks and the registration of the handlers.  \<open>Config_Props\<close>: the
    relation \<open>configured\<close> of all configurations nginx can arrive at, and what holds of every location in them.
    \<open>Module_Demo\<close> is a location, a request and a state the theorems are applied to.

  \<^bold>\<open>How the parts interact\<close>.  The handler of the preaccess phase (\<open>directory_handler\<close>) selects the label with
  \<open>select_label\<close>, takes the host from Signature-Agent (\<open>agent_authority\<close>, \<open>normalize_host\<close>), looks it up in the shared
  cache (\<open>cache_lookup\<close>) and, when it is granted the fetch right, starts a subrequest whose completion
  (\<open>directory_done\<close>) stores the document (\<open>cache_store\<close>) or gives the right back (\<open>cache_release\<close>).  The evaluation
  (\<open>evaluate\<close>) parses the document through the worker's cache (\<open>kc_get\<close>, \<open>kc_put\<close>), chains it with the configured
  keys, judges the snapshot (\<open>build_request\<close>, \<open>profile_verify\<close>) and checks the nonce (\<open>shm_check\<close>, \<open>redis_check\<close>).
  \<open>access_handler\<close> maps the result to a decision.

  \<^bold>\<open>Conventions\<close>.  Byte strings are \<open>string\<close>.  Integers read from a field have at most 15 digits, which
  \<open>Sfv_Roundtrip\<close> proves, so \<open>int64_t\<close> arithmetic on them and on times cannot wrap and they are \<open>int\<close>; bit
  masks are \<open>nat\<close>; keys of the trees are \<open>32 word\<close>; \<open>NULL\<close> arguments that no caller passes are left out.  Loops over
  the input recurse on what is left of it and need no fuel.  Operations on a zone run under its mutex and are
  single steps; what other workers do in between is a list of such steps.

  \<^bold>\<open>Not modelled\<close>.  Logging and the release of memory and connections have no effect on the results.  The
  JSON and JWK library, the Redis client, the subrequest, and of nginx the slot setters, the parsers of sizes and
  times, files, the registry of shared memory and the resolver are parameters: they are not in the repository.
\<close>

section \<open>Accepted requests\<close>

text \<open>C5: What an accepted signature binds: the base the key verified is one that no other request and no other
  well-formed component list can produce unless the list, the parameters and the value of every covered
  component, the authority or the target URI among them, are the same.\<close>

theorem accepted_request_binds:
  assumes "pc_profile pctx = web_bot_auth"
    and "fst (profile_verify lib clock pctx req (p, sig0)) = NGX_OK ()" and "request_no_LF req"
  shows "\<exists>l keyid base bs.
    verify_ed25519 lib (pc_keys pctx) keyid base bs (pc_kid_fallback_keys pctx) = NGX_OK () \<and>
    param_get (il_params l) ''keyid'' = Some (SFV_STRING keyid) \<and>
    (\<exists>i\<in>set (il_items l). it_bare i = SFV_STRING ''@authority'' \<or> it_bare i = SFV_STRING ''@target-uri'') \<and>
    base_build req l [] = (NGX_OK base, []) \<and>
    (\<forall>req' m. base_build req' m [] = (NGX_OK base, []) \<longrightarrow> wf_inner_list m \<longrightarrow> request_no_LF req' \<longrightarrow>
       m = l \<and> (\<forall>i\<in>set (il_items l). \<exists>v. component_value req i [] = (NGX_OK v, []) \<and>
                                            component_value req' i [] = (NGX_OK v, [])))"
proof -
  from profile_verify_ok_Nil [OF assms(2)] obtain input sd entry where
    e: "parse_dictionary (join_values (field_values req ''signature-input'')) [] = (NGX_OK input, [])"
      "find (entry_has_tag (pf_tag (pc_profile pctx))) (d_entries input) = Some entry"
      "fst (verify_entry lib clock pctx req sd entry ([], signature_zero)) = NGX_OK ()"
    unfolding profile_verify_Nil select_entry_def by blast
  from e(3) obtain l keyid i bs base now where
    l: "e_value entry = MEMBER_INNER_LIST l" "meets_profile pctx now req l keyid" "base_build req l [] = (NGX_OK base, [])"
      "verify_ed25519 lib (pc_keys pctx) keyid base bs (pc_kid_fallback_keys pctx) = NGX_OK ()"
    unfolding verify_web_bot_auth_Nil [OF assms(1)] by blast
  have wf: "wf_inner_list l" by (rule accepted_entry_wf [OF e(1,2) l(1)])
  have "m = l \<and> (\<forall>i\<in>set (il_items l). \<exists>v. component_value req i [] = (NGX_OK v, []) \<and>
      component_value req' i [] = (NGX_OK v, []))"
    if "base_build req' m [] = (NGX_OK base, [])" "wf_inner_list m" "request_no_LF req'" for req' m
    using base_build_inj [of req l "[]" base req' m "[]"] l(3) that wf assms(3) by auto
  moreover have "param_get (il_params l) ''keyid'' = Some (SFV_STRING keyid)"
    "\<exists>i\<in>set (il_items l). it_bare i = SFV_STRING ''@authority'' \<or> it_bare i = SFV_STRING ''@target-uri''"
    using l(2) unfolding meets_profile_def by blast+
  ultimately show ?thesis using l(3,4) by blast
qed

theorem accepted_request_binds_witness:
  "\<exists>l keyid base. param_get (il_params l) ''keyid'' = Some (SFV_STRING keyid) \<and>
    base_build signed_request l [] = (NGX_OK base, [])"
proof -
  have "request_no_LF signed_request" by code_simp
  from accepted_request_binds [OF signed_ctx_simps(1) signed_accepts this] show ?thesis by blast
qed

end
